(* ===== verification/Halo_Prelude.thy ===== *)
theory Halo_Prelude
  imports Main "HOL-Library.Word" "HOL-Library.Monad_Syntax"
begin

text \<open>
  The prelude of the development: bytes, C buffers with checked access, C strings and the
  string routines of the C library that the gateway calls, and the generic lemmas on them
  that every component shares.

  A block of memory is the list of its bytes. An access outside the block is undefined
  behaviour in C, and it is the value None here: every operation that reads or writes
  memory returns an option, and Some is a run that stayed inside its blocks.
\<close>

unbundle bit_operations_syntax

named_theorems cmem_simps \<open>evaluation of checked memory accesses\<close>

type_synonym byte = "8 word"
type_synonym cbuf = "byte list"

section \<open>Literals\<close>

definition bytes :: "string \<Rightarrow> byte list" where
  "bytes s = map of_char s"

lemma bytes_Nil [simp]: "bytes [] = []"
  by (simp add: bytes_def)

lemma bytes_Cons: "bytes (c # s) = of_char c # bytes s"
  by (simp add: bytes_def)

lemma of_char_byte_eq: "(of_char c :: byte) = of_char d \<longleftrightarrow> c = d"
proof
  assume a: "(of_char c :: byte) = of_char d"
  have u: "unat (of_char e :: byte) = of_char e" for e
  proof -
    have "(of_char e :: nat) mod 256 < 256" by (rule mod_less_divisor) simp
    then have "(of_char e :: nat) < 256" unfolding of_char_mod_256 .
    then have "unat (of_nat (of_char e) :: byte) = of_char e" by (simp add: unat_of_nat take_bit_eq_mod)
    then show ?thesis by (simp add: of_nat_of_char)
  qed
  from a u [of c] u [of d] have "(of_char c :: nat) = of_char d" by metis
  then show "c = d" by (simp only: of_char_eq_iff)
qed simp
lemma bytes_eq_iff: "bytes a = bytes b \<longleftrightarrow> a = b"
  unfolding bytes_def by (rule inj_map_eq_map) (simp add: inj_def of_char_byte_eq)

section \<open>Checked memory access\<close>

definition rd :: "cbuf \<Rightarrow> nat \<Rightarrow> byte option" where
  "rd b i = (if i < length b then Some (b ! i) else None)"

definition wr :: "cbuf \<Rightarrow> nat \<Rightarrow> byte \<Rightarrow> cbuf option" where
  "wr b i v = (if i < length b then Some (b[i := v]) else None)"

text \<open>\<open>bset b i n v\<close> is \<open>memset(b + i, v, n)\<close>, \<open>bput b i xs\<close> is \<open>memcpy(b + i, xs, |xs|)\<close> and
  \<open>bget b i n\<close> reads \<open>n\<close> bytes from \<open>b + i\<close>.\<close>

definition bset :: "cbuf \<Rightarrow> nat \<Rightarrow> nat \<Rightarrow> byte \<Rightarrow> cbuf option" where
  "bset b i n v =
     (if i + n \<le> length b then Some (take i b @ replicate n v @ drop (i + n) b) else None)"

definition bput :: "cbuf \<Rightarrow> nat \<Rightarrow> byte list \<Rightarrow> cbuf option" where
  "bput b i xs =
     (if i + length xs \<le> length b then Some (take i b @ xs @ drop (i + length xs) b)
      else None)"

definition bget :: "cbuf \<Rightarrow> nat \<Rightarrow> nat \<Rightarrow> byte list option" where
  "bget b i n = (if i + n \<le> length b then Some (take n (drop i b)) else None)"

lemma rd_Some [cmem_simps]: "i < length b \<Longrightarrow> rd b i = Some (b ! i)"
  by (simp add: rd_def)

lemma rd_None [cmem_simps]: "length b \<le> i \<Longrightarrow> rd b i = None"
  by (simp add: rd_def)

lemma wr_Some [cmem_simps]: "i < length b \<Longrightarrow> wr b i v = Some (b[i := v])"
  by (simp add: wr_def)

lemma wr_length: "wr b i v = Some b' \<Longrightarrow> length b' = length b"
  by (auto simp: wr_def split: if_splits)

lemma bset_length: "bset b i n v = Some b' \<Longrightarrow> length b' = length b"
  by (auto simp: bset_def split: if_splits)

lemma bput_length: "bput b i xs = Some b' \<Longrightarrow> length b' = length b"
  by (auto simp: bput_def split: if_splits)

lemma bget_length: "bget b i n = Some xs \<Longrightarrow> length xs = n"
  by (auto simp: bget_def split: if_splits)

lemma bget_bput: "bput b i xs = Some b' \<Longrightarrow> bget b' i (length xs) = Some xs"
  by (auto simp: bput_def bget_def split: if_splits)

lemma bput_append [cmem_simps]:
  "length xs = length ys \<Longrightarrow> bput (pre @ xs @ post) (length pre) ys = Some (pre @ ys @ post)"
  by (simp add: bput_def)

lemma bset_append [cmem_simps]:
  "length xs = n \<Longrightarrow>
   bset (pre @ xs @ post) (length pre) n v = Some (pre @ replicate n v @ post)"
  by (simp add: bset_def)

lemma bset_prefix:
  "length pre = n \<Longrightarrow> k \<le> length rest \<Longrightarrow>
   bset (pre @ rest) n k v = Some (pre @ replicate k v @ drop k rest)"
  by (simp add: bset_def)

lemma rd_append [cmem_simps]: "rd (pre @ c # post) (length pre) = Some c"
  by (simp add: rd_def)

lemma wr_append [cmem_simps]: "wr (pre @ c # post) (length pre) v = Some (pre @ v # post)"
  by (simp add: wr_def)

lemma replicate_update_0 [simp]: "0 < n \<Longrightarrow> (replicate n x)[0 := y] = y # replicate (n - 1) x"
  by (cases n) auto

section \<open>Scanning memory\<close>

text \<open>\<open>find_byte c b\<close> is the offset of the first byte \<open>c\<close> of \<open>b\<close>: the loop
  \<open>while (*p != c) ++p\<close>, which has no bound of its own and runs off a block without \<open>c\<close>.\<close>

fun find_byte :: "byte \<Rightarrow> cbuf \<Rightarrow> nat option" where
  "find_byte c [] = None"
| "find_byte c (x # xs) = (if x = c then Some 0 else map_option Suc (find_byte c xs))"

lemma find_byte_prefix: "c \<notin> set xs \<Longrightarrow> find_byte c (xs @ c # ys) = Some (length xs)"
  by (induction xs) auto

lemma find_byte_None [simp]: "find_byte c xs = None \<longleftrightarrow> c \<notin> set xs"
  by (induction xs) auto

lemma find_byte_SomeD:
  "find_byte c xs = Some k \<Longrightarrow> k < length xs \<and> xs ! k = c \<and> c \<notin> set (take k xs)"
  by (induction xs arbitrary: k) (auto split: if_splits)

lemma find_byte_split:
  "find_byte c xs = Some k \<Longrightarrow> xs = take k xs @ c # drop (Suc k) xs"
  by (metis find_byte_SomeD id_take_nth_drop)

section \<open>C strings\<close>

text \<open>\<open>cstr b\<close> is the string at the start of \<open>b\<close>: its bytes up to the terminator, None when
  the block holds no terminator.\<close>

definition cstr :: "cbuf \<Rightarrow> byte list option" where
  "cstr b = map_option (\<lambda>k. take k b) (find_byte 0 b)"

lemma cstr_append [cmem_simps]: "0 \<notin> set s \<Longrightarrow> cstr (s @ 0 # post) = Some s"
  by (simp add: cstr_def find_byte_prefix)

lemma cstr_SomeD: "cstr b = Some s \<Longrightarrow> 0 \<notin> set s \<and> (\<exists>post. b = s @ 0 # post)"
  by (auto simp: cstr_def dest: find_byte_SomeD find_byte_split)

lemma cstr_conv: "cstr b = Some s \<longleftrightarrow> 0 \<notin> set s \<and> (\<exists>post. b = s @ 0 # post)"
  using cstr_SomeD cstr_append by blast

lemma cstr_total: "0 \<in> set b \<Longrightarrow> \<exists>t. cstr b = Some t"
  by (cases "find_byte 0 b") (auto simp: cstr_def)

text \<open>\<open>strstr\<close> on string contents: the offset of the first occurrence of a needle.\<close>

fun starts_with :: "'a list \<Rightarrow> 'a list \<Rightarrow> bool" where
  "starts_with [] ys = True"
| "starts_with (x # xs) [] = False"
| "starts_with (x # xs) (y # ys) = (x = y \<and> starts_with xs ys)"

fun find_sub :: "byte list \<Rightarrow> byte list \<Rightarrow> nat option" where
  "find_sub n [] = (if n = [] then Some 0 else None)"
| "find_sub n (x # xs) =
     (if starts_with n (x # xs) then Some 0 else map_option Suc (find_sub n xs))"

lemma starts_with_append [simp]: "starts_with xs (xs @ ys)"
  by (induction xs) auto

lemma starts_with_conv: "starts_with xs ys \<longleftrightarrow> (\<exists>zs. ys = xs @ zs)"
  by (induction xs ys rule: starts_with.induct) auto

lemma find_sub_Some:
  "find_sub n h = Some k \<Longrightarrow> k \<le> length h \<and> starts_with n (drop k h)"
  by (induction h arbitrary: k) (auto split: if_splits)

lemma find_sub_None: "find_sub n h = None \<Longrightarrow> h \<noteq> pre @ n @ post"
proof (induction h arbitrary: pre)
  case Nil
  then show ?case by (auto split: if_splits)
next
  case (Cons x h)
  show ?case
  proof (cases pre)
    case Nil
    with Cons.prems show ?thesis
      by (auto simp: starts_with_conv split: if_splits)
  next
    case (Cons y pre')
    with Cons.prems Cons.IH show ?thesis by (auto split: if_splits)
  qed
qed

text \<open>The last occurrence of a byte (\<open>strrchr\<close>).\<close>

definition find_last :: "byte \<Rightarrow> byte list \<Rightarrow> nat option" where
  "find_last c s = map_option (\<lambda>k. length s - Suc k) (find_byte c (rev s))"

lemma find_last_append: "c \<notin> set ys \<Longrightarrow> find_last c (xs @ c # ys) = Some (length xs)"
  using find_byte_prefix [of c "rev ys" "rev xs"] by (simp add: find_last_def)

lemma find_last_None [simp]: "find_last c s = None \<longleftrightarrow> c \<notin> set s"
  by (simp add: find_last_def)

section \<open>Decimal digits\<close>

definition is_digit :: "byte \<Rightarrow> bool" where
  "is_digit c = (0x30 \<le> c \<and> c \<le> 0x39)"

definition digit_val :: "byte \<Rightarrow> int" where
  "digit_val c = uint c - 0x30"

definition dec_fold :: "int \<Rightarrow> byte list \<Rightarrow> int" where
  "dec_fold n ds = foldl (\<lambda>n c. n * 10 + digit_val c) n ds"

lemma dec_fold_Nil [simp]: "dec_fold n [] = n"
  by (simp add: dec_fold_def)

lemma dec_fold_Cons [simp]: "dec_fold n (c # ds) = dec_fold (n * 10 + digit_val c) ds"
  by (simp add: dec_fold_def)

lemma dec_fold_append [simp]: "dec_fold n (as @ bs) = dec_fold (dec_fold n as) bs"
  by (simp add: dec_fold_def)

lemma is_digit_range: "is_digit c \<Longrightarrow> 0 \<le> digit_val c \<and> digit_val c \<le> 9"
  by (simp add: is_digit_def digit_val_def word_le_def)

section \<open>Half-word byte order\<close>

definition le16 :: "16 word \<Rightarrow> byte list" where
  "le16 w = [ucast w, ucast (drop_bit 8 w)]"

definition of_le16 :: "byte \<Rightarrow> byte \<Rightarrow> 16 word" where
  "of_le16 lo hi = ucast lo OR push_bit 8 (ucast hi)"

text \<open>\<open>htons\<close> and \<open>ntohs\<close> on the little-endian target swap the two bytes.\<close>

definition bswap16 :: "16 word \<Rightarrow> 16 word" where
  "bswap16 w = push_bit 8 w OR drop_bit 8 w"

lemma le16_length [simp]: "length (le16 w) = 2"
  by (simp add: le16_def)

lemma of_le16_le16 [simp]: "of_le16 (le16 w ! 0) (le16 w ! 1) = w"
  unfolding of_le16_def le16_def
  by (rule bit_word_eqI) (auto simp: bit_simps)

lemma of_le16_ucast [simp]: "of_le16 (ucast w) (ucast (drop_bit 8 w)) = w"
  using of_le16_le16 [of w] by (simp add: le16_def)

lemma bswap16_bswap16 [simp]: "bswap16 (bswap16 w) = w"
  unfolding bswap16_def
  by (rule bit_word_eqI) (auto simp: bit_simps)

section \<open>C integers\<close>

text \<open>A C \<open>int\<close> result outside its 32 bits is undefined behaviour: \<open>int32\<close> is None there.
  \<open>char_val\<close> reads a \<open>char\<close> as the number it promotes to, which depends on whether the
  compiler's plain \<open>char\<close> is signed (x86, MIPS) or not (the ARM ABI of the product).\<close>

definition int32 :: "int \<Rightarrow> int option" where
  "int32 v = (if - (2 ^ 31) \<le> v \<and> v < 2 ^ 31 then Some v else None)"

definition char_val :: "bool \<Rightarrow> byte \<Rightarrow> int" where
  "char_val sg c = (if sg then sint c else uint c)"

lemma int32_Some [cmem_simps]: "- (2 ^ 31) \<le> v \<Longrightarrow> v < 2 ^ 31 \<Longrightarrow> int32 v = Some v"
  by (simp add: int32_def)

lemma int32_SomeD: "int32 v = Some w \<Longrightarrow> w = v \<and> - (2 ^ 31) \<le> v \<and> v < 2 ^ 31"
  by (simp add: int32_def split: if_splits)

section \<open>strncpy and strchr\<close>

text \<open>\<open>strncpy(b + i, s, n)\<close> for a source string \<open>s\<close>: the first \<open>n\<close> bytes, padded with
  terminators up to \<open>n\<close>, and no terminator when \<open>s\<close> has \<open>n\<close> bytes or more.
  \<open>strcpy\<close> writes the string and its terminator.\<close>

definition strncpy_bytes :: "byte list \<Rightarrow> nat \<Rightarrow> byte list" where
  "strncpy_bytes s n = take n s @ replicate (n - length s) 0"

definition strncpy :: "cbuf \<Rightarrow> byte list \<Rightarrow> nat \<Rightarrow> cbuf option" where
  "strncpy b s n = bput b 0 (strncpy_bytes s n)"

definition strcpy :: "cbuf \<Rightarrow> byte list \<Rightarrow> cbuf option" where
  "strcpy b s = bput b 0 (s @ [0])"

definition strchr :: "byte list \<Rightarrow> byte \<Rightarrow> nat option" where
  "strchr s c = (if c = 0 then Some (length s) else find_byte c s)"

lemma strncpy_bytes_length [simp]: "length (strncpy_bytes s n) = n"
  by (simp add: strncpy_bytes_def)

lemma strncpy_short: "length s < n \<Longrightarrow> n \<le> length b \<Longrightarrow> strncpy b s n =
    Some (s @ replicate (n - length s) 0 @ drop n b)"
  by (simp add: strncpy_def strncpy_bytes_def bput_def)

lemma strcpy_cstr: "strcpy b s = Some b' \<Longrightarrow> 0 \<notin> set s \<Longrightarrow> cstr b' = Some s"
  by (auto simp: strcpy_def bput_def cstr_append split: if_splits)

lemma strcpy_Some [cmem_simps]:
  "length s < length b \<Longrightarrow> strcpy b s = Some (s @ 0 # drop (Suc (length s)) b)"
  by (simp add: strcpy_def bput_def)

end
