(* ===== verification/Md5.thy ===== *)
theory Md5
  imports Halo_Prelude
begin

text \<open>
  The digest: \<open>app/md5.c\<close> and its macros in \<open>app/md5.h\<close>. The code is the incremental form with a
  context of two count words, four state words and a block buffer; the second half of the theory
  states the digest of RFC 1321 over a whole message and shows that the code computes it.

  \<open>MD5Decode\<close> shifts a promoted byte into the sign bit, which the compilers of the target define.
\<close>

section \<open>The code\<close>

type_synonym w32 = "32 word"
type_synonym quad = "w32 \<times> w32 \<times> w32 \<times> w32"

record md5_ctx =
  md_count0 :: w32
  md_count1 :: w32
  md_state :: quad
  md_buffer :: cbuf

definition PADDING :: cbuf where
  "PADDING = 0x80 # replicate 63 0"

definition md5_F :: "w32 \<Rightarrow> w32 \<Rightarrow> w32 \<Rightarrow> w32" where
  "md5_F x y z = (x AND y) OR (NOT x AND z)"

definition md5_G :: "w32 \<Rightarrow> w32 \<Rightarrow> w32 \<Rightarrow> w32" where
  "md5_G x y z = (x AND z) OR (y AND NOT z)"

definition md5_H :: "w32 \<Rightarrow> w32 \<Rightarrow> w32 \<Rightarrow> w32" where
  "md5_H x y z = x XOR y XOR z"

definition md5_I :: "w32 \<Rightarrow> w32 \<Rightarrow> w32 \<Rightarrow> w32" where
  "md5_I x y z = y XOR (x OR NOT z)"

definition ROTATE_LEFT :: "w32 \<Rightarrow> nat \<Rightarrow> w32" where
  "ROTATE_LEFT x n = push_bit n x OR drop_bit (32 - n) x"

text \<open>The round macros: the new value of their first argument.\<close>

type_synonym round_op = "w32 \<Rightarrow> w32 \<Rightarrow> w32 \<Rightarrow> w32 \<Rightarrow> w32 \<Rightarrow> nat \<Rightarrow> w32 \<Rightarrow> w32"

definition FF :: round_op where
  "FF a b c d x s ac = ROTATE_LEFT (a + (md5_F b c d + x + ac)) s + b"

definition GG :: round_op where
  "GG a b c d x s ac = ROTATE_LEFT (a + (md5_G b c d + x + ac)) s + b"

definition HH :: round_op where
  "HH a b c d x s ac = ROTATE_LEFT (a + (md5_H b c d + x + ac)) s + b"

definition II :: round_op where
  "II a b c d x s ac = ROTATE_LEFT (a + (md5_I b c d + x + ac)) s + b"

text \<open>The four ways the macros are applied to the registers \<open>a\<close>, \<open>b\<close>, \<open>c\<close>, \<open>d\<close>.\<close>

fun on_a :: "round_op \<Rightarrow> w32 \<Rightarrow> nat \<Rightarrow> w32 \<Rightarrow> quad \<Rightarrow> quad" where
  "on_a f x s ac (a, b, c, d) = (f a b c d x s ac, b, c, d)"

fun on_d :: "round_op \<Rightarrow> w32 \<Rightarrow> nat \<Rightarrow> w32 \<Rightarrow> quad \<Rightarrow> quad" where
  "on_d f x s ac (a, b, c, d) = (a, b, c, f d a b c x s ac)"

fun on_c :: "round_op \<Rightarrow> w32 \<Rightarrow> nat \<Rightarrow> w32 \<Rightarrow> quad \<Rightarrow> quad" where
  "on_c f x s ac (a, b, c, d) = (a, b, f c d a b x s ac, d)"

fun on_b :: "round_op \<Rightarrow> w32 \<Rightarrow> nat \<Rightarrow> w32 \<Rightarrow> quad \<Rightarrow> quad" where
  "on_b f x s ac (a, b, c, d) = (a, f b c d a x s ac, c, d)"

text \<open>The 64 lines of \<open>MD5Transform\<close>.\<close>

definition md5_lines :: "w32 list \<Rightarrow> (quad \<Rightarrow> quad) list" where
  "md5_lines x =
     [on_a FF (x ! 0) 7 0xd76aa478, on_d FF (x ! 1) 12 0xe8c7b756,
      on_c FF (x ! 2) 17 0x242070db, on_b FF (x ! 3) 22 0xc1bdceee,
      on_a FF (x ! 4) 7 0xf57c0faf, on_d FF (x ! 5) 12 0x4787c62a,
      on_c FF (x ! 6) 17 0xa8304613, on_b FF (x ! 7) 22 0xfd469501,
      on_a FF (x ! 8) 7 0x698098d8, on_d FF (x ! 9) 12 0x8b44f7af,
      on_c FF (x ! 10) 17 0xffff5bb1, on_b FF (x ! 11) 22 0x895cd7be,
      on_a FF (x ! 12) 7 0x6b901122, on_d FF (x ! 13) 12 0xfd987193,
      on_c FF (x ! 14) 17 0xa679438e, on_b FF (x ! 15) 22 0x49b40821,
      on_a GG (x ! 1) 5 0xf61e2562, on_d GG (x ! 6) 9 0xc040b340,
      on_c GG (x ! 11) 14 0x265e5a51, on_b GG (x ! 0) 20 0xe9b6c7aa,
      on_a GG (x ! 5) 5 0xd62f105d, on_d GG (x ! 10) 9 0x2441453,
      on_c GG (x ! 15) 14 0xd8a1e681, on_b GG (x ! 4) 20 0xe7d3fbc8,
      on_a GG (x ! 9) 5 0x21e1cde6, on_d GG (x ! 14) 9 0xc33707d6,
      on_c GG (x ! 3) 14 0xf4d50d87, on_b GG (x ! 8) 20 0x455a14ed,
      on_a GG (x ! 13) 5 0xa9e3e905, on_d GG (x ! 2) 9 0xfcefa3f8,
      on_c GG (x ! 7) 14 0x676f02d9, on_b GG (x ! 12) 20 0x8d2a4c8a,
      on_a HH (x ! 5) 4 0xfffa3942, on_d HH (x ! 8) 11 0x8771f681,
      on_c HH (x ! 11) 16 0x6d9d6122, on_b HH (x ! 14) 23 0xfde5380c,
      on_a HH (x ! 1) 4 0xa4beea44, on_d HH (x ! 4) 11 0x4bdecfa9,
      on_c HH (x ! 7) 16 0xf6bb4b60, on_b HH (x ! 10) 23 0xbebfbc70,
      on_a HH (x ! 13) 4 0x289b7ec6, on_d HH (x ! 0) 11 0xeaa127fa,
      on_c HH (x ! 3) 16 0xd4ef3085, on_b HH (x ! 6) 23 0x4881d05,
      on_a HH (x ! 9) 4 0xd9d4d039, on_d HH (x ! 12) 11 0xe6db99e5,
      on_c HH (x ! 15) 16 0x1fa27cf8, on_b HH (x ! 2) 23 0xc4ac5665,
      on_a II (x ! 0) 6 0xf4292244, on_d II (x ! 7) 10 0x432aff97,
      on_c II (x ! 14) 15 0xab9423a7, on_b II (x ! 5) 21 0xfc93a039,
      on_a II (x ! 12) 6 0x655b59c3, on_d II (x ! 3) 10 0x8f0ccc92,
      on_c II (x ! 10) 15 0xffeff47d, on_b II (x ! 1) 21 0x85845dd1,
      on_a II (x ! 8) 6 0x6fa87e4f, on_d II (x ! 15) 10 0xfe2ce6e0,
      on_c II (x ! 6) 15 0xa3014314, on_b II (x ! 13) 21 0x4e0811a1,
      on_a II (x ! 4) 6 0xf7537e82, on_d II (x ! 11) 10 0xbd3af235,
      on_c II (x ! 2) 15 0x2ad7d2bb, on_b II (x ! 9) 21 0xeb86d391]"

function decode_loop :: "cbuf \<Rightarrow> nat \<Rightarrow> nat \<Rightarrow> w32 list option" where
  "decode_loop input j len =
     (if j < len
      then do { b0 \<leftarrow> rd input j; b1 \<leftarrow> rd input (j + 1); b2 \<leftarrow> rd input (j + 2); b3 \<leftarrow> rd input (j + 3);
                r \<leftarrow> decode_loop input (j + 4) len;
                Some ((ucast b0 OR push_bit 8 (ucast b1) OR push_bit 16 (ucast b2)
                       OR push_bit 24 (ucast b3)) # r) }
      else Some [])"
  by pat_completeness auto

termination by (relation "measure (\<lambda>(_, j, len). len - j)") auto

declare decode_loop.simps [simp del]

definition MD5Decode :: "cbuf \<Rightarrow> nat \<Rightarrow> w32 list option" where
  "MD5Decode input len = decode_loop input 0 len"

text \<open>The four bytes that \<open>MD5Encode\<close> writes for a word.\<close>

definition word_bytes :: "w32 \<Rightarrow> byte list" where
  "word_bytes w = [ucast (w AND 0xFF), ucast (drop_bit 8 w AND 0xFF), ucast (drop_bit 16 w AND 0xFF),
                   ucast (drop_bit 24 w AND 0xFF)]"

function encode_loop :: "w32 list \<Rightarrow> nat \<Rightarrow> nat \<Rightarrow> nat \<Rightarrow> byte list option" where
  "encode_loop input i j len =
     (if j < len
      then do { w \<leftarrow> (if i < length input then Some (input ! i) else None);
                r \<leftarrow> encode_loop input (i + 1) (j + 4) len;
                Some (word_bytes w @ r) }
      else Some [])"
  by pat_completeness auto

termination by (relation "measure (\<lambda>(_, _, j, len). len - j)") auto

declare encode_loop.simps [simp del]

definition MD5Encode :: "w32 list \<Rightarrow> nat \<Rightarrow> byte list option" where
  "MD5Encode input len = encode_loop input 0 0 len"

fun add_quad :: "quad \<Rightarrow> quad \<Rightarrow> quad" where
  "add_quad (a, b, c, d) (a', b', c', d') = (a + a', b + b', c + c', d + d')"

definition MD5Transform :: "quad \<Rightarrow> cbuf \<Rightarrow> quad option" where
  "MD5Transform state block =
     do { x \<leftarrow> MD5Decode block 64;
          Some (add_quad state (fold (\<lambda>l q. l q) (md5_lines x) state)) }"

definition MD5Init :: "md5_ctx \<Rightarrow> md5_ctx" where
  "MD5Init context = context\<lparr>md_count0 := 0, md_count1 := 0,
     md_state := (0x67452301, 0xEFCDAB89, 0x98BADCFE, 0x10325476)\<rparr>"

text \<open>The block loop of \<open>MD5Update\<close>; its counter wraps like the code's.\<close>

partial_function (option) update_loop :: "cbuf \<Rightarrow> w32 \<Rightarrow> w32 \<Rightarrow> quad \<Rightarrow> (w32 \<times> quad) option" where
  "update_loop input inputlen i state =
     (if i + 64 \<le> inputlen
      then Option.bind (bget input (unat i) 64) (\<lambda>b.
           Option.bind (MD5Transform state b) (\<lambda>st. update_loop input inputlen (i + 64) st))
      else Some (i, state))"

definition MD5Update :: "md5_ctx \<Rightarrow> cbuf \<Rightarrow> w32 \<Rightarrow> md5_ctx option" where
  "MD5Update context input inputlen =
     do { let index = drop_bit 3 (md_count0 context) AND 0x3F;
          let partlen = 64 - index;
          let c0 = md_count0 context + push_bit 3 inputlen;
          let c1 = md_count1 context + (if c0 < push_bit 3 inputlen then 1 else 0) + drop_bit 29 inputlen;
          (index1, i, st, buf) \<leftarrow>
            (if partlen \<le> inputlen
             then do { p \<leftarrow> bget input 0 (unat partlen);
                       b \<leftarrow> bput (md_buffer context) (unat index) p;
                       st1 \<leftarrow> MD5Transform (md_state context) b;
                       (i, st2) \<leftarrow> update_loop input inputlen partlen st1;
                       Some (0, i, st2, b) }
             else Some (index, 0, md_state context, md_buffer context));
          r \<leftarrow> bget input (unat i) (unat (inputlen - i));
          b2 \<leftarrow> bput buf (unat index1) r;
          Some (context\<lparr>md_count0 := c0, md_count1 := c1, md_state := st, md_buffer := b2\<rparr>) }"

fun quad_list :: "quad \<Rightarrow> w32 list" where
  "quad_list (a, b, c, d) = [a, b, c, d]"

definition MD5Final :: "md5_ctx \<Rightarrow> (byte list \<times> md5_ctx) option" where
  "MD5Final context =
     do { let index = drop_bit 3 (md_count0 context) AND 0x3F;
          let padlen = (if index < 56 then 56 - index else 120 - index);
          bits \<leftarrow> MD5Encode [md_count0 context, md_count1 context] 8;
          c1 \<leftarrow> MD5Update context PADDING padlen;
          c2 \<leftarrow> MD5Update c1 bits 8;
          digest \<leftarrow> MD5Encode (quad_list (md_state c2)) 16;
          Some (digest, c2) }"

section \<open>The digest of RFC 1321\<close>

definition rfc_T :: "w32 list" where
  "rfc_T = [0xd76aa478, 0xe8c7b756, 0x242070db, 0xc1bdceee,
     0xf57c0faf, 0x4787c62a, 0xa8304613, 0xfd469501,
     0x698098d8, 0x8b44f7af, 0xffff5bb1, 0x895cd7be,
     0x6b901122, 0xfd987193, 0xa679438e, 0x49b40821,
     0xf61e2562, 0xc040b340, 0x265e5a51, 0xe9b6c7aa,
     0xd62f105d, 0x2441453, 0xd8a1e681, 0xe7d3fbc8,
     0x21e1cde6, 0xc33707d6, 0xf4d50d87, 0x455a14ed,
     0xa9e3e905, 0xfcefa3f8, 0x676f02d9, 0x8d2a4c8a,
     0xfffa3942, 0x8771f681, 0x6d9d6122, 0xfde5380c,
     0xa4beea44, 0x4bdecfa9, 0xf6bb4b60, 0xbebfbc70,
     0x289b7ec6, 0xeaa127fa, 0xd4ef3085, 0x4881d05,
     0xd9d4d039, 0xe6db99e5, 0x1fa27cf8, 0xc4ac5665,
     0xf4292244, 0x432aff97, 0xab9423a7, 0xfc93a039,
     0x655b59c3, 0x8f0ccc92, 0xffeff47d, 0x85845dd1,
     0x6fa87e4f, 0xfe2ce6e0, 0xa3014314, 0x4e0811a1,
     0xf7537e82, 0xbd3af235, 0x2ad7d2bb, 0xeb86d391]"

definition rfc_shift :: "nat \<Rightarrow> nat" where
  "rfc_shift i = ([[7, 12, 17, 22], [5, 9, 14, 20], [4, 11, 16, 23], [6, 10, 15, 21]] ! (i div 16)) ! (i mod 4)"

definition rfc_word :: "nat \<Rightarrow> nat" where
  "rfc_word i = (if i < 16 then i else if i < 32 then (5 * i + 1) mod 16
                 else if i < 48 then (3 * i + 5) mod 16 else (7 * i) mod 16)"

definition rfc_fun :: "nat \<Rightarrow> w32 \<Rightarrow> w32 \<Rightarrow> w32 \<Rightarrow> w32" where
  "rfc_fun i x y z = (if i < 16 then (x AND y) OR (NOT x AND z)
                else if i < 32 then (x AND z) OR (y AND NOT z)
                else if i < 48 then x XOR y XOR z else y XOR (x OR NOT z))"

fun rfc_step :: "w32 list \<Rightarrow> nat \<Rightarrow> quad \<Rightarrow> quad" where
  "rfc_step x i (a, b, c, d) =
     (d, b + word_rotl (rfc_shift i) (a + rfc_fun i b c d + x ! rfc_word i + rfc_T ! i), b, c)"

text \<open>The little-endian words of a block, the blocks of a message, and the padding.\<close>

fun rfc_words :: "byte list \<Rightarrow> w32 list" where
  "rfc_words (a # b # c # d # r) =
     (ucast a + 256 * ucast b + 65536 * ucast c + 16777216 * ucast d) # rfc_words r"
| "rfc_words _ = []"

fun blocks :: "byte list \<Rightarrow> byte list list" where
  "blocks xs = (if length xs < 64 then [] else take 64 xs # blocks (drop 64 xs))"

declare blocks.simps [simp del]

definition rfc_compress :: "quad \<Rightarrow> byte list \<Rightarrow> quad" where
  "rfc_compress q b = add_quad q (fold (rfc_step (rfc_words b)) [0..<64] q)"

definition le_bytes :: "nat \<Rightarrow> nat \<Rightarrow> byte list" where
  "le_bytes n v = map (\<lambda>k. of_nat (v div 256 ^ k)) [0..<n]"

definition rfc_pad :: "byte list \<Rightarrow> byte list" where
  "rfc_pad m = m @ 0x80 # replicate ((119 - length m mod 64) mod 64) 0 @ le_bytes 8 (8 * length m)"

definition rfc_init :: quad where
  "rfc_init = (0x67452301, 0xEFCDAB89, 0x98BADCFE, 0x10325476)"

definition rfc_md5 :: "byte list \<Rightarrow> byte list" where
  "rfc_md5 m = concat (map (\<lambda>w. le_bytes 4 (unat w))
     (quad_list (foldl rfc_compress rfc_init (blocks (rfc_pad m)))))"

section \<open>One block\<close>

text \<open>Four lines of the code are four rounds of the standard.\<close>

lemma rotate_left: "n < 32 \<Longrightarrow> ROTATE_LEFT x n = word_rotl n x"
proof (rule bit_word_eqI)
  fix k assume n: "n < 32" and "k < LENGTH(32)"
  then have k: "k < 32" by simp
  have r: "bit (word_rotl n x) k = bit x ((k + (32 - n)) mod 32)"
    using n k by (simp add: bit_word_rotl_iff)
  show "bit (ROTATE_LEFT x n) k = bit (word_rotl n x) k"
  proof (cases "k < n")
    case True
    then have "32 - n + k < 32" using n by linarith
    then have "(k + (32 - n)) mod 32 = 32 - n + k" by (simp only: add.commute mod_less)
    then show ?thesis unfolding r ROTATE_LEFT_def using True n k by (simp add: bit_simps)
  next
    case False
    then have "k + (32 - n) = (k - n) + 32" using n by linarith
    then have "(k + (32 - n)) mod 32 = k - n"
      using k by (metis less_imp_diff_less mod_add_self2 mod_less)
    moreover have "\<not> bit x (32 - n + k)"
      using bit_imp_le_length [of x "32 - n + k"] False n by auto
    ultimately show ?thesis unfolding r ROTATE_LEFT_def using False n k by (simp add: bit_simps)
  qed
qed

definition rnd :: "round_op \<Rightarrow> w32 \<Rightarrow> nat \<Rightarrow> w32 \<Rightarrow> quad \<Rightarrow> quad" where
  "rnd f x s ac = (\<lambda>(a, b, c, d). (d, f a b c d x s ac, b, c))"

lemma four_lines:
  "on_b f x3 s3 k3 (on_c f x2 s2 k2 (on_d f x1 s1 k1 (on_a f x0 s0 k0 q))) =
   rnd f x3 s3 k3 (rnd f x2 s2 k2 (rnd f x1 s1 k1 (rnd f x0 s0 k0 q)))"
  by (cases q) (simp add: rnd_def)

lemma rfc_shift_less: "i < 64 \<Longrightarrow> rfc_shift i < 32"
proof -
  have "list_all (\<lambda>i. rfc_shift i < 32) [0..<64]" by code_simp
  then show "i < 64 \<Longrightarrow> rfc_shift i < 32" by (auto simp: list_all_iff)
qed

definition rfc_op :: "nat \<Rightarrow> round_op" where
  "rfc_op i = (if i < 16 then FF else if i < 32 then GG else if i < 48 then HH else II)"

lemma rfc_step_rnd:
  "i < 64 \<Longrightarrow> rfc_step x i q = rnd (rfc_op i) (x ! rfc_word i) (rfc_shift i) (rfc_T ! i) q"
  by (cases q) (auto simp: rnd_def rfc_op_def rfc_fun_def rotate_left rfc_shift_less FF_def GG_def HH_def II_def
      md5_F_def md5_G_def md5_H_def md5_I_def add_ac)

lemma upt_64: "[0..<64] =
  [0, 1, 2, 3, 4, 5, 6, 7, 8, 9, 10, 11, 12, 13, 14, 15, 16, 17, 18, 19, 20, 21, 22, 23, 24, 25, 26, 27, 28, 29,
   30, 31, 32, 33, 34, 35, 36, 37, 38, 39, 40, 41, 42, 43, 44, 45, 46, 47, 48, 49, 50, 51, 52, 53, 54, 55, 56, 57,
   58, 59, 60, 61, 62, 63]"
  by code_simp

lemma lines_are_rounds: "fold (\<lambda>l q. l q) (md5_lines x) q = fold (rfc_step x) [0..<64] q"
  by (simp add: md5_lines_def four_lines upt_64 rfc_step_rnd rfc_op_def rfc_word_def
      rfc_shift_def rfc_T_def)

lemma le32_sum:
  "ucast b0 OR push_bit 8 (ucast b1) OR push_bit 16 (ucast b2) OR push_bit 24 (ucast b3) =
   (ucast (b0 :: byte) + 256 * ucast (b1 :: byte) + 65536 * ucast (b2 :: byte) + 16777216 * ucast (b3 :: byte) :: w32)"
proof -
  have p: "x AND y = 0 \<Longrightarrow> x + y = x OR y" for x y :: w32
    using word_plus_and_or [of x y] by simp
  have m: "push_bit 8 (ucast b1) = (256 * ucast b1 :: w32)" "push_bit 16 (ucast b2) = (65536 * ucast b2 :: w32)"
    "push_bit 24 (ucast b3) = (16777216 * ucast b3 :: w32)"
    by (simp_all add: push_bit_eq_mult)
  have z: "ucast b0 AND push_bit 8 (ucast b1) = (0 :: w32)"
    "(ucast b0 OR push_bit 8 (ucast b1)) AND push_bit 16 (ucast b2) = (0 :: w32)"
    "((ucast b0 OR push_bit 8 (ucast b1)) OR push_bit 16 (ucast b2)) AND push_bit 24 (ucast b3) = (0 :: w32)"
    by (rule bit_word_eqI, auto simp: bit_simps dest: bit_imp_le_length)+
  show ?thesis
    unfolding m [symmetric] p [OF z(1)] p [OF z(2)] p [OF z(3)] by (simp add: or.assoc)
qed

lemma decode_words:
  "4 dvd length b \<Longrightarrow> decode_loop (pre @ b) (length pre) (length pre + length b) = Some (rfc_words b)"
proof (induction b arbitrary: pre rule: rfc_words.induct)
  case (1 a b c d r)
  have "4 dvd length r" using 1(2) by simp presburger
  then have "decode_loop (pre @ a # b # c # d # r) (length pre + 4) (length pre + length (a # b # c # d # r))
      = Some (rfc_words r)"
    using 1(1) [of "pre @ [a, b, c, d]"] by (simp add: numeral_eq_Suc)
  then show ?case
    by (subst decode_loop.simps) (simp add: rd_def nth_append le32_sum)
qed (auto simp: decode_loop.simps dest: dvd_imp_le)

lemma transform_compress: "length b = 64 \<Longrightarrow> MD5Transform q b = Some (rfc_compress q b)"
  using decode_words [of b "[]"] by (simp add: MD5Transform_def MD5Decode_def rfc_compress_def lines_are_rounds)

section \<open>The stream\<close>

lemma blocks_less [simp]: "length xs < 64 \<Longrightarrow> blocks xs = []"
  by (simp add: blocks.simps)

lemma blocks_block [simp]: "length b = 64 \<Longrightarrow> blocks (b @ xs) = b # blocks xs"
  by (subst blocks.simps) simp

lemma blocks_append: "64 dvd length xs \<Longrightarrow> blocks (xs @ ys) = blocks xs @ blocks ys"
proof (induction xs rule: blocks.induct)
  case (1 xs)
  show ?case
  proof (cases "length xs < 64")
    case True
    then have "xs = []" using 1(2) by (auto dest: dvd_imp_le)
    then show ?thesis by simp
  next
    case False
    then have "64 dvd length (drop 64 xs)" using 1(2) by (simp add: dvd_diff_nat)
    then have "blocks (drop 64 xs @ ys) = blocks (drop 64 xs) @ blocks ys" using 1(1) False by simp
    then have "blocks (take 64 xs @ (drop 64 xs @ ys)) = blocks (take 64 xs @ drop 64 xs) @ blocks ys"
      using False by (simp add: blocks_block del: append_take_drop_id append_assoc)
    then show ?thesis by (simp add: append_assoc [symmetric] del: append_assoc)
  qed
qed

definition full :: "byte list \<Rightarrow> nat" where
  "full xs = length xs - length xs mod 64"

lemma full_facts: "64 dvd full xs" "full xs \<le> length xs" "length (drop (full xs) xs) < 64"
  by (simp_all add: full_def minus_mod_eq_mult_div)

lemma blocks_full: "blocks (take (full xs) xs) = blocks xs"
  using blocks_append [of "take (full xs) xs" "drop (full xs) xs"] full_facts [of xs] by simp

text \<open>\<open>ctx_of ctx m\<close>: the context after the bytes \<open>m\<close>: the length in bits on two words, the chaining value
  of the full blocks, and the rest in the buffer.\<close>

definition ctx_of :: "md5_ctx \<Rightarrow> byte list \<Rightarrow> bool" where
  "ctx_of ctx m = (\<exists>p r. m = p @ r \<and> 64 dvd length p \<and> length r < 64 \<and>
     md_state ctx = foldl rfc_compress rfc_init (blocks p) \<and>
     length (md_buffer ctx) = 64 \<and> take (length r) (md_buffer ctx) = r \<and>
     md_count0 ctx = of_nat (8 * length m) \<and> md_count1 ctx = of_nat (8 * length m div 2 ^ 32))"

lemma ctx_of_init: "length (md_buffer c) = 64 \<Longrightarrow> ctx_of (MD5Init c) []"
  by (simp add: ctx_of_def MD5Init_def rfc_init_def)

lemma update_loop_blocks:
  assumes "length pre + length xs + 64 < 2 ^ 32"
  shows "update_loop (pre @ xs @ post) (of_nat (length pre + length xs)) (of_nat (length pre)) q =
    Some (of_nat (length pre + length xs - length xs mod 64), foldl rfc_compress q (blocks xs))"
  using assms
proof (induction xs arbitrary: pre q rule: blocks.induct)
  case (1 xs)
  let ?n = "of_nat (length pre + length xs) :: w32" and ?i = "of_nat (length pre) :: w32"
  have i64: "?i + 64 = of_nat (length pre + 64)" by simp
  have le: "?i + 64 \<le> ?n \<longleftrightarrow> 64 \<le> length xs"
    unfolding i64 word_le_nat_alt using 1(2)
    by (simp add: unat_of_nat take_bit_eq_mod del: of_nat_add)
  have u: "unat ?i = length pre" using 1(2) by (simp add: unat_of_nat take_bit_eq_mod)
  show ?case
  proof (cases "length xs < 64")
    case True
    then show ?thesis using le by (subst update_loop.simps) simp
  next
    case False
    let ?b = "take 64 xs"
    have g: "bget (pre @ xs @ post) (unat ?i) 64 = Some ?b"
      using False u by (simp add: bget_def)
    have IH: "update_loop ((pre @ ?b) @ drop 64 xs @ post) (of_nat (length (pre @ ?b) + length (drop 64 xs)))
        (of_nat (length (pre @ ?b))) (rfc_compress q ?b) =
      Some (of_nat (length (pre @ ?b) + length (drop 64 xs) - length (drop 64 xs) mod 64),
            foldl rfc_compress (rfc_compress q ?b) (blocks (drop 64 xs)))"
      using 1(2) False by (intro 1(1)) simp_all
    have app: "(pre @ ?b) @ drop 64 xs @ post = pre @ xs @ post"
      by (metis append.assoc append_take_drop_id)
    have len: "length (pre @ ?b) = length pre + 64" "length (drop 64 xs) = length xs - 64"
      "length pre + 64 + (length xs - 64) = length pre + length xs"
      "(length xs - 64) mod 64 = length xs mod 64"
      using False by (simp_all add: mod_if [of "length xs"])
    have "blocks xs = ?b # blocks (drop 64 xs)" using False by (simp add: blocks.simps [of xs])
    then show ?thesis
      using IH False le unfolding app len
      by (subst update_loop.simps) (simp add: g transform_compress)
  qed
qed

lemma unat_of_nat32: "unat (of_nat n :: w32) = n mod 2 ^ 32"
  by (simp add: unat_of_nat take_bit_eq_mod)

lemma carry_count:
  fixes A B :: nat
  assumes "B < 2 ^ 35"
  shows "(of_nat (A div 2 ^ 32) + (if (of_nat (A + B) :: w32) < of_nat B then 1 else 0) + of_nat (B div 2 ^ 32) :: w32)
    = of_nat ((A + B) div 2 ^ 32)"
proof -
  let ?M = "2 ^ 32 :: nat"
  have am: "A mod ?M < ?M" and bm: "B mod ?M < ?M" by simp_all
  have "(A + B) mod ?M = (A mod ?M + B mod ?M) mod ?M" by (simp add: mod_add_eq)
  also have "\<dots> = (if ?M \<le> A mod ?M + B mod ?M then A mod ?M + B mod ?M - ?M else A mod ?M + B mod ?M)"
  proof (cases "?M \<le> A mod ?M + B mod ?M")
    case True
    then have "A mod ?M + B mod ?M - ?M < ?M" using am bm by linarith
    then show ?thesis using True by (simp only: le_mod_geq if_True mod_less)
  next
    case False
    then have "A mod ?M + B mod ?M < ?M" by (simp only: not_le)
    then have "(A mod ?M + B mod ?M) mod ?M = A mod ?M + B mod ?M" by (rule mod_less)
    then show ?thesis using False by (simp only: if_False)
  qed
  finally have "(A + B) mod ?M =
      (if ?M \<le> A mod ?M + B mod ?M then A mod ?M + B mod ?M - ?M else A mod ?M + B mod ?M)" .
  moreover have "((if M \<le> a + b then a + b - M else a + b) < b) = (M \<le> a + b)"
    if "a < M" "b < M" for a b M :: nat
    using that by auto
  ultimately have less: "(A + B) mod ?M < B mod ?M \<longleftrightarrow> ?M \<le> A mod ?M + B mod ?M"
    using am bm by presburger
  have "(A + B) div ?M = A div ?M + B div ?M + (if ?M \<le> A mod ?M + B mod ?M then 1 else 0)"
  proof -
    have "(A mod ?M + B mod ?M) div ?M = (if ?M \<le> A mod ?M + B mod ?M then 1 else 0)"
    proof (cases "?M \<le> A mod ?M + B mod ?M")
      case True
      then have "(A mod ?M + B mod ?M) div ?M = Suc ((A mod ?M + B mod ?M - ?M) div ?M)"
        by (intro le_div_geq) simp_all
      moreover have "A mod ?M + B mod ?M - ?M < ?M" using am bm by linarith
      ultimately show ?thesis using True by simp
    next
      case False
      then have "A mod ?M + B mod ?M < ?M" by (simp only: not_le)
      then have "(A mod ?M + B mod ?M) div ?M = 0" by (rule div_less)
      then show ?thesis using False by (simp only: if_False)
    qed
    then show ?thesis using div_add1_eq [of A B ?M] by simp
  qed
  then show ?thesis
    unfolding word_less_nat_alt unat_of_nat32 less by (simp add: algebra_simps)
qed

lemma unat_index: "unat (drop_bit 3 (w :: w32) AND 0x3F) = unat w div 8 mod 64"
proof -
  have "drop_bit 3 w AND 0x3F = take_bit 6 (drop_bit 3 w)"
    by (simp only: take_bit_eq_mask) (simp add: mask_eq_exp_minus_1)
  then have "unat (drop_bit 3 w AND 0x3F) = take_bit 6 (drop_bit 3 (unat w))"
    by (simp only: unsigned_take_bit_eq unat_drop_bit_eq)
  then show ?thesis by (simp add: take_bit_eq_mod drop_bit_eq_div)
qed

lemma index_value: "unat (drop_bit 3 (of_nat (8 * n) :: w32) AND 0x3F) = n mod 64"
proof -
  have "8 * n mod 2 ^ 32 = 8 * (n mod 2 ^ 29)"
    using mult_mod_right [of 8 n "2 ^ 29"] by simp
  then have "(8 * n mod 2 ^ 32) div 8 mod 64 = n mod 2 ^ 29 mod 64"
    by (simp only: nonzero_mult_div_cancel_left)
  then show ?thesis
    unfolding unat_index unat_of_nat32 by (simp add: mod_mod_cancel)
qed

lemma update_head:
  assumes "ctx_of ctx m" "length xs + 128 < 2 ^ 32"
  shows "unat (drop_bit 3 (md_count0 ctx) AND 0x3F) = length m mod 64"
    "md_count0 ctx + push_bit 3 (of_nat (length xs)) = of_nat (8 * length (m @ xs))"
    "md_count1 ctx + (if md_count0 ctx + push_bit 3 (of_nat (length xs)) < push_bit 3 (of_nat (length xs)) then 1 else 0)
      + drop_bit 29 (of_nat (length xs)) = of_nat (8 * length (m @ xs) div 2 ^ 32)"
proof -
  obtain c: "md_count0 ctx = of_nat (8 * length m)" "md_count1 ctx = of_nat (8 * length m div 2 ^ 32)"
    using assms(1) by (auto simp: ctx_of_def)
  show "unat (drop_bit 3 (md_count0 ctx) AND 0x3F) = length m mod 64"
    unfolding c by (rule index_value)
  have p: "push_bit 3 (of_nat (length xs)) = (of_nat (8 * length xs) :: w32)"
    by (simp add: push_bit_eq_mult)
  show s: "md_count0 ctx + push_bit 3 (of_nat (length xs)) = of_nat (8 * length (m @ xs))"
    unfolding c p by (simp add: algebra_simps)
  have d: "drop_bit 29 (of_nat (length xs)) = (of_nat (8 * length xs div 2 ^ 32) :: w32)"
  proof (rule word_unat_eq_iff [THEN iffD2])
    have "8 * length xs div 2 ^ 32 = length xs div 2 ^ 29"
      using div_mult_mult1 [of 8 "length xs" "2 ^ 29"] by simp
    then show "unat (drop_bit 29 (of_nat (length xs)) :: w32) = unat (of_nat (8 * length xs div 2 ^ 32) :: w32)"
      using assms(2) unfolding unat_drop_bit_eq unat_of_nat32
      by (simp add: drop_bit_eq_div)
  qed
  show "md_count1 ctx + (if md_count0 ctx + push_bit 3 (of_nat (length xs)) < push_bit 3 (of_nat (length xs)) then 1 else 0)
      + drop_bit 29 (of_nat (length xs)) = of_nat (8 * length (m @ xs) div 2 ^ 32)"
    unfolding s unfolding c p d
    using carry_count [of "8 * length xs" "8 * length m"] assms(2) by (simp add: algebra_simps)
qed

lemma end_bounds:
  "(y :: nat) \<le> n - k \<Longrightarrow> k \<le> n \<Longrightarrow> n + 128 < 2 ^ 32 \<Longrightarrow> n - y \<le> n \<and> n - y + 64 < 2 ^ 32 \<and> k \<le> n - y"
  by auto

lemma end_split: "(y :: nat) \<le> n - k \<Longrightarrow> k \<le> n \<Longrightarrow> n - y = k + (n - k - y)"
  by simp

lemma overlay: "length b = 64 \<Longrightarrow> length r < 64 \<Longrightarrow>
    \<exists>b2. bput b 0 r = Some b2 \<and> length b2 = 64 \<and> take (length r) b2 = r"
  by (simp add: bput_def)

lemma update_ctx:
  assumes ctx: "ctx_of ctx m" and len: "length xs + 128 < 2 ^ 32"
  shows "\<exists>ctx'. MD5Update ctx (xs @ post) (of_nat (length xs)) = Some ctx' \<and> ctx_of ctx' (m @ xs)"
proof -
  let ?index = "drop_bit 3 (md_count0 ctx) AND 0x3F" and ?n = "of_nat (length xs) :: w32"
  note head = update_head [OF ctx len]
  obtain p r where m: "m = p @ r" "64 dvd length p" "length r < 64"
      "md_state ctx = foldl rfc_compress rfc_init (blocks p)"
    and buf: "length (md_buffer ctx) = 64" "take (length r) (md_buffer ctx) = r"
    using ctx by (auto simp: ctx_of_def)
  have mr: "length m mod 64 = length r" using m by (auto elim: dvdE)
  have ui: "unat ?index = length r" using head(1) mr by simp
  have idx: "?index = of_nat (length r)"
    by (rule word_unat_eq_iff [THEN iffD2]) (unfold ui unat_of_nat32, use m(3) in simp)
  let ?k = "64 - length r"
  have part: "64 - ?index = of_nat ?k" unfolding idx using m(3) by (simp add: of_nat_diff)
  have uk: "unat (of_nat ?k :: w32) = ?k" by (simp add: unat_of_nat take_bit_eq_mod)
  have un: "unat ?n = length xs" using len by (simp add: unat_of_nat take_bit_eq_mod)
  have ple: "64 - ?index \<le> ?n \<longleftrightarrow> ?k \<le> length xs"
    unfolding part word_le_nat_alt uk un ..
  show ?thesis
  proof (cases "?k \<le> length xs")
    case False
    have g: "bget (xs @ post) (unat (0 :: w32)) (unat (?n - 0)) = Some xs"
      using un by (simp add: bget_def)
    let ?tail = "drop (length r + length xs) (md_buffer ctx)"
    have "bput (md_buffer ctx) (unat ?index) xs = Some (r @ xs @ ?tail)"
      using False buf m(3) unfolding ui by (simp add: bput_def)
    then obtain b where b: "bput (md_buffer ctx) (unat ?index) xs = Some b"
      "length b = 64" "take (length r + length xs) b = r @ xs"
      using False buf(1) m(3) by simp
    have "MD5Update ctx (xs @ post) ?n = Some (ctx\<lparr>md_count0 := of_nat (8 * length (m @ xs)),
        md_count1 := of_nat (8 * length (m @ xs) div 2 ^ 32), md_buffer := b\<rparr>)"
      unfolding MD5Update_def Let_def head(3) unfolding head(2) using False ple g b(1) by simp
    moreover have "ctx_of (ctx\<lparr>md_count0 := of_nat (8 * length (m @ xs)),
        md_count1 := of_nat (8 * length (m @ xs) div 2 ^ 32), md_buffer := b\<rparr>) (m @ xs)"
      unfolding ctx_of_def
      by (rule exI [of _ p], rule exI [of _ "r @ xs"]) (use m b False in simp)
    ultimately show ?thesis by blast
  next
    case True
    let ?ys = "drop ?k xs" and ?b = "r @ take ?k xs"
    have lb: "length ?b = 64" using True m(3) by simp
    have g: "bget (xs @ post) 0 (unat (64 - ?index)) = Some (take ?k xs)"
      unfolding part uk using True by (simp add: bget_def)
    have b: "bput (md_buffer ctx) (unat ?index) (take ?k xs) = Some ?b"
      using buf True m(3) ui by (simp add: bput_def)
    let ?st = "foldl rfc_compress (rfc_compress (md_state ctx) ?b) (blocks ?ys)"
    let ?e = "length xs - length ?ys mod 64"
    have lp: "length (take ?k xs) = ?k" using True by simp
    have loop: "update_loop (xs @ post) ?n (64 - ?index) (rfc_compress (md_state ctx) ?b) = Some (of_nat ?e, ?st)"
      unfolding part
      using update_loop_blocks [of "take ?k xs" ?ys post "rfc_compress (md_state ctx) ?b"] len True lp
      by (simp add: append_assoc [symmetric] del: append_assoc)
    define e where "e = ?e"
    have "length ?ys mod 64 \<le> length xs - ?k" using mod_less_eq_dividend [of "length ?ys" 64] by simp
    then have e: "e \<le> length xs" "e + 64 < 2 ^ 32" "?k \<le> e"
      using end_bounds [of "length ?ys mod 64" "length xs" ?k] True len unfolding e_def by blast+
    have ue: "unat (of_nat e :: w32) = e" using e(2) by (simp add: unat_of_nat32)
    moreover have "of_nat e \<le> ?n" unfolding word_le_nat_alt ue un by (rule e(1))
    ultimately have un2: "unat (?n - of_nat e) = length xs - e" using un by (simp add: unat_sub)
    let ?r = "drop e xs"
    have gr: "bget (xs @ post) (unat (of_nat e :: w32)) (unat (?n - of_nat e)) = Some ?r"
      unfolding ue un2 using e by (simp add: bget_def)
    have "length ?r = length ?ys mod 64" using e(1) True by (simp add: e_def)
    then have lr64: "length ?r < 64" by simp
    obtain b2 where br: "bput ?b 0 ?r = Some b2" and b2: "length b2 = 64" "take (length ?r) b2 = ?r"
      using overlay [OF lb lr64] by blast
    let ?f = "take (full ?ys) ?ys"
    have fe: "e = ?k + full ?ys" 
      using end_split [of "length ?ys mod 64" "length xs" ?k] True mod_less_eq_dividend [of "length ?ys" 64]
      unfolding e_def full_def length_drop by blast
    have r: "?r = drop (full ?ys) ?ys" unfolding fe by (simp add: add.commute)
    let ?c = "ctx\<lparr>md_count0 := of_nat (8 * length (m @ xs)), md_count1 := of_nat (8 * length (m @ xs) div 2 ^ 32),
        md_state := ?st, md_buffer := b2\<rparr>"
    have "MD5Update ctx (xs @ post) ?n = Some ?c"
      unfolding MD5Update_def Let_def head(3) unfolding head(2) using True ple
      by (simp add: g b transform_compress [OF lb] loop [folded e_def] gr br del: of_nat_diff of_nat_add of_nat_mult)
    moreover have "ctx_of ?c (m @ xs)"
      unfolding ctx_of_def
    proof (intro exI conjI)
      show "m @ xs = (p @ ?b @ ?f) @ ?r" 
      proof -
        have "?f @ ?r = ?ys" unfolding r by (rule append_take_drop_id)
        then have "take ?k xs @ (?f @ ?r) = xs" by simp
        then show ?thesis using m(1) by simp
      qed
      have "length (p @ ?b @ ?f) = length p + (64 + full ?ys)"
        unfolding length_append [of p] length_append [of ?b] lb length_take min_absorb2 [OF full_facts(2)] ..
      then show "64 dvd length (p @ ?b @ ?f)" using m(2) full_facts(1) [of ?ys] by (simp only: dvd_add dvd_refl)
      have "blocks (p @ ?b @ ?f) = blocks p @ ?b # blocks ?ys"
        unfolding blocks_append [OF m(2)] blocks_block [OF lb] blocks_full ..
      moreover have "md_state ?c = ?st" by simp
      ultimately show "md_state ?c = foldl rfc_compress rfc_init (blocks (p @ ?b @ ?f))"
        by (simp only: foldl_append foldl_Cons m(4))
    qed (use lr64 b2 in simp_all)
    ultimately show ?thesis by blast
  qed
qed

section \<open>The whole digest\<close>

lemma bit_byte_nat: "k < 8 \<Longrightarrow> bit (of_nat n :: byte) k = bit n k"
  by transfer (simp add: bit_of_nat_iff_bit)

lemma byte_of_word: "ucast (drop_bit n (w :: w32) AND 0xFF) = (of_nat (drop_bit n (unat w)) :: byte)"
proof (rule bit_word_eqI)
  fix k assume "k < LENGTH(8)"
  then have k: "k < 8" by simp
  have "(0xFF :: w32) = mask 8" by (simp add: mask_eq_exp_minus_1)
  then have "bit (0xFF :: w32) k" using k by (simp only: bit_mask_iff) simp
  then show "bit (ucast (drop_bit n w AND 0xFF) :: byte) k = bit (of_nat (drop_bit n (unat w)) :: byte) k"
    using k by (simp add: bit_byte_nat bit_simps bit_unsigned_iff del: drop_bit_eq_div)
qed

lemma upt_4: "[0..<4] = [0, 1, 2, 3]" and upt_8: "[0..<8] = [0, 1, 2, 3, 4, 5, 6, 7]"
  by code_simp+

lemma word_bytes_le: "word_bytes w = le_bytes 4 (unat w)"
proof -
  have w: "w AND 0xFF = drop_bit 0 w AND 0xFF" by simp
  show ?thesis
    unfolding word_bytes_def le_bytes_def upt_4 by (simp only: w byte_of_word) (simp add: drop_bit_eq_div)
qed

lemma encode_words: "MD5Encode ws (4 * length ws) = Some (concat (map word_bytes ws))"
proof -
  have "encode_loop ws i (4 * i) (4 * length ws) = Some (concat (map word_bytes (drop i ws)))" if "i \<le> length ws" for i
    using that
  proof (induction "length ws - i" arbitrary: i)
    case 0
    then show ?case by (subst encode_loop.simps) simp
  next
    case (Suc n)
    then have "i < length ws" by simp
    then show ?case
      using Suc(1) [of "i + 1"] Suc(2)
      by (subst encode_loop.simps) (simp add: Cons_nth_drop_Suc [symmetric] add.commute)
  qed
  from this [of 0] show ?thesis by (simp add: MD5Encode_def)
qed

lemma byte_low:
  assumes "k < 4"
  shows "(of_nat (v mod 2 ^ 32 div 256 ^ k) :: byte) = of_nat (v div 256 ^ k)"
proof (rule bit_word_eqI)
  fix i assume "i < LENGTH(8)"
  then have i: "i < 8" by simp
  have p: "(256 :: nat) ^ k = 2 ^ (8 * k)" by (simp add: power_mult)
  show "bit (of_nat (v mod 2 ^ 32 div 256 ^ k) :: byte) i = bit (of_nat (v div 256 ^ k) :: byte) i"
    unfolding bit_byte_nat [OF i] p drop_bit_eq_div [symmetric] take_bit_eq_mod [symmetric]
    using i assms by (simp add: bit_simps)
qed

lemma le_bytes_low: "le_bytes 4 (v mod 2 ^ 32) = le_bytes 4 v"
  by (simp only: le_bytes_def) (rule map_cong [OF refl], simp only: byte_low set_upt atLeastLessThan_iff)

lemma le_bytes_8: "le_bytes 8 v = word_bytes (of_nat v) @ word_bytes (of_nat (v div 2 ^ 32))"
proof -
  have "le_bytes 8 v = le_bytes 4 v @ le_bytes 4 (v div 2 ^ 32)"
    unfolding le_bytes_def upt_4 upt_8 by (simp add: div_mult2_eq [symmetric])
  then show ?thesis
    unfolding word_bytes_le unat_of_nat32 le_bytes_low .
qed

definition pad_len :: "nat \<Rightarrow> nat" where
  "pad_len n = (if n mod 64 < 56 then 56 - n mod 64 else 120 - n mod 64)"

lemma pad_len: "1 \<le> pad_len n" "pad_len n \<le> 64" "(n + pad_len n + 8) mod 64 = 0"
    "(119 - n mod 64) mod 64 = pad_len n - 1"
proof -
  have lt: "n mod 64 < 64" by simp
  then show "1 \<le> pad_len n" "pad_len n \<le> 64" by (auto simp: pad_len_def)
  have "(n + pad_len n + 8) mod 64 = (n mod 64 + pad_len n + 8) mod 64"
    using mod_add_left_eq [of n 64 "pad_len n + 8"] by (simp only: add.assoc)
  also have "n mod 64 + pad_len n + 8 = 64 \<or> n mod 64 + pad_len n + 8 = 128"
    using lt by (auto simp: pad_len_def)
  then have "(n mod 64 + pad_len n + 8) mod 64 = 0" by auto
  finally show "(n + pad_len n + 8) mod 64 = 0" .
  show "(119 - n mod 64) mod 64 = pad_len n - 1"
  proof (cases "n mod 64 < 56")
    case True
    then have "119 - n mod 64 = (55 - n mod 64) + 64" by simp
    then have "(119 - n mod 64) mod 64 = (55 - n mod 64) mod 64" by (metis mod_add_self2)
    then show ?thesis using True by (simp add: pad_len_def)
  next
    case False
    then show ?thesis using lt by (simp add: pad_len_def)
  qed
qed

lemma rfc_pad_padding: "rfc_pad m = m @ take (pad_len (length m)) PADDING @ le_bytes 8 (8 * length m)"
proof -
  obtain k where k: "pad_len (length m) = Suc k" using pad_len(1) by (metis Suc_le_D One_nat_def)
  then have "k \<le> 63" using pad_len(2) [of "length m"] by simp
  then show ?thesis
    using k pad_len(4) [of "length m"] by (simp add: rfc_pad_def PADDING_def min_def)
qed

lemma ctx_of_full:
  assumes "ctx_of ctx m" "64 dvd length m"
  shows "md_state ctx = foldl rfc_compress rfc_init (blocks m)"
proof -
  obtain p r where p: "m = p @ r" "64 dvd length p" "length r < 64"
      "md_state ctx = foldl rfc_compress rfc_init (blocks p)"
    using assms(1) by (auto simp: ctx_of_def)
  then have "64 dvd length r" using assms(2) by (simp add: dvd_add_right_iff)
  then have "r = []" using p(3) by (auto dest: dvd_imp_le)
  then show ?thesis using p by simp
qed

lemma final_digest:
  assumes "ctx_of ctx m"
  shows "\<exists>ctx'. MD5Final ctx = Some (rfc_md5 m, ctx')"
proof -
  let ?k = "pad_len (length m)" and ?index = "drop_bit 3 (md_count0 ctx) AND 0x3F"
  have idx: "unat ?index = length m mod 64"
    using update_head(1) [OF assms, of "[]"] by simp
  have ix: "?index = of_nat (length m mod 64)"
    by (rule word_unat_eq_iff [THEN iffD2]) (unfold idx unat_of_nat32, simp)
  have less: "?index < 56 \<longleftrightarrow> length m mod 64 < 56"
    by (simp only: word_less_nat_alt idx) simp
  have pad: "(if ?index < 56 then 56 - ?index else 120 - ?index) = of_nat ?k"
    unfolding less unfolding ix pad_len_def by (simp add: of_nat_diff)
  have lp: "length (take ?k PADDING) = ?k" using pad_len(2) by (simp add: PADDING_def)
  let ?bits = "le_bytes 8 (8 * length m)"
  have lb: "length ?bits = 8" by (simp add: le_bytes_def)
  have c: "md_count0 ctx = of_nat (8 * length m)" "md_count1 ctx = of_nat (8 * length m div 2 ^ 32)"
    using assms by (auto simp: ctx_of_def)
  have bits: "MD5Encode [md_count0 ctx, md_count1 ctx] 8 = Some ?bits"
    using encode_words [of "[md_count0 ctx, md_count1 ctx]"] unfolding c le_bytes_8 by simp
  obtain c1 where c1: "MD5Update ctx PADDING (of_nat ?k) = Some c1" "ctx_of c1 (m @ take ?k PADDING)"
  proof -
    have "length (take ?k PADDING) + 128 < 2 ^ 32" unfolding lp using pad_len(2) [of "length m"] by simp
    from update_ctx [OF assms this, of "drop ?k PADDING"] show ?thesis
      using that unfolding lp append_take_drop_id by blast
  qed
  obtain c2 where c2: "MD5Update c1 ?bits 8 = Some c2" "ctx_of c2 (rfc_pad m)"
    using update_ctx [OF c1(2), of ?bits "[]"] lb by (auto simp: rfc_pad_padding)
  have "length (rfc_pad m) = length m + ?k + 8"
    unfolding rfc_pad_padding length_append [of m] length_append [of "take ?k PADDING"] lp lb by (simp only: add.assoc)
  then have "64 dvd length (rfc_pad m)"
    unfolding dvd_eq_mod_eq_0 by (simp only: pad_len(3))
  note st = ctx_of_full [OF c2(2) this]
  have "length (quad_list q) = 4" for q by (cases q) simp
  then have "MD5Encode (quad_list (md_state c2)) 16 = Some (rfc_md5 m)"
    using encode_words [of "quad_list (md_state c2)"]
    by (simp add: rfc_md5_def st word_bytes_le [abs_def])
  then show ?thesis
    unfolding MD5Final_def Let_def bits Option.bind.bind_lunit pad c1(1) by (simp add: c2(1))
qed

text \<open>C1: The digest of the code is the digest of RFC 1321: for every message, passed to \<open>MD5Update\<close> in two
  pieces of any size below the range of its counters, nothing outside of the blocks is touched, the
  loops end, and \<open>MD5Final\<close> gives the digest of the whole message.\<close>

theorem md5_is_rfc1321:
  assumes "length (md_buffer c) = 64" "length a + 128 < 2 ^ 32" "length b + 128 < 2 ^ 32"
  shows "\<exists>c1 c2 c3. MD5Update (MD5Init c) (a @ r) (of_nat (length a)) = Some c1 \<and>
    MD5Update c1 (b @ s) (of_nat (length b)) = Some c2 \<and> MD5Final c2 = Some (rfc_md5 (a @ b), c3)"
proof -
  obtain c1 where c1: "MD5Update (MD5Init c) (a @ r) (of_nat (length a)) = Some c1" "ctx_of c1 a"
    using update_ctx [OF ctx_of_init [OF assms(1)] assms(2), of r] by auto
  obtain c2 where c2: "MD5Update c1 (b @ s) (of_nat (length b)) = Some c2" "ctx_of c2 (a @ b)"
    using update_ctx [OF c1(2) assms(3), of s] by auto
  from c1(1) c2(1) final_digest [OF c2(2)] show ?thesis by blast
qed

lemma md5_is_rfc1321_witness:
  "\<exists>c1 c2 c3. MD5Update (MD5Init \<lparr>md_count0 = 0, md_count1 = 0, md_state = rfc_init, md_buffer = replicate 64 0\<rparr>)
      ([0x61] @ []) (of_nat (length [0x61 :: byte])) = Some c1 \<and>
    MD5Update c1 ([0x62, 0x63] @ []) (of_nat (length [0x62, 0x63 :: byte])) = Some c2 \<and>
    MD5Final c2 = Some (rfc_md5 ([0x61] @ [0x62, 0x63]), c3)"
  by (rule md5_is_rfc1321) simp_all

end
