(* ===== verification/Utf8.thy ===== *)
theory Utf8
  imports Halo_Prelude
begin

text \<open>
  Text of the devices: \<open>app/halo_utf8.c\<close>. Cutting and counting UTF-8 text, the form encoding of
  the HTTP requests, and the reading of Chinese numerals. Strings are blocks of memory with
  their terminator; a pointer into a block is an offset.
\<close>

section \<open>Cutting and counting\<close>

lemma byte_less: "unat (c :: byte) < 256"
proof -
  have "unat c < 2 ^ LENGTH(8)" by (rule unsigned_less)
  then show ?thesis by simp
qed

lemma high_bit: "(c :: byte) AND 0x80 \<noteq> 0 \<longleftrightarrow> 128 \<le> unat c"
proof -
  have "c AND 0x80 \<noteq> 0 \<longleftrightarrow> bit c 7"
    using bit_iff_and_push_bit_not_eq_0 [of c 7] by simp
  also have "\<dots> \<longleftrightarrow> bit (unat c) 7" by (simp add: bit_unsigned_iff)
  also have "\<dots> \<longleftrightarrow> odd (unat c div 128)" by (simp add: bit_iff_odd)
  also have "unat c div 128 = (if 128 \<le> unat c then 1 else 0)"
    using byte_less [of c] by (auto intro: div_nat_eqI)
  finally show ?thesis by simp
qed

lemma shift_less: "tmp AND 0x80 \<noteq> 0 \<Longrightarrow> unat (push_bit 1 tmp) < unat (tmp :: byte)"
proof -
  assume "tmp AND 0x80 \<noteq> 0"
  then have "128 \<le> unat tmp" "unat tmp < 256" using byte_less [of tmp] by (simp_all add: high_bit)
  moreover have "unat (push_bit 1 tmp) = 2 * unat tmp mod 256"
    by (simp add: push_bit_eq_mult unat_word_ariths mult.commute)
  moreover have "2 * u mod 256 < u" if "128 \<le> u" "u < 256" for u :: nat
  proof -
    have "2 * u mod 256 = (2 * u - 256) mod 256" using that by (simp add: le_mod_geq)
    also have "\<dots> = 2 * u - 256" using that by simp
    finally show ?thesis using that by linarith
  qed
  ultimately show ?thesis by presburger
qed

text \<open>The loop \<open>while(tmp & 0x80) { ++num; tmp <<= 1; }\<close>.\<close>

function lead_loop :: "byte \<Rightarrow> nat \<Rightarrow> nat" where
  "lead_loop tmp num = (if tmp AND 0x80 \<noteq> 0 then lead_loop (push_bit 1 tmp) (num + 1) else num)"
  by pat_completeness auto

termination by (relation "measure (\<lambda>(t, _). unat t)") (auto dest: shift_less)

declare lead_loop.simps [simp del]

lemma lead_loop_ge: "num \<le> lead_loop tmp num"
  by (induction tmp num rule: lead_loop.induct) (subst lead_loop.simps, auto)

definition lead_bits :: "byte \<Rightarrow> nat" where
  "lead_bits c = lead_loop c 0"

lemma lead_bits_pos: "c AND 0x80 \<noteq> 0 \<Longrightarrow> 1 \<le> lead_bits c"
  using lead_loop_ge [of 1 "push_bit 1 c"] by (simp add: lead_bits_def lead_loop.simps [of c])

text \<open>The distance to the next character.\<close>

definition u8_step :: "byte \<Rightarrow> nat" where
  "u8_step c = (if c AND 0x80 \<noteq> 0 then lead_bits c else 1)"

lemma u8_step_pos: "1 \<le> u8_step c"
  using lead_bits_pos [of c] by (simp add: u8_step_def)

function strlen_loop :: "cbuf \<Rightarrow> nat \<Rightarrow> nat \<Rightarrow> nat option" where
  "strlen_loop str ptr len =
     (if ptr < length str
      then (if str ! ptr = 0 then Some len else strlen_loop str (ptr + u8_step (str ! ptr)) (len + 1))
      else None)"
  by pat_completeness auto

termination
proof (relation "measure (\<lambda>(str, ptr, _). length str - ptr)")
  fix str :: cbuf and ptr len :: nat
  assume "ptr < length str"
  then show "((str, ptr + u8_step (str ! ptr), len + 1), str, ptr, len)
      \<in> measure (\<lambda>(str, ptr, _). length str - ptr)"
    using u8_step_pos [of "str ! ptr"] by simp
qed simp

declare strlen_loop.simps [simp del]

definition utf8_strlen :: "cbuf \<Rightarrow> nat option" where
  "utf8_strlen str = strlen_loop str 0 0"

function cut_loop :: "cbuf \<Rightarrow> nat \<Rightarrow> int \<Rightarrow> cbuf option" where
  "cut_loop str ptr len =
     (if ptr < length str
      then (if str ! ptr = 0 then Some str
            else if str ! ptr AND 0x80 \<noteq> 0
            then (let p = ptr + lead_bits (str ! ptr) in
                  if int p \<ge> len then wr str (p - lead_bits (str ! ptr)) 0 else cut_loop str p len)
            else (let p = ptr + 1 in
                  if int p \<ge> len
                  then (if p < length str then cut_loop (str[p := 0]) p len else None)
                  else cut_loop str p len))
      else None)"
  by pat_completeness auto

termination
  by (relation "measure (\<lambda>(str, ptr, _). length str - ptr)")
    (auto dest: lead_bits_pos intro: diff_less_mono2)

declare cut_loop.simps [simp del]

text \<open>The comparison \<open>strlen(str) < len\<close> is one of unsigned numbers.\<close>

definition utf8_cut_string :: "cbuf \<Rightarrow> int \<Rightarrow> (int \<times> cbuf) option" where
  "utf8_cut_string str len =
     do { s \<leftarrow> cstr str;
          if length s < nat (len mod 2 ^ 32) then Some (0, str)
          else do { str1 \<leftarrow> cut_loop str 0 len; Some (0, str1) } }"

section \<open>Form encoding\<close>

definition num_to_hex :: "byte \<Rightarrow> byte" where
  "num_to_hex n = (let num = n AND 0x0f in if num \<ge> 10 then 0x41 + num - 10 else 0x30 + num)"

definition www_plain :: "byte \<Rightarrow> bool" where
  "www_plain c = (c \<le> 0x7a \<and> c \<ge> 0x61 \<or> c \<le> 0x5a \<and> c \<ge> 0x41 \<or> c \<le> 0x39 \<and> c \<ge> 0x30
     \<or> c = 0x2e \<or> c = 0x2d \<or> c = 0x5f)"

text \<open>The characters that stand for one byte, written one at a time, each behind a check of the room.\<close>

definition www_char :: "byte \<Rightarrow> byte list" where
  "www_char c = (if www_plain c then [c] else if c = 0x20 then [0x2b]
     else [0x25, num_to_hex (drop_bit 4 c), num_to_hex c])"

fun www_put :: "cbuf \<Rightarrow> nat \<Rightarrow> int \<Rightarrow> byte list \<Rightarrow> (bool \<times> cbuf \<times> nat) option" where
  "www_put des ptr len [] = Some (True, des, ptr)"
| "www_put des ptr len (c # cs) =
     do { d \<leftarrow> wr des ptr c;
          if int (ptr + 1) \<ge> len then Some (False, d, ptr + 1) else www_put d (ptr + 1) len cs }"

fun www_loop :: "cbuf \<Rightarrow> nat \<Rightarrow> int \<Rightarrow> byte list \<Rightarrow> (bool \<times> cbuf \<times> nat) option" where
  "www_loop des ptr len [] = Some (True, des, ptr)"
| "www_loop des ptr len (c # s) =
     do { (ok, d, p) \<leftarrow> www_put des ptr len (www_char c);
          if ok then www_loop d p len s else Some (False, d, p) }"

definition add_x_www_couple :: "cbuf \<Rightarrow> cbuf \<Rightarrow> cbuf \<Rightarrow> int \<Rightarrow> (int \<times> cbuf) option" where
  "add_x_www_couple des key body len =
     do { k \<leftarrow> cstr key;
          b \<leftarrow> cstr body;
          if k = [] \<or> b = [] \<or> len \<le> 0 then Some (-1, des)
          else do {
            s \<leftarrow> cstr des;
            let ori = length s;
            d0 \<leftarrow> (if ori \<noteq> 0 then wr des ori 0x26 else Some des);
            let ptr = (if ori \<noteq> 0 then ori + 1 else ori);
            (ok1, d1, p1) \<leftarrow> www_loop d0 ptr len k;
            (ok2, d2, p2) \<leftarrow> (if ok1 then www_put d1 p1 len [0x3d] else Some (False, d1, p1));
            (ok3, d3, p3) \<leftarrow> (if ok2 then www_loop d2 p2 len b else Some (False, d2, p2));
            if ok3 then Some (0, d3)
            else if int ori \<le> len then do { d4 \<leftarrow> bset d3 ori (nat len - ori) 0; Some (-1, d4) }
            else None } }"

definition sizeof_x_www_format :: "cbuf \<Rightarrow> nat option" where
  "sizeof_x_www_format str =
     do { s \<leftarrow> cstr str;
          Some (foldl (\<lambda>len c. if c = 0x20 \<or> www_plain c then len + 1 else len + 3) 0 s + 1) }"

section \<open>Chinese numerals\<close>

text \<open>\<open>memcmp\<close> stops at the first difference, which is at the terminator at the latest, so a comparison
  behind the end of the text is not counted as an access outside of its block.\<close>

definition pattern :: "byte list list" where
  "pattern =
    [[0xE9, 0x9B, 0xB6], [0xE4, 0xB8, 0x80], [0xE4, 0xBA, 0x8C],
     [0xE4, 0xB8, 0x89], [0xE5, 0x9B, 0x9B], [0xE4, 0xBA, 0x94],
     [0xE5, 0x85, 0xAD], [0xE4, 0xB8, 0x83], [0xE5, 0x85, 0xAB],
     [0xE4, 0xB9, 0x9D], [0xE5, 0x8D, 0x81], [0xE7, 0x99, 0xBE]]"

text \<open>\<open>_get_num_\<close>: the number and the length of the numeral at the start of a text.\<close>

fun find_num :: "byte list list \<Rightarrow> nat \<Rightarrow> byte list \<Rightarrow> (nat \<times> nat) option" where
  "find_num [] i s = None"
| "find_num (p # ps) i s = (if starts_with p s then Some (i, length p) else find_num ps (i + 1) s)"

definition get_num :: "byte list \<Rightarrow> (nat \<times> nat) option" where
  "get_num s = find_num pattern 0 s"

lemma find_num_pos: "find_num ps i s = Some (j, n) \<Longrightarrow> [] \<notin> set ps \<Longrightarrow> 0 < n \<and> n \<le> length s"
proof (induction ps arbitrary: i)
  case (Cons p ps)
  then show ?case by (auto split: if_splits simp: starts_with_conv)
qed simp

lemma get_num_pos: "get_num s = Some (i, n) \<Longrightarrow> 0 < n \<and> n \<le> length s"
proof -
  have "[] \<notin> set pattern" by (simp add: pattern_def)
  then show "get_num s = Some (i, n) \<Longrightarrow> 0 < n \<and> n \<le> length s"
    unfolding get_num_def using find_num_pos by blast
qed

text \<open>The first numeral of a text.\<close>

fun first_num :: "byte list list \<Rightarrow> byte list \<Rightarrow> nat option \<Rightarrow> nat option" where
  "first_num [] s out = out"
| "first_num (p # ps) s out =
     first_num ps s (case find_sub p s of
         None \<Rightarrow> out
       | Some t \<Rightarrow> (case out of None \<Rightarrow> Some t | Some k \<Rightarrow> Some (if k < t then k else t)))"

text \<open>The loop that runs over numerals: how many bytes they take.\<close>

function num_span :: "byte list \<Rightarrow> nat" where
  "num_span s = (case s of [] \<Rightarrow> 0 | _ # _ \<Rightarrow>
     (case get_num s of None \<Rightarrow> 0 | Some (_, n) \<Rightarrow> n + num_span (drop n s)))"
  by pat_completeness auto

termination
  by (relation "measure length") (auto dest!: get_num_pos simp: Suc_le_eq)

declare num_span.simps [simp del]

definition cut_num :: "byte list \<Rightarrow> bool \<Rightarrow> byte list option" where
  "cut_num s forcebegin =
     (case (if forcebegin then Some 0 else first_num pattern s None) of
        None \<Rightarrow> None
      | Some k \<Rightarrow> (let n = num_span (drop k s) in if n = 0 then None else Some (take n (drop k s))))"

text \<open>\<open>_revert_\<close> does not end on a text with anything but numerals: it then advances by nothing.\<close>

partial_function (option) revert :: "byte list \<Rightarrow> byte list \<Rightarrow> byte list option" where
  "revert tmp r = (if tmp = [] then Some r
     else (case get_num tmp of
         None \<Rightarrow> revert tmp r
       | Some (_, n) \<Rightarrow> revert (drop n tmp) (take n tmp @ r)))"

definition str_befor_ch_num :: "byte list \<Rightarrow> byte list option" where
  "str_befor_ch_num s =
     (if s = [] then None
      else (case cut_num s False of
          None \<Rightarrow> Some s
        | Some n \<Rightarrow> map_option (\<lambda>k. take k s) (find_sub n s)))"

text \<open>The two loops of \<open>chinese_num\<close>.\<close>

function ten_loop :: "byte list \<Rightarrow> nat \<Rightarrow> int \<Rightarrow> (nat \<times> int) option" where
  "ten_loop s b ret =
     (if s = [] then Some (b, ret)
      else (case get_num s of
          None \<Rightarrow> None
        | Some (i, n) \<Rightarrow>
            (let (b1, v) =
               (if b = 0 then (if i < 10 then (0, ret + int i) else (i - 9, ret))
                else if b = 1 then (if i < 10 then (0, ret + int i * 10) else (i - 9, ret + 10))
                else if b = 2 then (if i < 10 then (0, ret + int i * 100) else (i - 9, ret + 100))
                else (b, ret))
             in Option.bind (int32 v) (\<lambda>v. ten_loop (drop n s) b1 v))))"
  by pat_completeness auto

termination
  by (relation "measure (\<lambda>(s, _). length s)") (auto dest!: get_num_pos simp: Suc_le_eq)

declare ten_loop.simps [simp del]

function digit_loop :: "byte list \<Rightarrow> int \<Rightarrow> int option" where
  "digit_loop s ret =
     (if s = [] then Some ret
      else (case get_num s of
          None \<Rightarrow> None
        | Some (i, n) \<Rightarrow>
            Option.bind (int32 (ret * 10 + int i)) (\<lambda>v. digit_loop (drop n s) v)))"
  by pat_completeness auto

termination
  by (relation "measure (\<lambda>(s, _). length s)") (auto dest!: get_num_pos simp: Suc_le_eq)

declare digit_loop.simps [simp del]

definition chinese_num :: "byte list \<Rightarrow> bool \<Rightarrow> int option" where
  "chinese_num s forcebegin =
     (if s = [] then Some (-1)
      else (case cut_num s forcebegin of
          None \<Rightarrow> Some (-1)
        | Some t \<Rightarrow>
            (if find_sub (pattern ! 10) t \<noteq> None \<or> find_sub (pattern ! 11) t \<noteq> None
             then do { r \<leftarrow> revert t [];
                       (b, ret) \<leftarrow> ten_loop r 0 0;
                       int32 (if b = 1 then ret + 10 else if b = 2 then ret + 100 else ret) }
             else digit_loop t 0)))"

section \<open>Properties of the UTF-8 functions\<close>

text \<open>A character: an ASCII byte, or a lead byte with its continuation bytes. The encoding of the code
  points gives such characters.\<close>

definition u8_char :: "byte list \<Rightarrow> bool" where
  "u8_char ch = (ch \<noteq> [] \<and> 0 \<notin> set ch \<and> length ch = u8_step (ch ! 0))"

definition u8_enc :: "nat \<Rightarrow> byte list" where
  "u8_enc n =
     (if n < 0x80 then [of_nat n]
      else if n < 0x800 then [of_nat (0xC0 + n div 64), of_nat (0x80 + n mod 64)]
      else if n < 0x10000
      then [of_nat (0xE0 + n div 4096), of_nat (0x80 + n div 64 mod 64), of_nat (0x80 + n mod 64)]
      else [of_nat (0xF0 + n div 262144), of_nat (0x80 + n div 4096 mod 64), of_nat (0x80 + n div 64 mod 64),
            of_nat (0x80 + n mod 64)])"

lemma lead_bits_values:
  "\<forall>k < 32. lead_bits (of_nat (0xC0 + k)) = 2" "\<forall>k < 16. lead_bits (of_nat (0xE0 + k)) = 3"
  "\<forall>k < 8. lead_bits (of_nat (0xF0 + k)) = 4"
proof -
  have "list_all (\<lambda>k. lead_bits (of_nat (0xC0 + k)) = 2) [0..<32]"
    "list_all (\<lambda>k. lead_bits (of_nat (0xE0 + k)) = 3) [0..<16]"
    "list_all (\<lambda>k. lead_bits (of_nat (0xF0 + k)) = 4) [0..<8]"
    by code_simp+
  then show "\<forall>k < 32. lead_bits (of_nat (0xC0 + k)) = 2" "\<forall>k < 16. lead_bits (of_nat (0xE0 + k)) = 3"
    "\<forall>k < 8. lead_bits (of_nat (0xF0 + k)) = 4"
    by (simp_all add: list_all_iff)
qed

lemma byte_high: "128 \<le> n \<Longrightarrow> n < 256 \<Longrightarrow> (of_nat n :: byte) AND 0x80 \<noteq> 0 \<and> (of_nat n :: byte) \<noteq> 0"
  by (subst high_bit) (auto simp: unat_of_nat take_bit_eq_mod word_of_nat_eq_0_iff dest: dvd_imp_le)

lemma u8_enc_char:
  assumes "0 < n" "n < 0x200000"
  shows "u8_char (u8_enc n)"
proof -
  consider "n < 0x80" | "0x80 \<le> n" "n < 0x800" | "0x800 \<le> n" "n < 0x10000" | "0x10000 \<le> n"
    by linarith
  then show ?thesis
  proof cases
    case 1
    then have "\<not> 128 \<le> unat (of_nat n :: byte)" by (simp add: unat_of_nat take_bit_eq_mod)
    then have "(of_nat n :: byte) AND 0x80 = 0" using high_bit [of "of_nat n"] by blast
    moreover have "(of_nat n :: byte) \<noteq> 0"
      using assms(1) 1 by (auto simp: word_of_nat_eq_0_iff dest: dvd_imp_le)
    ultimately show ?thesis using 1 by (simp add: u8_char_def u8_enc_def u8_step_def)
  next
    case 2
    then have d: "n div 64 < 32" by simp
    then show ?thesis
      using 2 lead_bits_values(1) byte_high [of "0xC0 + n div 64"] byte_high [of "0x80 + n mod 64"]
      by (simp add: u8_char_def u8_enc_def u8_step_def)
  next
    case 3
    then have d: "n div 4096 < 16" by simp
    then show ?thesis
      using 3 lead_bits_values(2) byte_high [of "0xE0 + n div 4096"] byte_high [of "0x80 + n div 64 mod 64"]
        byte_high [of "0x80 + n mod 64"]
      by (simp add: u8_char_def u8_enc_def u8_step_def)
  next
    case 4
    then have d: "n div 262144 < 8" using assms(2) by simp
    then show ?thesis
      using 4 lead_bits_values(3) byte_high [of "0xF0 + n div 262144"] byte_high [of "0x80 + n div 4096 mod 64"]
        byte_high [of "0x80 + n div 64 mod 64"] byte_high [of "0x80 + n mod 64"]
      by (simp add: u8_char_def u8_enc_def u8_step_def)
  qed
qed

lemma u8_char_nonempty: "u8_char ch \<Longrightarrow> \<exists>c r. ch = c # r \<and> c \<noteq> 0 \<and> u8_step c = Suc (length r)"
  by (cases ch) (auto simp: u8_char_def)

lemma strlen_skip:
  "\<forall>ch \<in> set cs. u8_char ch \<Longrightarrow>
   strlen_loop (pre @ concat cs @ tail) (length pre) n =
   strlen_loop (pre @ concat cs @ tail) (length pre + length (concat cs)) (n + length cs)"
proof (induction cs arbitrary: pre n)
  case (Cons ch cs)
  then have "u8_char ch" by simp
  then obtain c r where c: "ch = c # r" "c \<noteq> 0" "u8_step c = Suc (length r)"
    using u8_char_nonempty by blast
  have "strlen_loop ((pre @ ch) @ concat cs @ tail) (length (pre @ ch)) (n + 1) =
      strlen_loop ((pre @ ch) @ concat cs @ tail) (length (pre @ ch) + length (concat cs)) (n + 1 + length cs)"
    using Cons by (intro Cons.IH) simp
  then show ?case
    using c by (subst strlen_loop.simps) (simp add: nth_append add.assoc)
qed simp

text \<open>\<open>utf8_strlen\<close> counts characters: the text of any code points, in the encoding of the standard,
  is measured by their number, without a read behind its terminator.\<close>

theorem utf8_strlen_counts:
  assumes "\<forall>n \<in> set ns. 0 < n \<and> n < 0x110000"
  shows "utf8_strlen (concat (map u8_enc ns) @ 0 # post) = Some (length ns)"
proof -
  have "\<forall>ch \<in> set (map u8_enc ns). u8_char ch" using assms by (auto intro!: u8_enc_char)
  from strlen_skip [OF this, of "[]" "0 # post" 0] show ?thesis
    by (simp add: utf8_strlen_def) (simp add: strlen_loop.simps nth_append)
qed

text \<open>A character that was cut off makes \<open>utf8_strlen\<close> step over the terminator: a text that ends in
  the lead byte of a longer character is read behind its block.\<close>

theorem utf8_strlen_truncated:
  assumes "\<forall>n \<in> set ns. 0 < n \<and> n < 0x110000" "0x80 \<le> m" "m < 0x110000"
  shows "utf8_strlen (concat (map u8_enc ns) @ take 1 (u8_enc m) @ [0]) = None"
proof -
  have u: "\<forall>ch \<in> set (map u8_enc ns). u8_char ch" using assms(1) by (auto intro!: u8_enc_char)
  have "u8_char (u8_enc m)" using assms by (intro u8_enc_char) simp_all
  moreover have "2 \<le> length (u8_enc m)" using assms(2) by (simp add: u8_enc_def)
  ultimately obtain c r where c: "u8_enc m = c # r" "c \<noteq> 0" "2 \<le> u8_step c"
    using u8_char_nonempty by force
  have "strlen_loop (concat (map u8_enc ns) @ [c, 0]) (length (concat (map u8_enc ns)) + u8_step c) k = None" for k
    using c(3) by (subst strlen_loop.simps) simp
  then have "strlen_loop (concat (map u8_enc ns) @ [c, 0]) (length (concat (map u8_enc ns))) (length ns) = None"
    using c(2) by (subst strlen_loop.simps) (simp add: nth_append)
  then show ?thesis
    using strlen_skip [OF u, of "[]" "[c, 0]" 0] by (simp add: utf8_strlen_def c(1))
qed

subsection \<open>Cutting\<close>

lemma cut_chars:
  assumes "\<forall>ch \<in> set cs. u8_char ch" "length pre < nat len"
  shows "\<exists>k \<le> length cs. \<exists>post'. cut_loop (pre @ concat cs @ 0 # post) (length pre) len
      = Some (pre @ concat (take k cs) @ 0 # post') \<and>
    int (length pre + length (concat (take k cs))) \<le> len \<and>
    (k < length cs \<longrightarrow> len \<le> int (length pre + length (concat (take (Suc k) cs))))"
  using assms
proof (induction cs arbitrary: pre)
  case Nil
  then show ?case by (simp add: cut_loop.simps)
next
  case (Cons ch cs)
  then have "u8_char ch" by simp
  then obtain c r where c: "ch = c # r" "c \<noteq> 0" "u8_step c = Suc (length r)"
    using u8_char_nonempty by blast
  let ?str = "pre @ concat (ch # cs) @ 0 # post"
  have lt: "length pre < length ?str" "?str ! length pre = c" using c by simp_all
  show ?case
  proof (cases "int (length pre + length ch) < len")
    case True
    obtain k post' where k: "k \<le> length cs" "cut_loop ((pre @ ch) @ concat cs @ 0 # post) (length (pre @ ch)) len
        = Some ((pre @ ch) @ concat (take k cs) @ 0 # post')"
      "int (length (pre @ ch) + length (concat (take k cs))) \<le> len"
      "k < length cs \<longrightarrow> len \<le> int (length (pre @ ch) + length (concat (take (Suc k) cs)))"
    proof -
      have "length (pre @ ch) < nat len" using True by (simp add: zless_nat_eq_int_zless)
      moreover have "\<forall>ch \<in> set cs. u8_char ch" using Cons.prems(1) by simp
      ultimately show ?thesis using Cons.IH [of "pre @ ch"] that by blast
    qed
    have "cut_loop ?str (length pre) len = Some (pre @ concat (take (Suc k) (ch # cs)) @ 0 # post')"
      using k(2) True c lt by (subst cut_loop.simps) (auto simp: u8_step_def Let_def split: if_splits)
    then show ?thesis using k(1,3,4) by (intro exI [of _ "Suc k"]) auto
  next
    case False
    then have ge: "len \<le> int (length pre + length ch)" by simp
    show ?thesis
    proof (cases "c AND 0x80 \<noteq> 0")
      case True
      then have "lead_bits c = length ch" using c by (simp add: u8_step_def)
      then have "cut_loop ?str (length pre) len = Some (pre @ 0 # r @ concat cs @ 0 # post)"
        using True ge c lt by (subst cut_loop.simps) (simp add: Let_def wr_def)
      then show ?thesis using Cons.prems(2) ge by (intro exI [of _ 0]) auto
    next
      case False
      then have r: "r = []" using c(3) by (simp add: u8_step_def)
      let ?s = "?str[length pre + 1 := 0]"
      obtain y ys where y: "concat cs @ 0 # post = y # ys" by (cases "concat cs @ 0 # post") auto
      have s: "?s = pre @ ch @ 0 # ys" using c r y by (simp add: list_update_append)
      have "cut_loop ?s (length pre + 1) len = Some ?s"
        unfolding s using c r by (subst cut_loop.simps) (simp add: nth_append)
      then have "cut_loop ?str (length pre) len = Some (pre @ concat (take 1 (ch # cs)) @ 0 # ys)"
        using False ge c r lt s by (subst cut_loop.simps) (simp add: Let_def)
      moreover have "int (length pre + length ch) \<le> len" using Cons.prems(2) c r by simp
      ultimately show ?thesis using ge by (intro exI [of _ 1]) auto
    qed
  qed
qed

text \<open>\<open>utf8_cut_string\<close> keeps whole characters: a longer text of code points is cut to a prefix of its
  characters with at most \<open>len\<close> bytes, and with the next character it would have \<open>len\<close> bytes or more.\<close>

theorem utf8_cut_whole:
  assumes "\<forall>n \<in> set ns. 0 < n \<and> n < 0x110000" "0 < len" "len < 2 ^ 31"
    and "nat len \<le> length (concat (map u8_enc ns))"
  shows "\<exists>k \<le> length ns. \<exists>str. utf8_cut_string (concat (map u8_enc ns) @ 0 # post) len = Some (0, str) \<and>
    cstr str = Some (concat (map u8_enc (take k ns))) \<and>
    length (concat (map u8_enc (take k ns))) \<le> nat len \<and>
    (k < length ns \<longrightarrow> nat len \<le> length (concat (map u8_enc (take (Suc k) ns))))"
proof -
  have u: "\<forall>ch \<in> set (map u8_enc ns). u8_char ch" using assms(1) by (auto intro!: u8_enc_char)
  then have z: "0 \<notin> set (concat (map u8_enc ms))" if "set ms \<subseteq> set ns" for ms
    using that by (auto simp: u8_char_def)
  obtain k post' where k: "k \<le> length ns"
    "cut_loop (concat (map u8_enc ns) @ 0 # post) 0 len = Some (concat (take k (map u8_enc ns)) @ 0 # post')"
    "int (length (concat (take k (map u8_enc ns)))) \<le> len"
    "k < length ns \<longrightarrow> len \<le> int (length (concat (take (Suc k) (map u8_enc ns))))"
    using cut_chars [OF u, of "[]" len post] assms(2) by auto
  have "cstr (concat (map u8_enc ns) @ 0 # post) = Some (concat (map u8_enc ns))"
    by (rule cstr_append [OF z]) simp
  then have "utf8_cut_string (concat (map u8_enc ns) @ 0 # post) len
      = Some (0, concat (map u8_enc (take k ns)) @ 0 # post')"
    using assms(2-4) k(2) by (simp add: utf8_cut_string_def take_map)
  moreover have "cstr (concat (map u8_enc (take k ns)) @ 0 # post') = Some (concat (map u8_enc (take k ns)))"
    by (rule cstr_append [OF z]) (rule set_take_subset)
  ultimately show ?thesis
    using k(1,3,4) assms(2) by (intro exI [of _ k]) (simp add: take_map le_nat_iff nat_le_iff)
qed

subsection \<open>Form encoding\<close>

definition www_enc :: "byte list \<Rightarrow> byte list" where
  "www_enc s = concat (map www_char s)"

lemma www_put_fits:
  "int (length pre + length cs) < len \<Longrightarrow> length cs \<le> length rest \<Longrightarrow>
   www_put (pre @ rest) (length pre) len cs = Some (True, pre @ cs @ drop (length cs) rest, length pre + length cs)"
proof (induction cs arbitrary: pre rest)
  case (Cons c cs)
  then obtain x rest' where rest: "rest = x # rest'" by (cases rest) auto
  have "www_put ((pre @ [c]) @ rest') (length (pre @ [c])) len cs
      = Some (True, (pre @ [c]) @ cs @ drop (length cs) rest', length (pre @ [c]) + length cs)"
    using Cons.prems rest by (intro Cons.IH) auto
  then show ?case using Cons.prems rest by (simp add: wr_def list_update_append)
qed simp

lemma www_put_full:
  "int (length pre) < len \<Longrightarrow> len \<le> int (length pre + length cs) \<Longrightarrow> nat len \<le> length pre + length rest \<Longrightarrow>
   \<exists>d p. www_put (pre @ rest) (length pre) len cs = Some (False, d, p) \<and> length d = length pre + length rest \<and>
     take (length pre) d = pre \<and> drop (nat len) d = drop (nat len) (pre @ rest)"
proof (induction cs arbitrary: pre rest)
  case (Cons c cs)
  then obtain x rest' where rest: "rest = x # rest'" by (cases rest) auto
  have w: "wr (pre @ rest) (length pre) c = Some ((pre @ [c]) @ rest')"
    by (simp add: rest wr_def list_update_append)
  show ?case
  proof (cases "len \<le> int (length pre + 1)")
    case True
    then have "nat len = length pre + 1" using Cons.prems(1) by linarith
    then show ?thesis using True w rest by simp
  next
    case False
    then have "\<exists>d p. www_put ((pre @ [c]) @ rest') (length (pre @ [c])) len cs = Some (False, d, p) \<and>
        length d = length (pre @ [c]) + length rest' \<and> take (length (pre @ [c])) d = pre @ [c] \<and>
        drop (nat len) d = drop (nat len) ((pre @ [c]) @ rest')"
      using Cons.prems rest by (intro Cons.IH) auto
    then obtain d p where d: "www_put ((pre @ [c]) @ rest') (length (pre @ [c])) len cs = Some (False, d, p)"
      "length d = length (pre @ [c]) + length rest'" "take (length (pre @ [c])) d = pre @ [c]"
      "drop (nat len) d = drop (nat len) ((pre @ [c]) @ rest')" by blast
    have "take (length pre) d = pre"
      using arg_cong [OF d(3), of "take (length pre)"] by simp
    moreover have "drop (nat len) ((pre @ [c]) @ rest') = drop (nat len) (pre @ rest)"
      using False rest Cons.prems(1) by (auto simp: drop_Cons' drop_append)
    ultimately show ?thesis using False w d rest by simp
  qed
qed simp

lemma www_enc_Cons [simp]: "www_enc (c # s) = www_char c @ www_enc s"
  and www_enc_Nil [simp]: "www_enc [] = []"
  by (simp_all add: www_enc_def)

lemma www_put_append: "www_put des ptr len (xs @ ys) =
    do { (ok, d, p) \<leftarrow> www_put des ptr len xs; if ok then www_put d p len ys else Some (False, d, p) }"
  by (induction xs arbitrary: des ptr) (auto split: bind_splits)

lemma www_loop_put: "www_loop des ptr len s = www_put des ptr len (www_enc s)"
  by (induction s arbitrary: des ptr) (simp_all add: www_put_append cong: if_cong)

text \<open>The whole text that is added, and the writes of the function as one sequence.\<close>

definition www_pair :: "byte list \<Rightarrow> byte list \<Rightarrow> byte list" where
  "www_pair k b = www_enc k @ 0x3d # www_enc b"

lemma add_couple_put:
  assumes "cstr key = Some k" "cstr body = Some b" "k \<noteq> []" "b \<noteq> []" "0 < len" "cstr des = Some s"
  shows "add_x_www_couple des key body len =
    do { d0 \<leftarrow> (if s \<noteq> [] then wr des (length s) 0x26 else Some des);
         (ok, d, p) \<leftarrow> www_put d0 (if s \<noteq> [] then length s + 1 else 0) len (www_pair k b);
         if ok then Some (0, d)
         else if int (length s) \<le> len then do { d4 \<leftarrow> bset d (length s) (nat len - length s) 0; Some (-1, d4) }
         else None }"
  unfolding add_x_www_couple_def www_pair_def www_loop_put assms(1,2,6)
  using assms(3-5)
  by (auto simp: www_put_append [of _ _ _ "www_enc k" "_ # _"] www_put_append [of _ _ _ "[_]" "www_enc b", simplified]
      Let_def split: bind_splits)

text \<open>\<open>add_x_www_couple\<close> appends the encoded couple behind a separator when it fits, with room for the
  terminator, and otherwise leaves the target as it was.\<close>

theorem add_couple_appends:
  assumes "cstr key = Some k" "cstr body = Some b" "k \<noteq> []" "b \<noteq> []"
    and "0 \<notin> set s" "des = s @ replicate n 0" "int (length s) + 1 < len" "nat len \<le> length des"
  defines "t \<equiv> (if s = [] then [] else [0x26]) @ www_pair k b"
  shows "add_x_www_couple des key body len =
    (if int (length s + length t) < len then Some (0, s @ t @ replicate (n - length t) 0) else Some (-1, des))"
proof -
  have n: "2 \<le> n" using assms(6-8) by auto
  then obtain n' where n': "n = Suc n'" by (cases n) auto
  let ?sep = "if s = [] then [] else [0x26 :: byte]"
  let ?pre = "s @ ?sep" and ?rest = "replicate (n - length ?sep) (0 :: byte)"
  have cs: "cstr des = Some s" using assms(5,6) n' by (simp add: cstr_append)
  have d0: "(if s \<noteq> [] then wr des (length s) 0x26 else Some des) = Some (?pre @ ?rest)"
    using assms(6) n' by (simp add: wr_def list_update_append)
  have p: "(if s \<noteq> [] then length s + 1 else 0) = length ?pre" by simp
  have L: "add_x_www_couple des key body len =
    do { (ok, d, p) \<leftarrow> www_put (?pre @ ?rest) (length ?pre) len (www_pair k b);
         if ok then Some (0, d)
         else do { d4 \<leftarrow> bset d (length s) (nat len - length s) 0; Some (-1, d4) } }"
  proof -
    have le: "(int (length s) \<le> len) = True" and pos: "0 < len" using assms(7) by simp_all
    show ?thesis using add_couple_put [OF assms(1-4) pos cs] unfolding d0 p le if_True Option.bind.bind_lunit .
  qed
  show ?thesis
  proof (cases "int (length s + length t) < len")
    case True
    then have fit: "int (length ?pre + length (www_pair k b)) < len" "length (www_pair k b) \<le> length ?rest"
      using assms(6,8) unfolding t_def by auto
    show ?thesis
      unfolding L www_put_fits [OF fit] using True by (auto simp: t_def)
  next
    case False
    have full: "int (length ?pre) < len" "len \<le> int (length ?pre + length (www_pair k b))"
      "nat len \<le> length ?pre + length ?rest"
      using False assms(6-8) unfolding t_def by auto
    obtain d p where d: "www_put (?pre @ ?rest) (length ?pre) len (www_pair k b) = Some (False, d, p)"
      "length d = length ?pre + length ?rest" "take (length ?pre) d = ?pre"
      "drop (nat len) d = drop (nat len) (?pre @ ?rest)"
      using www_put_full [OF full] by blast
    have "take (length s) d = s" using arg_cong [OF d(3), of "take (length s)"] by simp
    moreover have "drop (nat len) (?pre @ ?rest) = replicate (length des - nat len) 0"
      using assms(6,7) by (auto simp: drop_Cons' drop_append)
    moreover have "length s + (nat len - length s) = nat len" "nat len \<le> length d"
      using assms(6-8) n d(2) by auto
    ultimately have "bset d (length s) (nat len - length s) 0 = Some des"
      using d(4) assms(6,8) by (simp add: bset_def replicate_add [symmetric])
    then show ?thesis unfolding L d(1) using False by simp
  qed
qed

text \<open>The separator is written without a check: a target that is full up to its last byte gets the
  first byte of the key behind its end.\<close>

theorem add_couple_overflows:
  assumes "cstr key = Some k" "cstr body = Some b" "k \<noteq> []" "b \<noteq> []"
    and "s \<noteq> []" "0 \<notin> set s" "len = int (length s) + 1"
  shows "add_x_www_couple (s @ [0]) key body len = None"
proof -
  obtain x xs where x: "www_pair k b = x # xs" by (cases "www_pair k b") (auto simp: www_pair_def)
  have cs: "cstr (s @ [0]) = Some s" using assms(6) by (simp add: cstr_append)
  have "wr (s @ [0]) (length s) 0x26 = Some (s @ [0x26])" by (simp add: wr_def list_update_append)
  then show ?thesis
    using add_couple_put [OF assms(1-4) _ cs] assms(5,7) by (simp add: x wr_def)
qed

text \<open>Reading the form back.\<close>

definition hex_val :: "byte \<Rightarrow> byte" where
  "hex_val c = (if 0x41 \<le> c then c - 0x37 else c - 0x30)"

fun www_dec :: "byte list \<Rightarrow> byte list" where
  "www_dec (c # s) =
     (if c = 0x25 then (case s of h # l # r \<Rightarrow> (hex_val h * 16 + hex_val l) # www_dec r | _ \<Rightarrow> [])
      else if c = 0x2b then 0x20 # www_dec s else c # www_dec s)"
| "www_dec [] = []"

lemma hex_val_num: "hex_val (num_to_hex n) = n AND 0x0f"
proof -
  have "list_all (\<lambda>k. hex_val (num_to_hex (of_nat k)) = of_nat k) [0..<16]" by code_simp
  then have k: "k < 16 \<Longrightarrow> hex_val (num_to_hex (of_nat k)) = of_nat k" for k by (simp add: list_all_iff)
  have m: "(0x0f :: byte) = mask 4" by (simp add: mask_eq_exp_minus_1)
  have "unat (n AND 0x0f) < 16"
    unfolding m take_bit_eq_mask [symmetric] unsigned_take_bit_eq by (simp add: take_bit_eq_mod)
  from k [OF this] have "hex_val (num_to_hex (n AND 0x0f)) = n AND 0x0f" by simp
  then show ?thesis by (simp add: num_to_hex_def Let_def and.assoc)
qed

lemma nibbles: "(drop_bit 4 c AND 0x0f) * 16 + (c AND 0x0f) = (c :: byte)"
proof -
  have m: "(0x0f :: byte) = mask 4" by (simp add: mask_eq_exp_minus_1)
  have "drop_bit 4 c AND 0x0f = drop_bit 4 c"
    unfolding m by (rule bit_word_eqI) (auto simp: bit_simps dest: bit_imp_le_length)
  then have "(drop_bit 4 c AND 0x0f) * 16 = push_bit 4 (drop_bit 4 c)" by (simp add: push_bit_eq_mult)
  moreover have "push_bit 4 (drop_bit 4 c) + take_bit 4 c = c" by (rule bits_ident)
  ultimately show ?thesis unfolding m by (simp add: take_bit_eq_mask)
qed

lemma plain_not: "www_plain c \<Longrightarrow> c \<noteq> 0 \<and> c \<noteq> 0x25 \<and> c \<noteq> 0x26 \<and> c \<noteq> 0x2b \<and> c \<noteq> 0x3d"
  by (auto simp: www_plain_def)

lemma num_to_hex_plain: "www_plain (num_to_hex n)"
proof -
  have "list_all (\<lambda>k. www_plain (num_to_hex (of_nat k))) [0..<16]" by code_simp
  then have k: "k < 16 \<Longrightarrow> www_plain (num_to_hex (of_nat k))" for k by (simp add: list_all_iff)
  have m: "(0x0f :: byte) = mask 4" by (simp add: mask_eq_exp_minus_1)
  have "unat (n AND 0x0f) < 16"
    unfolding m take_bit_eq_mask [symmetric] unsigned_take_bit_eq by (simp add: take_bit_eq_mod)
  from k [OF this] show ?thesis by (simp add: num_to_hex_def Let_def and.assoc)
qed

lemma www_dec_char: "www_dec (www_char c @ s) = c # www_dec s"
  by (auto simp: www_char_def hex_val_num nibbles dest: plain_not)

lemma www_enc_set: "x \<in> set (www_enc s) \<Longrightarrow> x \<noteq> 0 \<and> x \<noteq> 0x26 \<and> x \<noteq> 0x3d"
  using num_to_hex_plain [THEN plain_not]
  by (induction s) (auto simp: www_char_def dest: plain_not split: if_splits)

lemma www_dec_enc [simp]: "www_dec (www_enc s) = s"
  by (induction s) (simp_all add: www_dec_char)

text \<open>The form encoding is unambiguous: whatever bytes the key and the body have, the encoded couple
  holds no separator but the one equals sign between them, and each side decodes to its text; its
  size is the one that \<open>sizeof_x_www_format\<close> computes.\<close>

theorem www_couple_decodes:
  assumes "0 \<notin> set b"
  shows "0x26 \<notin> set (www_pair k b) \<and> 0 \<notin> set (www_pair k b) \<and>
    www_dec (takeWhile (\<lambda>c. c \<noteq> 0x3d) (www_pair k b)) = k \<and>
    www_dec (drop 1 (dropWhile (\<lambda>c. c \<noteq> 0x3d) (www_pair k b))) = b \<and>
    sizeof_x_www_format (b @ [0]) = Some (length (www_enc b) + 1)"
proof -
  have "takeWhile (\<lambda>c. c \<noteq> 0x3d) (www_pair k b) = www_enc k"
    "dropWhile (\<lambda>c. c \<noteq> 0x3d) (www_pair k b) = 0x3d # www_enc b"
    using www_enc_set [of _ k] by (auto simp: www_pair_def takeWhile_append dropWhile_append)
  moreover have "foldl (\<lambda>len c. if c = 0x20 \<or> www_plain c then len + 1 else len + 3) n b = n + length (www_enc b)" for n
    by (induction b arbitrary: n) (auto simp: www_char_def)
  ultimately show ?thesis
    using assms www_enc_set [of _ k] www_enc_set [of _ b]
    by (auto simp: www_pair_def sizeof_x_www_format_def cstr_append)
qed

section \<open>Properties of the numerals\<close>

text \<open>The numerals by their values, and the text of a number below 1000.\<close>

definition num_text :: "nat list \<Rightarrow> byte list" where
  "num_text is = concat (map ((!) pattern) is)"

definition tens_ix :: "nat \<Rightarrow> nat list" where
  "tens_ix n = (if n < 10 then (if n = 0 then [] else [n])
     else (if n div 10 = 1 then [] else [n div 10]) @ 10 # (if n mod 10 = 0 then [] else [n mod 10]))"

definition ch_ix :: "nat \<Rightarrow> nat list" where
  "ch_ix n = (if n = 0 then [0] else if n < 100 then tens_ix n
     else [n div 100, 11] @
       (let r = n mod 100 in
        if r = 0 then [] else if r < 10 then [0, r]
        else [r div 10, 10] @ (if r mod 10 = 0 then [] else [r mod 10])))"

lemma below_12: "i < 12 \<Longrightarrow> i = 0 \<or> i = 1 \<or> i = 2 \<or> i = 3 \<or> i = 4 \<or> i = 5 \<or> i = 6 \<or> i = 7 \<or> i = 8
    \<or> i = 9 \<or> i = 10 \<or> i = (11 :: nat)"
  by presburger

lemma get_num_pattern: "i < 12 \<Longrightarrow> get_num (pattern ! i @ s) = Some (i, 3)"
proof -
  assume "i < 12"
  from below_12 [OF this] show ?thesis by (elim disjE) (simp_all add: get_num_def pattern_def)
qed

lemma length_pattern: "i < 12 \<Longrightarrow> length (pattern ! i) = 3"
proof -
  assume "i < 12"
  from below_12 [OF this] show ?thesis by (elim disjE) (simp_all add: pattern_def)
qed

lemma num_text_Cons [simp]: "num_text (i # is) = pattern ! i @ num_text is"
  and num_text_Nil [simp]: "num_text [] = []"
  and num_text_append [simp]: "num_text (is @ js) = num_text is @ num_text js"
  by (simp_all add: num_text_def)

lemma get_num_drop: "i < 12 \<Longrightarrow> drop 3 (pattern ! i @ s) = s"
  by (simp add: length_pattern)

lemma pattern_nonempty: "i < 12 \<Longrightarrow> pattern ! i @ s \<noteq> []"
  using length_pattern [of i] by auto

lemma num_span_step: "i < 12 \<Longrightarrow> num_span (pattern ! i @ s) = 3 + num_span s"
proof -
  assume i: "i < 12"
  obtain c r where e: "pattern ! i @ s = c # r" using pattern_nonempty [OF i] by (metis neq_Nil_conv)
  have "get_num (c # r) = Some (i, 3)" "drop 3 (c # r) = s"
    unfolding e [symmetric] using get_num_pattern [OF i] get_num_drop [OF i] by auto
  then show ?thesis unfolding e by (subst num_span.simps) (simp only: list.case option.case prod.case)
qed

lemma num_span_text:
  "list_all (\<lambda>i. i < 12) is \<Longrightarrow> get_num s = None \<Longrightarrow> num_span (num_text is @ s) = length (num_text is)"
proof (induction "is")
  case Nil
  then show ?case by (subst num_span.simps) (cases s, simp_all)
qed (simp add: num_span_step length_pattern)

lemma revert_text:
  "list_all (\<lambda>i. i < 12) is \<Longrightarrow> revert (num_text is) r = Some (num_text (rev is) @ r)"
proof (induction "is" arbitrary: r)
  case Nil
  then show ?case by (subst revert.simps) simp
next
  case (Cons i "is")
  then have i: "i < 12" by simp
  have "take 3 (pattern ! i @ num_text is) = pattern ! i" using length_pattern [OF i] by simp
  then show ?case
    using Cons get_num_pattern [OF i] get_num_drop [OF i] pattern_nonempty [OF i]
    by (subst revert.simps) simp
qed

lemma digit_loop_text:
  "list_all (\<lambda>i. i < 12) is \<Longrightarrow> is = [d] \<Longrightarrow> digit_loop (num_text is) 0 = Some (int d)"
  using get_num_pattern [of d "[]"] get_num_drop [of d "[]"] pattern_nonempty [of d "[]"]
  by (subst digit_loop.simps) (simp add: int32_def, subst digit_loop.simps, simp)

text \<open>The loop over the values instead of the text.\<close>

fun ten_ix :: "nat list \<Rightarrow> nat \<Rightarrow> int \<Rightarrow> nat \<times> int" where
  "ten_ix [] b ret = (b, ret)"
| "ten_ix (i # is) b ret =
     (if b = 0 then (if i < 10 then ten_ix is 0 (ret + int i) else ten_ix is (i - 9) ret)
      else if b = 1 then (if i < 10 then ten_ix is 0 (ret + int i * 10) else ten_ix is (i - 9) (ret + 10))
      else if b = 2 then (if i < 10 then ten_ix is 0 (ret + int i * 100) else ten_ix is (i - 9) (ret + 100))
      else ten_ix is b ret)"

lemma ten_loop_text:
  "list_all (\<lambda>i. i < 12) is \<Longrightarrow> 0 \<le> ret \<Longrightarrow> ret + 1100 * int (length is) < 2 ^ 31 \<Longrightarrow>
   ten_loop (num_text is) b ret = Some (ten_ix is b ret)"
proof (induction "is" arbitrary: b ret)
  case Nil
  then show ?case by (subst ten_loop.simps) simp
next
  case (Cons i "is")
  then have i: "i < 12" by simp
  have "pattern ! i \<noteq> []" using pattern_nonempty [OF i, of "[]"] by simp
  note facts = get_num_pattern [OF i] length_pattern [OF i] this
  have step: "ten_loop (num_text is) b' v = Some (ten_ix is b' v)" "int32 v = Some v"
    if "ret \<le> v" "v \<le> ret + 1100" for b' v
    using Cons that by (auto simp: int32_def)
  have "int i * 100 \<le> 1100" "int i * 10 \<le> 1100" "int i \<le> 1100" using i by auto
  then show ?case
    using facts Cons.prems(2)
    by (subst ten_loop.simps) (simp add: step)
qed

lemma find_ten_step:
  "i < 12 \<Longrightarrow> find_sub (pattern ! 10) (pattern ! i @ s) \<noteq> None \<longleftrightarrow> i = 10 \<or> find_sub (pattern ! 10) s \<noteq> None"
  "i < 12 \<Longrightarrow> find_sub (pattern ! 11) (pattern ! i @ s) \<noteq> None \<longleftrightarrow> i = 11 \<or> find_sub (pattern ! 11) s \<noteq> None"
  by (drule below_12, elim disjE, simp_all add: pattern_def)+

lemma find_ten_text:
  assumes "list_all (\<lambda>i. i < 12) is"
  shows "find_sub (pattern ! 10) (num_text is) \<noteq> None \<longleftrightarrow> 10 \<in> set is"
    "find_sub (pattern ! 11) (num_text is) \<noteq> None \<longleftrightarrow> 11 \<in> set is"
  using assms by (induction "is") (auto simp: find_ten_step simp del: not_None_eq, simp_all add: pattern_def)

lemma chinese_num_text:
  assumes "list_all (\<lambda>i. i < 12) is" "is \<noteq> []" "get_num s = None" "length is < 100"
  shows "chinese_num (num_text is @ s) True =
    (if 10 \<in> set is \<or> 11 \<in> set is
     then (let (b, ret) = ten_ix (rev is) 0 0 in int32 (if b = 1 then ret + 10 else if b = 2 then ret + 100 else ret))
     else digit_loop (num_text is) 0)"
proof -
  obtain i js where ij: "is = i # js" using assms(2) by (cases "is") auto
  then have "0 < length (num_text is)" using assms(1) length_pattern [of i] by simp
  then have cut: "cut_num (num_text is @ s) True = Some (num_text is)" and ne: "(num_text is @ s = []) = False"
    using num_span_text [OF assms(1,3)] by (auto simp: cut_num_def Let_def)
  have rev: "revert (num_text is) [] = Some (num_text (rev is))"
    using revert_text [OF assms(1), of "[]"] by simp
  have ten: "ten_loop (num_text (rev is)) 0 0 = Some (ten_ix (rev is) 0 0)"
    using assms(1,4) by (intro ten_loop_text) (auto simp: list_all_iff)
  show ?thesis
    unfolding chinese_num_def ne if_False cut option.case find_ten_text [OF assms(1)] rev ten Option.bind.bind_lunit
    by (simp only: Let_def case_prod_beta)
qed

definition ten_value :: "nat \<times> int \<Rightarrow> int" where
  "ten_value p = (if fst p = 1 then snd p + 10 else if fst p = 2 then snd p + 100 else snd p)"

lemma ten_value_hundreds:
  assumes "0 < a" "a < 10" "b < 10" "c < 10"
  shows "ten_value (ten_ix (rev (ch_ix (100 * a + 10 * b + c))) 0 0) = int (100 * a + 10 * b + c)"
proof -
  have "(100 * a + (10 * b + c)) mod 100 = (10 * b + c) mod 100" by simp
  then have "(100 * a + 10 * b + c) div 100 = a" "(100 * a + 10 * b + c) mod 100 = 10 * b + c"
    "(10 * b + c) div 10 = b" "(10 * b + c) mod 10 = c"
    using assms by (auto simp: add.assoc)
  then show ?thesis
    using assms by (cases "b = 0"; cases "c = 0") (simp_all add: ch_ix_def ten_value_def Let_def)
qed

lemma ten_value_tens:
  assumes "0 < b" "b < 10" "c < 10"
  shows "ten_value (ten_ix (rev (ch_ix (10 * b + c))) 0 0) = int (10 * b + c)"
proof -
  have "(10 * b + c) div 10 = b" "(10 * b + c) mod 10 = c" using assms by auto
  then show ?thesis
    using assms by (cases "b = 1"; cases "c = 0") (simp_all add: ch_ix_def tens_ix_def ten_value_def)
qed

lemma ten_value_all:
  assumes "10 \<le> n" "n < 1000"
  shows "ten_value (ten_ix (rev (ch_ix n)) 0 0) = int n"
proof (cases "n < 100")
  case True
  then have "n = 10 * (n div 10) + n mod 10" "0 < n div 10" "n div 10 < 10" "n mod 10 < 10" using assms by auto
  then show ?thesis using ten_value_tens by metis
next
  case False
  have "n div 100 = n div 10 div 10" by (simp add: div_mult2_eq [symmetric])
  moreover have "n div 10 = 10 * (n div 10 div 10) + n div 10 mod 10" "n = 10 * (n div 10) + n mod 10"
    by simp_all
  ultimately have "n = 100 * (n div 100) + 10 * (n div 10 mod 10) + n mod 10" by linarith
  moreover have "0 < n div 100" "n div 100 < 10" "n div 10 mod 10 < 10" "n mod 10 < 10"
    using False assms by auto
  ultimately show ?thesis using ten_value_hundreds by metis
qed

text \<open>C35: \<open>chinese_num\<close> reads back every number below 1000 from its Chinese text, whatever follows it
  that does not begin with a numeral.\<close>

theorem chinese_num_reads:
  assumes "n < 1000" "get_num s = None"
  shows "chinese_num (num_text (ch_ix n) @ s) True = Some (int n)"
proof -
  have all: "list_all (\<lambda>i. i < 12) (ch_ix n)" "ch_ix n \<noteq> []" "length (ch_ix n) < 100"
    using assms(1) by (auto simp: ch_ix_def tens_ix_def Let_def)
  note text' = chinese_num_text [OF all(1,2) assms(2) all(3)]
  show ?thesis
  proof (cases "n < 10")
    case True
    then have "ch_ix n = [n]" by (simp add: ch_ix_def tens_ix_def)
    then show ?thesis unfolding text' using True digit_loop_text [of "[n]" n] by simp
  next
    case False
    then have "(10 \<in> set (ch_ix n) \<or> 11 \<in> set (ch_ix n)) = True"
      by (auto simp: ch_ix_def tens_ix_def Let_def)
    moreover have "ten_value (ten_ix (rev (ch_ix n)) 0 0) = int n"
      using False assms(1) by (intro ten_value_all) simp_all
    ultimately show ?thesis
      unfolding text' using assms(1) by (simp add: ten_value_def Let_def case_prod_beta int32_def)
  qed
qed

section \<open>Examples\<close>

lemma utf8_strlen_counts_witness:
  "utf8_strlen (concat (map u8_enc [0x41, 0x4E00]) @ 0 # []) = Some (length [0x41 :: nat, 0x4E00])"
  by (rule utf8_strlen_counts) simp

lemma utf8_strlen_truncated_witness:
  "utf8_strlen (concat (map u8_enc [0x41]) @ take 1 (u8_enc 0x4E00) @ [0]) = None"
  by (rule utf8_strlen_truncated) simp_all

lemma utf8_cut_whole_witness:
  "\<exists>k \<le> length [0x41 :: nat, 0x4E00]. \<exists>str.
     utf8_cut_string (concat (map u8_enc [0x41, 0x4E00]) @ 0 # []) 3 = Some (0, str) \<and>
     cstr str = Some (concat (map u8_enc (take k [0x41, 0x4E00])))"
  using utf8_cut_whole [of "[0x41, 0x4E00]" 3 "[]"] by (fastforce simp: u8_enc_def)

lemma add_couple_appends_witness:
  "add_x_www_couple ([0x61] @ replicate 15 0) [0x6b, 0] [0x20, 0] 16 =
     Some (0, [0x61] @ [0x26, 0x6b, 0x3d, 0x2b] @ replicate 11 0)"
  using add_couple_appends [of "[0x6b, 0]" "[0x6b]" "[0x20, 0]" "[0x20]" "[0x61]" "[0x61] @ replicate 15 0" 15 16]
  by (simp add: cstr_def www_pair_def www_char_def www_plain_def)

lemma add_couple_overflows_witness:
  "add_x_www_couple ([0x61] @ [0]) [0x6b, 0] [0x20, 0] 2 = None"
  by (rule add_couple_overflows [of _ "[0x6b]" _ "[0x20]"]) (simp_all add: cstr_def)

lemma www_couple_decodes_witness:
  "sizeof_x_www_format ([0x20, 0x26] @ [0]) = Some (length (www_enc [0x20, 0x26]) + 1)"
  using www_couple_decodes [of "[0x20, 0x26]" "[0x6b]"] by simp

lemma chinese_num_reads_witness:
  "chinese_num (num_text (ch_ix 105) @ [0x61]) True = Some (int 105)"
  by (rule chinese_num_reads) (simp_all add: get_num_def pattern_def)

end
