(* ===== verification/Halo_Lists.thy ===== *)
theory Halo_Lists
  imports Halo_Prelude
begin

text \<open>
  The circular doubly linked lists of \<open>app/list.h\<close>, at the level of their pointers, and what
  they mean: \<open>dlist s h xs\<close> holds when the nodes reachable from the head \<open>h\<close> are \<open>xs\<close> in order,
  with both directions consistent. Every operation is shown to be the obvious operation on
  \<open>xs\<close>; the locale \<open>intrusive_list\<close> states what the registry of the gateway relies on.
\<close>

section \<open>The operations\<close>

text \<open>Addresses are numbers, 0 is the null pointer, and \<open>links\<close> holds the two fields of every
  \<open>list_head\<close> in memory.\<close>

type_synonym addr = nat

record links =
  nxt :: "addr \<Rightarrow> addr"
  prv :: "addr \<Rightarrow> addr"

definition set_nxt :: "addr \<Rightarrow> addr \<Rightarrow> links \<Rightarrow> links" where
  "set_nxt p v s = s\<lparr>nxt := (nxt s)(p := v)\<rparr>"

definition set_prv :: "addr \<Rightarrow> addr \<Rightarrow> links \<Rightarrow> links" where
  "set_prv p v s = s\<lparr>prv := (prv s)(p := v)\<rparr>"

definition INIT_LIST_HEAD :: "addr \<Rightarrow> links \<Rightarrow> links" where
  "INIT_LIST_HEAD l s = set_nxt l l (set_prv l l s)"

definition list_empty :: "addr \<Rightarrow> links \<Rightarrow> bool" where
  "list_empty head s = (nxt s head = head)"

definition list_is_first :: "addr \<Rightarrow> addr \<Rightarrow> links \<Rightarrow> bool" where
  "list_is_first l head s = (prv s l = head)"

definition list_is_last :: "addr \<Rightarrow> addr \<Rightarrow> links \<Rightarrow> bool" where
  "list_is_last l head s = (nxt s l = head)"

definition list_del_raw :: "addr \<Rightarrow> links \<Rightarrow> links" where
  "list_del_raw entry s =
     (let s1 = set_prv (nxt s entry) (prv s entry) s in set_nxt (prv s1 entry) (nxt s1 entry) s1)"

definition list_del :: "addr \<Rightarrow> links \<Rightarrow> links" where
  "list_del entry s = set_nxt entry 0 (set_prv entry 0 (list_del_raw entry s))"

definition list_add_raw :: "addr \<Rightarrow> addr \<Rightarrow> addr \<Rightarrow> links \<Rightarrow> links" where
  "list_add_raw n prev next s =
     set_nxt prev n (set_prv n prev (set_nxt n next (set_prv next n s)))"

definition list_del_init :: "addr \<Rightarrow> links \<Rightarrow> links" where
  "list_del_init entry s = INIT_LIST_HEAD entry (list_del_raw entry s)"

definition list_add :: "addr \<Rightarrow> addr \<Rightarrow> links \<Rightarrow> links" where
  "list_add n head s = list_add_raw n head (nxt s head) s"

definition list_add_tail :: "addr \<Rightarrow> addr \<Rightarrow> links \<Rightarrow> links" where
  "list_add_tail n head s = list_add_raw n (prv s head) head s"

definition list_move :: "addr \<Rightarrow> addr \<Rightarrow> links \<Rightarrow> links" where
  "list_move l head s = list_add l head (list_del_raw l s)"

definition list_move_tail :: "addr \<Rightarrow> addr \<Rightarrow> links \<Rightarrow> links" where
  "list_move_tail entry head s = list_add_tail entry head (list_del_raw entry s)"

definition list_splice_raw :: "addr \<Rightarrow> addr \<Rightarrow> addr \<Rightarrow> links \<Rightarrow> links" where
  "list_splice_raw l prev next s =
     (if list_empty l s then s
      else let first = nxt s l; last = prv s l in
        set_prv next last (set_nxt last next (set_nxt prev first (set_prv first prev s))))"

definition list_splice :: "addr \<Rightarrow> addr \<Rightarrow> links \<Rightarrow> links" where
  "list_splice l head s = list_splice_raw l head (nxt s head) s"

definition list_splice_tail :: "addr \<Rightarrow> addr \<Rightarrow> links \<Rightarrow> links" where
  "list_splice_tail l head s = list_splice_raw l (prv s head) head s"

definition list_splice_init :: "addr \<Rightarrow> addr \<Rightarrow> links \<Rightarrow> links" where
  "list_splice_init l head s = INIT_LIST_HEAD l (list_splice_raw l head (nxt s head) s)"

definition list_splice_tail_init :: "addr \<Rightarrow> addr \<Rightarrow> links \<Rightarrow> links" where
  "list_splice_tail_init l head s =
     INIT_LIST_HEAD l (list_splice_raw l (prv s head) head s)"

text \<open>The traversals \<open>list_for_each\<close> and \<open>list_for_each_safe\<close>. The second evaluates the successor of
  the next node before it runs the body again, so its body may remove the node it is at; a
  body leaves the loop early with Some result. Reading the successor of a freed node is
  undefined (None). The fuel bounds the number of rounds.\<close>

fun list_for_each :: "nat \<Rightarrow> ('s \<Rightarrow> addr \<Rightarrow> addr option) \<Rightarrow> addr \<Rightarrow> addr \<Rightarrow> 's \<Rightarrow> addr list option" where
  "list_for_each 0 next head p s = None"
| "list_for_each (Suc fuel) next head p s =
     (if p = head then Some []
      else do { q \<leftarrow> next s p; vs \<leftarrow> list_for_each fuel next head q s; Some (p # vs) })"

fun for_each_safe ::
  "nat \<Rightarrow> ('s \<Rightarrow> addr \<Rightarrow> addr option) \<Rightarrow> (addr \<Rightarrow> 's \<Rightarrow> ('r option \<times> 's) option)
     \<Rightarrow> addr \<Rightarrow> addr \<Rightarrow> addr \<Rightarrow> 's \<Rightarrow> ('r option \<times> 's) option"
where
  "for_each_safe 0 next body head p n s = None"
| "for_each_safe (Suc fuel) next body head p n s =
     (if p = head then Some (None, s)
      else do {
        (r, s1) \<leftarrow> body p s;
        (case r of
           Some v \<Rightarrow> Some (Some v, s1)
         | None \<Rightarrow> do { q \<leftarrow> next s1 n; for_each_safe fuel next body head n q s1 }) })"

definition list_for_each_safe ::
  "nat \<Rightarrow> ('s \<Rightarrow> addr \<Rightarrow> addr option) \<Rightarrow> (addr \<Rightarrow> 's \<Rightarrow> ('r option \<times> 's) option)
     \<Rightarrow> addr \<Rightarrow> 's \<Rightarrow> ('r option \<times> 's) option"
where
  "list_for_each_safe fuel next body head s =
     do { p \<leftarrow> next s head; n \<leftarrow> next s p; for_each_safe fuel next body head p n s }"

text \<open>More fuel does not change a result.\<close>

lemma for_each_safe_mono:
  "for_each_safe n next body head p q s = Some r \<Longrightarrow> n \<le> m \<Longrightarrow>
     for_each_safe m next body head p q s = Some r"
proof (induction n arbitrary: m p q s)
  case (Suc n)
  then obtain m' where m: "m = Suc m'" "n \<le> m'" by (cases m) auto
  show ?case
  proof (cases "p = head")
    case False
    then obtain x s1 where b: "body p s = Some (x, s1)"
      using Suc.prems(1) by (auto split: bind_splits)
    with Suc False m show ?thesis by (cases x) (auto split: bind_splits)
  qed (use Suc m in simp)
qed simp

lemma list_for_each_safe_mono:
  "list_for_each_safe n next body head s = Some r \<Longrightarrow> n \<le> m \<Longrightarrow>
     list_for_each_safe m next body head s = Some r"
  by (auto simp: list_for_each_safe_def split: bind_splits intro: for_each_safe_mono)

text \<open>The loop over a fixed list of nodes.\<close>

fun fold_body ::
  "(addr \<Rightarrow> 's \<Rightarrow> ('r option \<times> 's) option) \<Rightarrow> addr list \<Rightarrow> 's \<Rightarrow> ('r option \<times> 's) option"
where
  "fold_body body [] s = Some (None, s)"
| "fold_body body (x # xs) s =
     do { (r, s1) \<leftarrow> body x s;
          (case r of Some v \<Rightarrow> Some (Some v, s1) | None \<Rightarrow> fold_body body xs s1) }"

section \<open>What a list means\<close>

text \<open>A chain links every element to the next one, in both directions; a list is the chain from
  its head back to it.\<close>

fun chain :: "links \<Rightarrow> addr list \<Rightarrow> bool" where
  "chain s [] = True"
| "chain s [x] = True"
| "chain s (x # y # zs) = (nxt s x = y \<and> prv s y = x \<and> chain s (y # zs))"

definition dlist :: "links \<Rightarrow> addr \<Rightarrow> addr list \<Rightarrow> bool" where
  "dlist s h xs = (distinct (h # xs) \<and> chain s (h # xs @ [h]))"

lemma links_upd [simp]:
  "nxt (set_nxt p v s) q = (if q = p then v else nxt s q)"
  "prv (set_nxt p v s) q = prv s q"
  "prv (set_prv p v s) q = (if q = p then v else prv s q)"
  "nxt (set_prv p v s) q = nxt s q"
  by (simp_all add: set_nxt_def set_prv_def)

lemma chain_append:
  "chain s (us @ vs) \<longleftrightarrow> chain s us \<and> chain s vs \<and>
     (us \<noteq> [] \<longrightarrow> vs \<noteq> [] \<longrightarrow> nxt s (last us) = hd vs \<and> prv s (hd vs) = last us)"
proof (induction us)
  case (Cons u us)
  then show ?case by (cases us; cases vs) auto
qed simp

text \<open>A chain only reads the forward field of all but its last element, and the backward field of
  all but its first.\<close>

lemma chain_cong:
  assumes "\<And>p. p \<in> set (butlast l) \<Longrightarrow> nxt t p = nxt s p"
    and "\<And>p. p \<in> set (tl l) \<Longrightarrow> prv t p = prv s p" and "chain s l"
  shows "chain t l"
  using assms by (induction s l rule: chain.induct) auto

lemma dlist_split:
  "dlist s h (xs @ ys) \<longleftrightarrow> distinct (h # xs @ ys) \<and> chain s (h # xs) \<and> chain s (ys @ [h]) \<and>
     nxt s (last (h # xs)) = hd (ys @ [h]) \<and> prv s (hd (ys @ [h])) = last (h # xs)"
  using chain_append [of s "h # xs" "ys @ [h]"] by (simp add: dlist_def)

lemma dlist_next: "dlist s h (xs @ x # ys) \<Longrightarrow> nxt s x = hd (ys @ [h])"
  using dlist_split [of s h "xs @ [x]" ys] by simp

lemma dlist_prev: "dlist s h (xs @ x # ys) \<Longrightarrow> prv s x = last (h # xs)"
  using dlist_split [of s h xs "x # ys"] by simp

lemma dlist_head: "dlist s h xs \<Longrightarrow> nxt s h = hd (xs @ [h]) \<and> prv s h = last (h # xs)"
  using dlist_split [of s h "[]" xs] dlist_split [of s h xs "[]"] by simp

lemma dlist_empty [simp]: "dlist s h [] \<longleftrightarrow> nxt s h = h \<and> prv s h = h"
  by (simp add: dlist_def)

lemma dlist_distinct: "dlist s h xs \<Longrightarrow> distinct (h # xs)"
  by (simp add: dlist_def)

lemma last_not_butlast: "distinct l \<Longrightarrow> p \<in> set (butlast l) \<Longrightarrow> p \<noteq> last l"
  by (induction l) (auto split: if_splits dest: in_set_butlastD)

section \<open>Every operation is the list operation\<close>

lemma INIT_LIST_HEAD_dlist: "dlist (INIT_LIST_HEAD h s) h []"
  by (simp add: INIT_LIST_HEAD_def)

lemma list_empty_dlist: "dlist s h xs \<Longrightarrow> list_empty h s \<longleftrightarrow> xs = []"
  by (cases xs) (auto simp: list_empty_def dlist_def)

lemma list_is_first_dlist:
  assumes "dlist s h (xs @ x # ys)"
  shows "list_is_first x h s \<longleftrightarrow> xs = []"
  using dlist_prev [OF assms] dlist_distinct [OF assms]
  by (cases xs rule: rev_cases) (auto simp: list_is_first_def)

lemma list_is_last_dlist:
  assumes "dlist s h (xs @ x # ys)"
  shows "list_is_last x h s \<longleftrightarrow> ys = []"
  using dlist_next [OF assms] dlist_distinct [OF assms]
  by (cases ys) (auto simp: list_is_last_def)

lemma list_add_raw_dlist:
  assumes "dlist s h (xs @ ys)" "n \<notin> set (h # xs @ ys)"
  shows "dlist (list_add_raw n (last (h # xs)) (hd (ys @ [h])) s) h (xs @ n # ys)"
proof -
  let ?l = "last (h # xs)" and ?r = "hd (ys @ [h])"
  let ?t = "list_add_raw n ?l ?r s"
  have a: "distinct (h # xs @ ys)" "chain s (h # xs)" "chain s (ys @ [h])"
    using assms(1) by (simp_all add: dlist_split)
  have lr: "?l \<in> set (h # xs)" "?r \<in> set (ys @ [h])" by (rule last_in_set hd_in_set, simp)+
  have n: "n \<noteq> ?l" "n \<noteq> ?r" using lr assms(2) by auto
  have c1: "chain ?t (h # xs)"
  proof (rule chain_cong [OF _ _ a(2)])
    fix p assume "p \<in> set (butlast (h # xs))"
    then have "p \<noteq> ?l" "p \<noteq> n"
      using a(1) assms(2) last_not_butlast [of "h # xs" p] in_set_butlastD [of p "h # xs"] by auto
    then show "nxt ?t p = nxt s p" by (simp add: list_add_raw_def)
  next
    fix p assume "p \<in> set (tl (h # xs))"
    then have "p \<noteq> ?r" "p \<noteq> n" using a(1) assms(2) by (cases ys; auto)+
    then show "prv ?t p = prv s p" by (simp add: list_add_raw_def)
  qed
  have c2: "chain ?t (ys @ [h])"
  proof (rule chain_cong [OF _ _ a(3)])
    fix p assume "p \<in> set (butlast (ys @ [h]))"
    then have "p \<in> set ys" by simp
    then have "p \<noteq> ?l" "p \<noteq> n" using a(1) assms(2) lr(1) by auto
    then show "nxt ?t p = nxt s p" by (simp add: list_add_raw_def)
  next
    fix p assume "p \<in> set (tl (ys @ [h]))"
    then have "p \<noteq> ?r" "p \<noteq> n" using a(1) assms(2) by (cases ys; auto)+
    then show "prv ?t p = prv s p" by (simp add: list_add_raw_def)
  qed
  have l: "nxt ?t ?l = n" "prv ?t n = ?l" "nxt ?t n = ?r" "prv ?t ?r = n"
    using n by (simp_all add: list_add_raw_def)
  have "chain ?t (n # ys @ [h])" using c2 l chain_append [of ?t "[n]" "ys @ [h]"] by simp
  then show ?thesis using a(1) assms(2) c1 l by (subst dlist_split) auto
qed

theorem list_add_dlist:
  "dlist s h xs \<Longrightarrow> n \<notin> set (h # xs) \<Longrightarrow> dlist (list_add n h s) h (n # xs)"
  using list_add_raw_dlist [of s h "[]" xs n] dlist_head [of s h xs] by (simp add: list_add_def)

theorem list_add_tail_dlist:
  "dlist s h xs \<Longrightarrow> n \<notin> set (h # xs) \<Longrightarrow> dlist (list_add_tail n h s) h (xs @ [n])"
  using list_add_raw_dlist [of s h xs "[]" n] dlist_head [of s h xs]
  by (simp add: list_add_tail_def)

lemma list_del_raw_dlist:
  assumes "dlist s h (xs @ x # ys)"
  shows "dlist (list_del_raw x s) h (xs @ ys)"
proof -
  let ?l = "last (h # xs)" and ?r = "hd (ys @ [h])"
  let ?t = "list_del_raw x s"
  have nx: "nxt s x = ?r" "prv s x = ?l"
    using dlist_next [OF assms] dlist_prev [OF assms] by simp_all
  have d: "distinct (h # xs @ x # ys)" using assms by (simp add: dlist_def)
  have a: "chain s (h # xs)" "chain s (ys @ [h])"
    using assms dlist_split [of s h xs "x # ys"] dlist_split [of s h "xs @ [x]" ys] by simp_all
  have lr: "?l \<in> set (h # xs)" "?r \<in> set (ys @ [h])" by (rule last_in_set hd_in_set, simp)+
  have xr: "x \<noteq> ?r" "x \<noteq> ?l" using d lr by auto
  have t: "nxt ?t p = (if p = ?l then ?r else nxt s p)" "prv ?t p = (if p = ?r then ?l else prv s p)" for p
    using nx xr by (simp_all add: list_del_raw_def Let_def)
  have c1: "chain ?t (h # xs)"
  proof (rule chain_cong [OF _ _ a(1)])
    fix p assume "p \<in> set (butlast (h # xs))"
    then have "p \<noteq> ?l" using d last_not_butlast [of "h # xs" p] by auto
    then show "nxt ?t p = nxt s p" by (simp add: t)
  next
    fix p assume "p \<in> set (tl (h # xs))"
    then have "p \<noteq> ?r" using d by (cases ys) auto
    then show "prv ?t p = prv s p" by (simp add: t)
  qed
  have c2: "chain ?t (ys @ [h])"
  proof (rule chain_cong [OF _ _ a(2)])
    fix p assume "p \<in> set (butlast (ys @ [h]))"
    then have "p \<noteq> ?l" using d lr(1) by auto
    then show "nxt ?t p = nxt s p" by (simp add: t)
  next
    fix p assume "p \<in> set (tl (ys @ [h]))"
    then have "p \<noteq> ?r" using d by (cases ys) auto
    then show "prv ?t p = prv s p" by (simp add: t)
  qed
  show ?thesis using d c1 c2 t by (subst dlist_split) auto
qed

lemma dlist_frame:
  assumes "dlist s h xs" "p \<notin> set (h # xs)"
  shows "dlist (set_nxt p v s) h xs" "dlist (set_prv p v s) h xs"
  using assms unfolding dlist_def by (auto intro: chain_cong split: if_splits)

theorem list_del_dlist:
  assumes "dlist s h (xs @ x # ys)"
  shows "dlist (list_del x s) h (xs @ ys)"
proof -
  have "x \<notin> set (h # xs @ ys)" using assms by (auto simp: dlist_def)
  with list_del_raw_dlist [OF assms] show ?thesis
    unfolding list_del_def by (intro dlist_frame)
qed

lemma list_del_unlinked: "nxt (list_del x s) x = 0 \<and> prv (list_del x s) x = 0"
  by (simp add: list_del_def)

theorem list_del_init_dlist:
  assumes "dlist s h (xs @ x # ys)"
  shows "dlist (list_del_init x s) h (xs @ ys) \<and> dlist (list_del_init x s) x []"
proof -
  have "x \<notin> set (h # xs @ ys)" using assms by (auto simp: dlist_def)
  with list_del_raw_dlist [OF assms] show ?thesis
    unfolding list_del_init_def INIT_LIST_HEAD_def by (simp add: dlist_frame)
qed

theorem list_move_dlist:
  assumes "dlist s h (xs @ x # ys)"
  shows "dlist (list_move x h s) h (x # xs @ ys)"
    and "dlist (list_move_tail x h s) h (xs @ ys @ [x])"
proof -
  have "x \<notin> set (h # xs @ ys)" using assms by (auto simp: dlist_def)
  with list_add_dlist [OF list_del_raw_dlist [OF assms], of x]
    list_add_tail_dlist [OF list_del_raw_dlist [OF assms], of x]
  show "dlist (list_move x h s) h (x # xs @ ys)" "dlist (list_move_tail x h s) h (xs @ ys @ [x])"
    by (simp_all add: list_move_def list_move_tail_def)
qed

text \<open>Splicing moves the nodes of the list \<open>l\<close> behind a node of the list \<open>h\<close>.\<close>

lemma list_splice_raw_dlist:
  assumes "dlist s h (xs @ zs)" "dlist s l ys" "set (l # ys) \<inter> set (h # xs @ zs) = {}"
  shows "dlist (list_splice_raw l (last (h # xs)) (hd (zs @ [h])) s) h (xs @ ys @ zs)"
proof (cases "ys = []")
  case True
  with assms list_empty_dlist [OF assms(2)] show ?thesis by (simp add: list_splice_raw_def)
next
  case False
  let ?l = "last (h # xs)" and ?r = "hd (zs @ [h])"
  let ?t = "list_splice_raw l ?l ?r s"
  have f: "nxt s l = hd ys" "prv s l = last ys"
    using dlist_head [OF assms(2)] False by simp_all
  have d: "distinct (h # xs @ zs)" "distinct (l # ys)"
    using assms(1,2) by (auto simp: dlist_def)
  have a: "chain s (h # xs)" "chain s (zs @ [h])" using assms(1) by (simp_all add: dlist_split)
  have cy: "chain s ys"
    using assms(2) by (auto simp: dlist_def chain_append [of s "[l]" "ys @ [l]", simplified]
        chain_append [of s ys "[l]"])
  have lr: "?l \<in> set (h # xs)" "?r \<in> set (zs @ [h])" "hd ys \<in> set ys" "last ys \<in> set ys"
    by (rule last_in_set hd_in_set; simp add: False)+
  have ne: "list_empty l s = False" using list_empty_dlist [OF assms(2)] False by simp
  have t: "nxt ?t p = (if p = last ys then ?r else if p = ?l then hd ys else nxt s p)"
      "prv ?t p = (if p = ?r then last ys else if p = hd ys then ?l else prv s p)" for p
    by (simp_all add: list_splice_raw_def ne f Let_def)
  have c1: "chain ?t (h # xs)"
  proof (rule chain_cong [OF _ _ a(1)])
    fix p assume "p \<in> set (butlast (h # xs))"
    then have "p \<noteq> ?l" "p \<noteq> last ys"
      using d(1) last_not_butlast [of "h # xs" p] in_set_butlastD [of p "h # xs"] assms(3) lr(4) by auto
    then show "nxt ?t p = nxt s p" unfolding t by simp
  next
    fix p assume p: "p \<in> set (tl (h # xs))"
    then have "p \<noteq> hd ys" using assms(3) lr(3) by auto
    moreover have "p \<noteq> ?r" using p d(1) by (cases zs) auto
    ultimately show "prv ?t p = prv s p" unfolding t by simp
  qed
  have c2: "chain ?t (zs @ [h])"
  proof (rule chain_cong [OF _ _ a(2)])
    fix p assume "p \<in> set (butlast (zs @ [h]))"
    then have "p \<noteq> ?l" "p \<noteq> last ys" using d(1) lr(1,4) assms(3) by auto
    then show "nxt ?t p = nxt s p" unfolding t by simp
  next
    fix p assume p: "p \<in> set (tl (zs @ [h]))"
    then have "p \<noteq> hd ys" using assms(3) lr(3) list.set_sel(2) [of "zs @ [h]" p] by auto
    moreover have "p \<noteq> ?r" using p d(1) by (cases zs) auto
    ultimately show "prv ?t p = prv s p" unfolding t by simp
  qed
  have c3: "chain ?t ys"
  proof (rule chain_cong [OF _ _ cy])
    fix p assume p: "p \<in> set (butlast ys)"
    then have "p \<noteq> last ys" using d(2) last_not_butlast [of ys p] by auto
    moreover have "p \<noteq> ?l" using in_set_butlastD [OF p] assms(3) lr(1) by auto
    ultimately show "nxt ?t p = nxt s p" unfolding t by simp
  next
    fix p assume p: "p \<in> set (tl ys)"
    then have "p \<noteq> hd ys" using d(2) by (cases ys) auto
    moreover have "p \<noteq> ?r" using list.set_sel(2) [OF False p] assms(3) lr(2) by auto
    ultimately show "prv ?t p = prv s p" unfolding t by simp
  qed
  have x: "?l \<noteq> last ys" "?r \<noteq> hd ys" using assms(3) lr by auto
  have l: "nxt ?t (last ys) = ?r" "prv ?t ?r = last ys" "nxt ?t ?l = hd ys" "prv ?t (hd ys) = ?l"
    unfolding t using x by auto
  have e: "hd ((ys @ zs) @ [h]) = hd ys" "set (l # ys) \<inter> set (h # xs @ zs) = {}"
    using False assms(3) by auto
  have "chain ?t (ys @ zs @ [h])" unfolding chain_append [of ?t ys] using c2 c3 l by auto
  moreover have "distinct (h # xs @ ys @ zs)" using d e(2) by auto
  ultimately show ?thesis unfolding dlist_split [of ?t h xs] e(1) using c1 l(3,4) by simp
qed

theorem list_splice_dlist:
  assumes "dlist s h xs" "dlist s l ys" "set (l # ys) \<inter> set (h # xs) = {}"
  shows "dlist (list_splice l h s) h (ys @ xs)" "dlist (list_splice_tail l h s) h (xs @ ys)"
  using assms list_splice_raw_dlist [of s h "[]" xs l ys] list_splice_raw_dlist [of s h xs "[]" l ys]
    dlist_head [OF assms(1)]
  by (simp_all add: list_splice_def list_splice_tail_def)

theorem list_splice_init_dlist:
  assumes "dlist s h xs" "dlist s l ys" "set (l # ys) \<inter> set (h # xs) = {}"
  shows "dlist (list_splice_init l h s) h (ys @ xs) \<and> dlist (list_splice_init l h s) l []"
    and "dlist (list_splice_tail_init l h s) h (xs @ ys) \<and> dlist (list_splice_tail_init l h s) l []"
proof -
  have d: "distinct (l # ys)" "distinct (h # xs)" using assms(1,2) by (auto simp: dlist_def)
  then have l: "l \<notin> set (h # ys @ xs)" "l \<notin> set (h # xs @ ys)" using assms(3) by auto
  show "dlist (list_splice_init l h s) h (ys @ xs) \<and> dlist (list_splice_init l h s) l []"
    using l list_splice_dlist(1) [OF assms] INIT_LIST_HEAD_dlist
    by (simp add: list_splice_init_def list_splice_def INIT_LIST_HEAD_def dlist_frame)
  show "dlist (list_splice_tail_init l h s) h (xs @ ys) \<and> dlist (list_splice_tail_init l h s) l []"
    using l list_splice_dlist(2) [OF assms] INIT_LIST_HEAD_dlist
    by (simp add: list_splice_tail_init_def list_splice_tail_def INIT_LIST_HEAD_def dlist_frame)
qed

section \<open>The interface the registry relies on\<close>

locale intrusive_list =
  fixes rep :: "'s \<Rightarrow> addr \<Rightarrow> addr list \<Rightarrow> bool"
    and succ :: "'s \<Rightarrow> addr \<Rightarrow> addr option"
    and del :: "addr \<Rightarrow> 's \<Rightarrow> 's"
  assumes rep_distinct: "rep s h xs \<Longrightarrow> distinct (h # xs)"
    and rep_first: "rep s h xs \<Longrightarrow> succ s h = Some (hd (xs @ [h]))"
    and rep_next: "rep s h (xs @ x # ys) \<Longrightarrow> succ s x = Some (hd (ys @ [h]))"
    and rep_del: "rep s h (xs @ x # ys) \<Longrightarrow> rep (del x s) h (xs @ ys)"
begin

lemma rep_succ:
  assumes "rep s h (xs @ ys)"
  shows "\<exists>q. succ s (hd (ys @ [h])) = Some q \<and> (ys = y # ys' \<longrightarrow> q = hd (ys' @ [h]))"
  using assms rep_first [OF assms] rep_next [of s h xs _ "tl ys"] by (cases ys) auto

lemma walk_visits:
  "rep s h (xs @ ys) \<Longrightarrow> list_for_each (Suc (length ys)) succ h (hd (ys @ [h])) s = Some ys"
proof (induction ys arbitrary: xs)
  case (Cons y ys)
  have "y \<noteq> h" using rep_distinct [OF Cons.prems] by auto
  moreover have "list_for_each (Suc (length ys)) succ h (hd (ys @ [h])) s = Some ys"
    using Cons.IH [of "xs @ [y]"] Cons.prems by simp
  ultimately show ?case using rep_next [OF Cons.prems] by simp
qed simp

text \<open>A body that leaves the part of the list behind its node alone sees every node of the list
  once: the loop is the fold of the body over the list it started with.\<close>

lemma for_each_fold:
  assumes keep: "\<And>p xs ys s s'. I s \<Longrightarrow> rep s h (xs @ p # ys) \<Longrightarrow> body p s = Some (None, s')
      \<Longrightarrow> I s' \<and> (\<exists>xs'. rep s' h (xs' @ ys))"
  shows "I s \<Longrightarrow> rep s h (xs @ ys) \<Longrightarrow> succ s (hd (ys @ [h])) = Some n \<Longrightarrow>
    for_each_safe (Suc (length ys)) succ body h (hd (ys @ [h])) n s = fold_body body ys s"
proof (induction ys arbitrary: xs s n)
  case Nil
  then show ?case by simp
next
  case (Cons y ys)
  have y: "y \<noteq> h" using rep_distinct [OF Cons.prems(2)] by auto
  have n: "n = hd (ys @ [h])" using rep_next [OF Cons.prems(2)] Cons.prems(3) by simp
  show ?case
  proof (cases "body y s")
    case None
    then show ?thesis using y by simp
  next
    case (Some rs)
    obtain r s1 where rs: "rs = (r, s1)" by (cases rs)
    show ?thesis
    proof (cases r)
      case None
      with Some rs have b: "body y s = Some (None, s1)" by simp
      from keep [OF Cons.prems(1,2) b] obtain xs' where
        k: "I s1" "rep s1 h (xs' @ ys)" by blast
      obtain q where q: "succ s1 (hd (ys @ [h])) = Some q" using rep_succ [OF k(2)] by blast
      from Cons.IH [OF k q] b y n q show ?thesis by simp
    qed (use Some rs y in simp)
  qed
qed

theorem list_for_each_safe_fold:
  assumes "\<And>p xs ys s s'. I s \<Longrightarrow> rep s h (xs @ p # ys) \<Longrightarrow> body p s = Some (None, s')
      \<Longrightarrow> I s' \<and> (\<exists>xs'. rep s' h (xs' @ ys))"
    and "I s" "rep s h ys"
  shows "list_for_each_safe (Suc (length ys)) succ body h s = fold_body body ys s"
proof -
  have r: "rep s h ([] @ ys)" using assms(3) by simp
  obtain n where n: "succ s (hd (ys @ [h])) = Some n" using rep_succ [OF r] by blast
  from for_each_fold [where I = I and body = body, OF assms(1) assms(2) r n] rep_first [OF assms(3)] n
  show ?thesis by (simp add: list_for_each_safe_def)
qed

text \<open>Removing every node a safe traversal is at empties the list.\<close>

lemma fold_delete: "rep s h ys \<Longrightarrow>
    \<exists>s'. fold_body (\<lambda>p s. Some (None :: unit option, del p s)) ys s = Some (None, s') \<and> rep s' h []"
proof (induction ys arbitrary: s)
  case (Cons y ys)
  then have "rep (del y s) h ys" using rep_del [of s h "[]" y ys] by simp
  from Cons.IH [OF this] show ?case by simp
qed simp

theorem delete_all:
  assumes "rep s h ys"
  shows "\<exists>s'. list_for_each_safe (Suc (length ys)) succ (\<lambda>p s. Some (None :: unit option, del p s)) h s
      = Some (None, s') \<and> rep s' h []"
proof -
  have "list_for_each_safe (Suc (length ys)) succ (\<lambda>p s. Some (None :: unit option, del p s)) h s
      = fold_body (\<lambda>p s. Some (None :: unit option, del p s)) ys s"
    by (rule list_for_each_safe_fold [where I = "\<lambda>_. True"]) (use assms in \<open>auto dest: rep_del\<close>)
  with fold_delete [OF assms] show ?thesis by simp
qed

end

interpretation ptr_list: intrusive_list dlist "\<lambda>s p. Some (nxt s p)" list_del
proof
  show "distinct (h # xs)" if "dlist s h xs" for s h xs using that by (rule dlist_distinct)
  show "Some (nxt s h) = Some (hd (xs @ [h]))" if "dlist s h xs" for s h xs
    using dlist_head [OF that] by simp
  show "Some (nxt s x) = Some (hd (ys @ [h]))" if "dlist s h (xs @ x # ys)" for s h xs x ys
    using dlist_next [OF that] by simp
  show "dlist (list_del x s) h (xs @ ys)" if "dlist s h (xs @ x # ys)" for s h xs x ys
    using that by (rule list_del_dlist)
qed

section \<open>Properties\<close>

text \<open>Inserting, appending and removing a node are the list operations on the nodes reachable
  from the head, in both directions, and a removed node has null links.\<close>

theorem list_ops_refine:
  assumes "dlist s h (xs @ x # ys)" "n \<notin> set (h # xs @ x # ys)"
  shows "dlist (list_add n h s) h (n # xs @ x # ys) \<and>
     dlist (list_add_tail n h s) h (xs @ x # ys @ [n]) \<and>
     dlist (list_del x s) h (xs @ ys) \<and> nxt (list_del x s) x = 0 \<and> prv (list_del x s) x = 0"
  using list_add_dlist [OF assms] list_add_tail_dlist [OF assms] list_del_dlist [OF assms(1)]
    list_del_unlinked by simp

text \<open>Splicing one list into another puts all its nodes, in order, at the front or at the back
  of the other one and leaves an initialised empty head behind.\<close>

theorem list_splice_refine:
  assumes "dlist s h xs" "dlist s l ys" "set (l # ys) \<inter> set (h # xs) = {}"
  shows "dlist (list_splice_init l h s) h (ys @ xs) \<and> dlist (list_splice_init l h s) l [] \<and>
     dlist (list_splice_tail_init l h s) h (xs @ ys) \<and> dlist (list_splice_tail_init l h s) l []"
  using list_splice_init_dlist [OF assms] by simp

text \<open>A safe traversal that removes every node it is at ends after one round per node, and
  leaves the list empty.\<close>

theorem safe_delete_all:
  assumes "dlist s h xs"
  shows "\<exists>s'. list_for_each_safe (Suc (length xs)) (\<lambda>s p. Some (nxt s p))
       (\<lambda>p s. Some (None :: unit option, list_del p s)) h s = Some (None, s') \<and> list_empty h s'"
  using ptr_list.delete_all [OF assms] list_empty_dlist by blast

definition ex_links :: links where
  "ex_links = list_add_tail 3 1 (list_add_tail 2 1 (INIT_LIST_HEAD 1
     (INIT_LIST_HEAD 9 \<lparr>nxt = (\<lambda>_. 0), prv = (\<lambda>_. 0)\<rparr>)))"

lemma ex_links_dlist: "dlist ex_links 1 [2, 3]" "dlist ex_links 9 []"
  by (simp_all add: dlist_def ex_links_def list_add_tail_def list_add_raw_def INIT_LIST_HEAD_def)

lemma list_ops_refine_witness:
  "dlist (list_add_tail 4 1 ex_links) 1 [2, 3, 4] \<and> dlist (list_del 2 ex_links) 1 [3]"
  using list_ops_refine [of ex_links 1 "[]" 2 "[3]" 4] ex_links_dlist by simp

lemma list_splice_refine_witness: "dlist (list_splice_init 1 9 ex_links) 9 [2, 3]"
  using list_splice_refine [of ex_links 9 "[]" 1 "[2, 3]"] ex_links_dlist by simp

lemma safe_delete_all_witness:
  "\<exists>s'. list_for_each_safe 3 (\<lambda>s p. Some (nxt s p))
       (\<lambda>p s. Some (None :: unit option, list_del p s)) 1 ex_links = Some (None, s') \<and> list_empty 1 s'"
  using safe_delete_all [OF ex_links_dlist(1)] by (simp add: numeral_3_eq_3)

end
