(* ===== verification/Halo_Check.thy ===== *)
theory Halo_Check
  imports Halo_Prelude
begin

text \<open>
  The interfaces of the framing layers. Every link of the gateway guards its frames with a
  running one-byte check (XOR towards the cloud and the villa console, a CRC on RS485), and the
  cloud link escapes its frame flag. The locales state what a receiver may rely on; the
  theories of the links interpret them on their own definitions.
\<close>

section \<open>Running checks\<close>

text \<open>A running check folds a step over the bytes of a frame, starting from zero.\<close>

definition run_check :: "(byte \<Rightarrow> byte \<Rightarrow> byte) \<Rightarrow> byte list \<Rightarrow> byte" where
  "run_check upd xs = foldl upd 0 xs"

locale running_check =
  fixes upd :: "byte \<Rightarrow> byte \<Rightarrow> byte"
  assumes upd_zero: "upd a b = 0 \<longleftrightarrow> a = b"
    and upd_inj_state: "upd a b = upd a' b \<Longrightarrow> a = a'"
    and upd_inj_byte: "upd a b = upd a b' \<Longrightarrow> b = b'"
begin

lemma fold_inj: "foldl upd a xs = foldl upd a' xs \<longleftrightarrow> a = a'"
  by (induction xs arbitrary: a a') (auto dest: upd_inj_state)

lemma residue: "run_check upd (xs @ [c]) = 0 \<longleftrightarrow> c = run_check upd xs"
  by (auto simp: run_check_def upd_zero)

lemma residue_check: "run_check upd (xs @ [run_check upd xs]) = 0"
  by (simp add: residue)

text \<open>One changed byte always changes the check.\<close>

lemma single_error:
  assumes "x \<noteq> y"
  shows "run_check upd (pre @ x # post) \<noteq> run_check upd (pre @ y # post)"
proof -
  have "upd (foldl upd 0 pre) x \<noteq> upd (foldl upd 0 pre) y"
    using assms upd_inj_byte by blast
  then show ?thesis by (simp add: run_check_def fold_inj)
qed

text \<open>A frame that carries its own check is rejected after any one byte of it was changed.\<close>

lemma single_error_detected:
  assumes "run_check upd (pre @ x # post) = 0" "x \<noteq> y"
  shows "run_check upd (pre @ y # post) \<noteq> 0"
  using single_error [OF assms(2), of pre post] assms(1) by simp

end

section \<open>Byte stuffing\<close>

text \<open>A stuffing code keeps the flag out of what it encodes, so a flag in the stream always is
  a frame boundary.\<close>

locale byte_stuffing =
  fixes flag :: byte
    and esc :: "byte list \<Rightarrow> byte list"
    and unesc :: "byte list \<Rightarrow> byte list option"
  assumes unesc_esc: "unesc (esc xs) = Some xs"
    and flag_free: "flag \<notin> set (esc xs)"
begin

lemma esc_inj: "esc xs = esc ys \<longleftrightarrow> xs = ys"
  by (metis option.inject unesc_esc)

lemma frame_end: "find_byte flag (esc xs @ flag # rest) = Some (length (esc xs))"
  using flag_free by (rule find_byte_prefix)

text \<open>A stream starts with at most one frame: neither the content nor the rest is ambiguous.\<close>

lemma frame_unique:
  assumes "flag # esc xs @ flag # r = flag # esc ys @ flag # s"
  shows "xs = ys \<and> r = s"
proof -
  have "length (esc xs) = length (esc ys)"
    using assms frame_end [of xs r] frame_end [of ys s] by simp
  with assms show ?thesis by (auto simp: esc_inj)
qed

end

section \<open>The XOR check\<close>

text \<open>The check of the cloud frames and of the villa frames.\<close>

definition xor_check :: "byte list \<Rightarrow> byte" where
  "xor_check xs = run_check (XOR) xs"

lemma xor_right_cancel: "a XOR b = a' XOR b \<longleftrightarrow> a = (a' :: byte)"
  by (metis xor.assoc xor_self_eq xor.right_neutral)

lemma xor_left_cancel: "a XOR b = a XOR b' \<longleftrightarrow> b = (b' :: byte)"
  by (metis xor_right_cancel xor.commute)

lemma xor_eq_zero: "a XOR b = 0 \<longleftrightarrow> a = (b :: byte)"
  by (metis xor_right_cancel xor_self_eq)

interpretation xor_chk: running_check "(XOR)"
  by unfold_locales (simp_all add: xor_eq_zero xor_right_cancel xor_left_cancel)

lemma xor_check_Nil [simp]: "xor_check [] = 0"
  by (simp add: xor_check_def run_check_def)

lemma foldl_xor: "foldl (XOR) a xs = a XOR xor_check xs"
proof (induction xs arbitrary: a)
  case (Cons x xs)
  from Cons [of "a XOR x"] Cons [of x] show ?case
    by (simp add: xor_check_def run_check_def xor.assoc)
qed simp

lemma xor_check_Cons: "xor_check (x # xs) = x XOR xor_check xs"
  using foldl_xor [of x xs] by (simp add: xor_check_def run_check_def)

lemma xor_check_append [simp]: "xor_check (xs @ ys) = xor_check xs XOR xor_check ys"
  by (induction xs) (simp_all add: xor_check_Cons xor.assoc)

section \<open>Dispatch tables\<close>

text \<open>The links look a command up in a table and take the first row that fits. When no command
  occurs twice, the order of the rows does not matter and every row can be reached.\<close>

locale dispatch_table =
  fixes tab :: "('k \<times> 'h) list"
  assumes distinct_keys: "distinct (map fst tab)"
begin

lemma row_reached: "(k, h) \<in> set tab \<Longrightarrow> map_of tab k = Some h"
  using distinct_keys by simp

lemma lookup_iff: "map_of tab k = Some h \<longleftrightarrow> (k, h) \<in> set tab"
  using distinct_keys by (auto dest: map_of_SomeD)

lemma order_irrelevant:
  assumes "distinct (map fst tab')" "set tab' = set tab"
  shows "map_of tab' = map_of tab"
  using assms distinct_keys by (intro map_of_inject_set [THEN iffD2]) auto

end

end
