(* ===== verification/Cloud_Frame.thy ===== *)
theory Cloud_Frame
  imports Halo_Check
begin

text \<open>
  The frame codec of the cloud link: \<open>_contentcat\<close> and \<open>_build_payload\<close> of
  \<open>app/tcp_client.c\<close> build a frame in a heap block, \<open>change_flag\<close> of \<open>app/common.c\<close> removes the
  escapes in place, \<open>_seperate_buf\<close> of \<open>app/tcp_cli_dispatch.c\<close> cuts one frame from the
  receive buffer. The codec is shown to be a byte stuffing code with an XOR check; the lemmas
  give the exact size at which the frame builder leaves its block, and what the receiver
  makes of a built frame.
\<close>

section \<open>The frame header\<close>

record cli_head =
  cmd :: "16 word"
  htype :: byte
  hlen :: "16 word"
  snd_id :: "byte list"

text \<open>The packed struct in memory; \<open>snd_id\<close> is an array of ten bytes.\<close>

definition head_bytes :: "cli_head \<Rightarrow> byte list" where
  "head_bytes h = le16 (cmd h) @ [htype h] @ le16 (hlen h) @ snd_id h"

definition head_of :: "byte list \<Rightarrow> cli_head" where
  "head_of b = \<lparr>cmd = of_le16 (b ! 0) (b ! 1), htype = b ! 2,
     hlen = of_le16 (b ! 3) (b ! 4), snd_id = drop 5 b\<rparr>"

definition head_ok :: "cli_head \<Rightarrow> bool" where
  "head_ok h = (length (snd_id h) = 10)"

lemma head_of_bytes [simp]: "head_of (head_bytes h) = h"
  by (simp add: head_of_def head_bytes_def le16_def numeral_2_eq_2 numeral_3_eq_3)

lemma length_head_bytes [simp]: "head_ok h \<Longrightarrow> length (head_bytes h) = 15"
  by (simp add: head_bytes_def head_ok_def)

section \<open>Building a frame\<close>

text \<open>The block and the write position that the copy loops share.\<close>

type_synonym outbuf = "cbuf \<times> nat"

fun put_esc :: "byte \<Rightarrow> outbuf \<Rightarrow> outbuf option" where
  "put_esc c (b, p) =
     (if c \<noteq> 0x7e \<and> c \<noteq> 0x7d then do { b1 \<leftarrow> wr b p c; Some (b1, p + 1) }
      else do { b1 \<leftarrow> wr b p 0x7d;
                b2 \<leftarrow> wr b1 (p + 1) (if c = 0x7e then 0x02 else 0x01);
                Some (b2, p + 2) })"

fun cat_head :: "nat \<Rightarrow> byte list \<Rightarrow> byte \<Rightarrow> outbuf \<Rightarrow> (byte \<times> outbuf) option" where
  "cat_head i [] hex_checkout st = Some (hex_checkout, st)"
| "cat_head i (c # cs) hex_checkout st =
     do { st' \<leftarrow> put_esc c st;
          cat_head (Suc i) cs (if i = 0 then c else hex_checkout XOR c) st' }"

fun cat_body :: "byte list \<Rightarrow> byte \<Rightarrow> outbuf \<Rightarrow> (byte \<times> outbuf) option" where
  "cat_body [] hex_checkout st = Some (hex_checkout, st)"
| "cat_body (c # cs) hex_checkout st =
     do { st' \<leftarrow> put_esc c st; cat_body cs (hex_checkout XOR c) st' }"

text \<open>\<open>_contentcat\<close> with a successful \<open>malloc\<close>: the block has twice the header, the body and ten
  more bytes.\<close>

definition contentcat :: "cli_head \<Rightarrow> cbuf \<Rightarrow> (cbuf \<times> int) option" where
  "contentcat h body =
     do { s \<leftarrow> cstr body;
          b \<leftarrow> wr (replicate (2 * length (head_bytes h) + length s + 10) 0) 0 0x7e;
          (chk, st) \<leftarrow> cat_head 0 (head_bytes h) 0 (b, 1);
          (chk', st') \<leftarrow> cat_body s chk st;
          (b', p) \<leftarrow> put_esc chk' st';
          b'' \<leftarrow> wr b' p 0x7e;
          Some (b'', int p + 1) }"

text \<open>The client's global \<open>tcp_handle\<close>, and \<open>_build_payload\<close>, which stamps its header.\<close>

record tcp_client =
  host :: "byte list"
  port :: int
  max_size :: int
  auth :: cbuf
  own_id :: cbuf
  head :: cli_head

definition set_head :: "16 word \<Rightarrow> byte list \<Rightarrow> tcp_client \<Rightarrow> tcp_client" where
  "set_head c s th = th\<lparr>head := (head th)\<lparr>cmd := bswap16 c, htype := 1,
     hlen := bswap16 (of_nat (2 * length s))\<rparr>\<rparr>"

definition build_payload ::
  "16 word \<Rightarrow> cbuf \<Rightarrow> tcp_client \<Rightarrow> (cbuf \<times> int \<times> tcp_client) option" where
  "build_payload c data th =
     do { s \<leftarrow> cstr data;
          let th1 = set_head c s th;
          (body, len) \<leftarrow> contentcat (head th1) data;
          Some (body, len, th1) }"

section \<open>Removing the escapes\<close>

text \<open>\<open>cf_loop n e ptr p_mv b\<close> is the loop of \<open>change_flag\<close> with \<open>n\<close> bytes to go; the flag in the
  result is False on an escape error.\<close>

fun cf_loop :: "nat \<Rightarrow> bool \<Rightarrow> nat \<Rightarrow> nat \<Rightarrow> cbuf \<Rightarrow> (bool \<times> nat \<times> cbuf) option" where
  "cf_loop 0 escape ptr p_mv b = Some (True, ptr, b)"
| "cf_loop (Suc n) escape ptr p_mv b =
     do { c \<leftarrow> rd b p_mv;
          if escape
          then (if c = 0x01 \<or> c = 0x02
                then do { b' \<leftarrow> wr b ptr (c + 0x7c);
                          cf_loop n False (Suc ptr) (Suc p_mv) b' }
                else Some (False, ptr, b))
          else if c = 0x7d then cf_loop n True ptr (Suc p_mv) b
          else do { b' \<leftarrow> wr b ptr c; cf_loop n False (Suc ptr) (Suc p_mv) b' } }"

definition change_flag :: "cbuf \<Rightarrow> int \<Rightarrow> (int \<times> cbuf) option" where
  "change_flag des sz =
     (if sz \<le> 0 then Some (-1, des)
      else do {
        (ok, ptr, b) \<leftarrow> cf_loop (nat sz) False 0 0 des;
        if ok
        then do { b' \<leftarrow> bset b ptr (nat sz - ptr) 0; Some (sz - int ptr, b') }
        else Some (-1, b) })"

section \<open>Cutting a frame from the receive buffer\<close>

definition seperate_buf ::
  "int \<Rightarrow> cbuf \<Rightarrow> cli_head \<Rightarrow> cbuf \<Rightarrow> (int \<times> cbuf \<times> cli_head \<times> cbuf) option" where
  "seperate_buf len buf hd0 body =
     (if len \<le> 0 then Some (-1, buf, hd0, body)
      else do {
        k \<leftarrow> find_byte 0x7e buf;
        let p = Suc k;
        let len1 = len - int p;
        if len1 \<le> 0 then Some (-1, buf, hd0, body)
        else do {
          (removed, buf1) \<leftarrow> change_flag buf len1;
          if len1 - removed \<le> 0 then Some (-1, buf1, hd0, body)
          else do {
            hb \<leftarrow> bget buf1 p 15;
            let h = head_of hb;
            let h1 = h\<lparr>cmd := bswap16 (cmd h), hlen := bswap16 (hlen h)\<rparr>;
            s \<leftarrow> cstr (drop (p + 15) buf1);
            body1 \<leftarrow> strcpy body s;
            e \<leftarrow> find_byte 0x7e (drop p buf1);
            Some (int (p + e) + 1, buf1, h1, body1) } } })"

section \<open>The code as a stuffing code\<close>

fun esc1 :: "byte \<Rightarrow> byte list" where
  "esc1 c = (if c = 0x7e then [0x7d, 0x02] else if c = 0x7d then [0x7d, 0x01] else [c])"

definition esc :: "byte list \<Rightarrow> byte list" where
  "esc xs = concat (map esc1 xs)"

text \<open>What \<open>change_flag\<close> accepts: an escape pair decodes to its byte, a lone escape at the end is
  dropped silently, any other escape is an error.\<close>

fun unesc :: "byte list \<Rightarrow> byte list option" where
  "unesc [] = Some []"
| "unesc [c] = (if c = 0x7d then Some [] else Some [c])"
| "unesc (c # d # cs) =
     (if c = 0x7d
      then (if d = 0x01 \<or> d = 0x02 then map_option ((#) (d + 0x7c)) (unesc cs) else None)
      else map_option ((#) c) (unesc (d # cs)))"

definition to_escape :: "byte \<Rightarrow> bool" where
  "to_escape c = (c = 0x7e \<or> c = 0x7d)"

definition escapes :: "byte list \<Rightarrow> nat" where
  "escapes xs = length (filter to_escape xs)"

definition content :: "cli_head \<Rightarrow> byte list \<Rightarrow> byte list" where
  "content h s = head_bytes h @ s @ [xor_check (head_bytes h @ s)]"

definition frame :: "cli_head \<Rightarrow> byte list \<Rightarrow> byte list" where
  "frame h s = 0x7e # esc (content h s) @ [0x7e]"

lemma esc_Nil [simp]: "esc [] = []"
  by (simp add: esc_def)

lemma esc_Cons: "esc (c # cs) = esc1 c @ esc cs"
  by (simp add: esc_def)

lemma esc_append [simp]: "esc (xs @ ys) = esc xs @ esc ys"
  by (simp add: esc_def)

lemma unesc_other: "c \<noteq> 0x7d \<Longrightarrow> unesc (c # cs) = map_option ((#) c) (unesc cs)"
  by (cases cs) auto

lemma unesc_esc: "unesc (esc xs) = Some xs"
  by (induction xs) (auto simp: esc_Cons unesc_other)

lemma flag_not_esc: "0x7e \<notin> set (esc xs)"
  by (induction xs) (auto simp: esc_Cons)

lemma length_esc: "length (esc xs) = length xs + escapes xs"
  by (induction xs) (auto simp: esc_Cons escapes_def to_escape_def)

interpretation cloud_code: byte_stuffing "0x7e" esc unesc
  by unfold_locales (auto simp: unesc_esc flag_not_esc)

lemma escapes_append [simp]: "escapes (xs @ ys) = escapes xs + escapes ys"
  by (simp add: escapes_def)

lemma length_frame: "head_ok h \<Longrightarrow> length (frame h s) = length s + 18 + escapes (content h s)"
  by (simp add: frame_def length_esc content_def)

section \<open>The builder\<close>

text \<open>The loops append to what is already written, and fail exactly when the block is full.\<close>

definition out_at :: "nat \<Rightarrow> byte list \<Rightarrow> outbuf" where
  "out_at n out = (out @ replicate (n - length out) 0, length out)"

lemma put_esc_spec:
  assumes "length out \<le> n"
  shows "put_esc c (out_at n out) =
    (if length (out @ esc1 c) \<le> n then Some (out_at n (out @ esc1 c)) else None)"
proof -
  have 1: "replicate (n - length out) 0 = 0 # replicate (n - Suc (length out)) (0 :: byte)"
    if "length out < n"
    using that by (simp add: Suc_diff_Suc [symmetric] flip: replicate_Suc)
  have 2: "replicate (n - length out) 0 = 0 # 0 # replicate (n - Suc (Suc (length out))) (0 :: byte)"
    if "Suc (length out) < n"
    using that by (simp add: Suc_diff_Suc [symmetric] flip: replicate_Suc)
  show ?thesis
    using assms 1 2
    by (auto simp: out_at_def wr_def list_update_append nth_append split: nat.splits)
qed

lemma snd_out_at [simp]: "snd (out_at n out) = length out"
  by (simp add: out_at_def)

declare put_esc.simps [simp del]

lemma cat_body_spec:
  "length out \<le> n \<Longrightarrow> cat_body s chk (out_at n out) =
    (if length (out @ esc s) \<le> n
     then Some (chk XOR xor_check s, out_at n (out @ esc s)) else None)"
proof (induction s arbitrary: chk out)
  case (Cons c s)
  then show ?case by (auto simp: put_esc_spec esc_Cons xor_check_Cons xor.assoc)
qed simp

lemma cat_head_Suc: "cat_head (Suc i) s chk = cat_body s chk"
  by (induction s arbitrary: i chk) (auto intro!: ext)

lemma cat_head_0: "cat_head 0 (c # cs) chk st = cat_body (c # cs) 0 st"
  by (simp add: cat_head_Suc)

lemma contentcat_spec:
  assumes "head_ok h" "0 \<notin> set s"
  shows "contentcat h (s @ 0 # post) =
    (if escapes (content h s) \<le> 22
     then Some (frame h s @ replicate (22 - escapes (content h s)) 0, int (length (frame h s)))
     else None)"
proof -
  let ?n = "length s + 40" and ?hb = "head_bytes h"
  let ?chk = "xor_check (?hb @ s)"
  obtain c cs where hb: "?hb = c # cs"
    using assms(1) by (cases ?hb) (auto dest: length_head_bytes)
  have n: "2 * length ?hb + length s + 10 = Suc (length s + 39)" using assms(1) by simp
  have start: "wr (replicate (2 * length ?hb + length s + 10) 0) 0 0x7e
        = Some (fst (out_at ?n [0x7e]))"
      "(fst (out_at ?n [0x7e]), 1) = out_at ?n [0x7e]"
    unfolding n by (simp_all only: wr_def replicate_Suc) (simp_all add: out_at_def add.commute)
  have head: "cat_head 0 ?hb 0 (out_at ?n [0x7e]) = Some (xor_check ?hb, out_at ?n (0x7e # esc ?hb))"
    if "length (esc ?hb) < ?n"
    using that cat_body_spec [of "[0x7e]" ?n ?hb 0]
    unfolding hb cat_head_0 by (simp del: cat_body.simps)
  have headN: "cat_head 0 ?hb 0 (out_at ?n [0x7e]) = None" if "\<not> length (esc ?hb) < ?n"
    using that cat_body_spec [of "[0x7e]" ?n ?hb 0]
    unfolding hb cat_head_0 by (simp del: cat_body.simps)
  have body: "cat_body s (xor_check ?hb) (out_at ?n (0x7e # esc ?hb)) =
      (if length (esc (?hb @ s)) < ?n then Some (?chk, out_at ?n (0x7e # esc (?hb @ s))) else None)"
    if "length (esc ?hb) < ?n"
    using that cat_body_spec [of "0x7e # esc ?hb" ?n s "xor_check ?hb"] by simp
  have chk: "put_esc ?chk (out_at ?n (0x7e # esc (?hb @ s))) =
      (if length (esc (content h s)) < ?n then Some (out_at ?n (0x7e # esc (content h s))) else None)"
    if "length (esc (?hb @ s)) < ?n"
    using that put_esc_spec [of "0x7e # esc (?hb @ s)" ?n ?chk]
    by (simp add: content_def esc_Cons)
  have len: "length (esc (content h s)) = length s + 16 + escapes (content h s)"
    using assms(1) by (simp add: length_esc content_def)
  have fin: "wr (fst (out_at ?n (0x7e # esc (content h s)))) (Suc (length (esc (content h s)))) 0x7e =
     (if escapes (content h s) \<le> 22
      then Some (frame h s @ replicate (22 - escapes (content h s)) 0) else None)"
    using len by (auto simp: out_at_def wr_def frame_def list_update_append nth_append
        Suc_diff_le split: nat.splits)
  have mono: "length (esc ?hb) \<le> length (esc (?hb @ s))"
      "length (esc (?hb @ s)) \<le> length (esc (content h s))"
    by (simp_all add: content_def)
  show ?thesis
  proof (cases "length (esc (content h s)) < ?n")
    case True
    then have l1: "length (esc ?hb) < ?n" "length (esc (?hb @ s)) < ?n" using mono by linarith+
    show ?thesis
      unfolding contentcat_def
      using True l1 start head body chk fin assms(2) length_frame [OF assms(1), of s] len
      by (simp add: cstr_append case_prod_beta del: esc_append xor_check_append)
  next
    case False
    then have "\<not> escapes (content h s) \<le> 22" using len by linarith
    then show ?thesis
      unfolding contentcat_def
      using False start head headN body chk assms(2)
      by (cases "length (esc ?hb) < ?n"; cases "length (esc (?hb @ s)) < ?n")
        (simp_all add: cstr_append del: esc_append xor_check_append)
  qed
qed

section \<open>Removing the escapes, in place\<close>

text \<open>The loop with \<open>ys\<close> decoded, a gap of stale bytes \<open>mid\<close> and \<open>xs\<close> still to read.\<close>

lemma wr_gap:
  assumes "gap \<noteq> []"
  shows "wr (ys @ gap @ r) (length ys) v = Some ((ys @ [v]) @ tl gap @ r)"
  using assms wr_append [of ys "hd gap" "tl gap @ r" v] by (cases gap) auto

lemma rd_gap: "rd (ys @ mid @ c # r) (length ys + length mid) = Some c"
  using rd_append [of "ys @ mid" c r] by simp

lemma cf_copy:
  assumes "c \<noteq> 0x7d"
  shows "cf_loop (Suc n) False (length ys) (length ys + length mid) (ys @ mid @ c # r)
     = cf_loop n False (length (ys @ [c])) (length (ys @ [c]) + length (tl (mid @ [c])))
         ((ys @ [c]) @ tl (mid @ [c]) @ r)"
  using assms wr_gap [of "mid @ [c]" ys r c] rd_gap [of ys mid c r] by simp

lemma cf_open:
  "cf_loop (Suc n) False (length ys) (length ys + length mid) (ys @ mid @ 0x7d # r)
     = cf_loop n True (length ys) (length ys + length (mid @ [0x7d])) (ys @ (mid @ [0x7d]) @ r)"
  using rd_gap [of ys mid "0x7d" r] by simp

lemma cf_close:
  assumes "d = 0x01 \<or> d = 0x02"
  shows "cf_loop (Suc n) True (length ys) (length ys + length mid) (ys @ mid @ d # r)
     = cf_loop n False (length (ys @ [d + 0x7c]))
         (length (ys @ [d + 0x7c]) + length (tl (mid @ [d])))
         ((ys @ [d + 0x7c]) @ tl (mid @ [d]) @ r)"
  using assms wr_gap [of "mid @ [d]" ys r "d + 0x7c"] rd_gap [of ys mid d r] by auto

lemma cf_bad:
  assumes "\<not> (d = 0x01 \<or> d = 0x02)"
  shows "cf_loop (Suc n) True (length ys) (length ys + length mid) (ys @ mid @ d # r)
     = Some (False, length ys, ys @ mid @ d # r)"
  using assms rd_gap [of ys mid d r] by simp

declare cf_loop.simps(2) [simp del]

lemma cf_loop_ok:
  "unesc xs = Some zs \<Longrightarrow> \<exists>mid'. length mid' + length zs = length mid + length xs \<and>
     cf_loop (length xs) False (length ys) (length ys + length mid) (ys @ mid @ xs @ post)
       = Some (True, length (ys @ zs), (ys @ zs) @ mid' @ post)"
proof (induction xs arbitrary: ys mid zs rule: unesc.induct)
  case 1
  then show ?case by auto
next
  case (2 c)
  then show ?case
    using cf_copy [of c 0 ys mid post] cf_open [of 0 ys mid post]
    by (cases "c = 0x7d") (fastforce intro: exI [of _ "mid @ [0x7d]"] exI [of _ "tl (mid @ [c])"])+
next
  case (3 c d cs)
  show ?case
  proof (cases "c = 0x7d")
    case True
    with "3.prems" obtain zs' where d: "d = 0x01 \<or> d = 0x02" "unesc cs = Some zs'"
        "zs = (d + 0x7c) # zs'"
      by (auto split: if_splits)
    let ?ys = "ys @ [d + 0x7c]" and ?mid = "tl ((mid @ [0x7d]) @ [d])"
    obtain mid' where "length mid' + length zs' = length ?mid + length cs"
        "cf_loop (length cs) False (length ?ys) (length ?ys + length ?mid) (?ys @ ?mid @ cs @ post)
       = Some (True, length (?ys @ zs'), (?ys @ zs') @ mid' @ post)"
      using "3.IH"(1) [OF True d(1,2)] by blast
    then show ?thesis
      using True d cf_open [of "Suc (length cs)" ys mid "d # cs @ post"]
        cf_close [of d "length cs" ys "mid @ [0x7d]" "cs @ post"]
      by (intro exI [of _ mid']) simp
  next
    case False
    with "3.prems" obtain zs' where d: "unesc (d # cs) = Some zs'" "zs = c # zs'"
      by auto
    let ?ys = "ys @ [c]" and ?mid = "tl (mid @ [c])"
    obtain mid' where "length mid' + length zs' = length ?mid + length (d # cs)"
        "cf_loop (length (d # cs)) False (length ?ys) (length ?ys + length ?mid)
           (?ys @ ?mid @ (d # cs) @ post)
       = Some (True, length (?ys @ zs'), (?ys @ zs') @ mid' @ post)"
      using "3.IH"(2) [OF False d(1)] by blast
    then show ?thesis
      using False d cf_copy [of c "length (d # cs)" ys mid "(d # cs) @ post"]
      by (intro exI [of _ mid']) simp
  qed
qed

lemma cf_loop_error:
  "unesc xs = None \<Longrightarrow> \<exists>p b.
     cf_loop (length xs) False (length ys) (length ys + length mid) (ys @ mid @ xs @ post)
       = Some (False, p, b)"
proof (induction xs arbitrary: ys mid rule: unesc.induct)
  case (3 c d cs)
  show ?case
  proof (cases "c = 0x7d")
    case True
    show ?thesis
    proof (cases "d = 0x01 \<or> d = 0x02")
      case d: True
      with True "3.prems" have "unesc cs = None" by auto
      from "3.IH"(1) [OF True d this, of "ys @ [d + 0x7c]" "tl ((mid @ [0x7d]) @ [d])"]
      show ?thesis
        using True d cf_open [of "Suc (length cs)" ys mid "d # cs @ post"]
          cf_close [of d "length cs" ys "mid @ [0x7d]" "cs @ post"] by simp
    next
      case False
      then show ?thesis
        using True cf_open [of "Suc (length cs)" ys mid "d # cs @ post"]
          cf_bad [of d "length cs" ys "mid @ [0x7d]" "cs @ post"] by simp
    qed
  next
    case False
    with "3.prems" have "unesc (d # cs) = None" by auto
    from "3.IH"(2) [OF False this, of "ys @ [c]" "tl (mid @ [c])"]
    show ?thesis
      using False cf_copy [of c "length (d # cs)" ys mid "(d # cs) @ post"] by simp
  qed
qed (auto split: if_splits)

lemma unesc_shorter: "unesc xs = Some zs \<Longrightarrow> length zs \<le> length xs"
  using cf_loop_ok [of xs zs "[]" "[]" "[]"] by auto

lemma change_flag_spec:
  assumes "xs \<noteq> []"
  shows "case unesc xs of
      Some zs \<Rightarrow> change_flag (xs @ post) (int (length xs)) =
        Some (int (length xs) - int (length zs),
              zs @ replicate (length xs - length zs) 0 @ post)
    | None \<Rightarrow> \<exists>b. change_flag (xs @ post) (int (length xs)) = Some (-1, b)"
proof (cases "unesc xs")
  case None
  then show ?thesis
    using assms cf_loop_error [of xs "[]" "[]" post] by (auto simp: change_flag_def)
next
  case (Some zs)
  then obtain mid where m: "length mid + length zs = length xs"
      "cf_loop (length xs) False 0 0 (xs @ post) = Some (True, length zs, zs @ mid @ post)"
    using cf_loop_ok [of xs zs "[]" "[]" post] by auto
  then have "bset (zs @ mid @ post) (length zs) (length xs - length zs) 0
      = Some (zs @ replicate (length xs - length zs) 0 @ post)"
    by (intro bset_append) simp
  with m assms Some show ?thesis by (simp add: change_flag_def)
qed

section \<open>What the receiver makes of a frame\<close>

definition swapped :: "cli_head \<Rightarrow> cli_head" where
  "swapped h = h\<lparr>cmd := bswap16 (cmd h), hlen := bswap16 (hlen h)\<rparr>"

definition body_check :: "cli_head \<Rightarrow> byte list \<Rightarrow> byte" where
  "body_check h s = xor_check (head_bytes h @ s)"

text \<open>The receive buffer after \<open>change_flag\<close>: the content, as many zeros as escapes were removed,
  and the closing flag, which was outside the range.\<close>

definition opened :: "cli_head \<Rightarrow> byte list \<Rightarrow> byte list" where
  "opened h s = content h s @ replicate (escapes (content h s)) 0 @ [0x7e]"

lemma length_opened: "head_ok h \<Longrightarrow> Suc (length (opened h s)) = length (frame h s)"
  by (simp add: opened_def length_frame) (simp add: content_def)

lemma change_flag_frame:
  "change_flag (frame h s @ z) (int (length (frame h s)) - 1) =
     Some (int (escapes (content h s)), 0x7e # opened h s @ z)"
proof -
  let ?xs = "0x7e # esc (content h s)"
  have u: "unesc ?xs = Some (0x7e # content h s)" by (simp add: unesc_other unesc_esc)
  have l: "length ?xs - length (0x7e # content h s) = escapes (content h s)"
    by (simp add: length_esc)
  show ?thesis
    using change_flag_spec [of ?xs "0x7e # z"] u l
    by (simp add: frame_def opened_def length_esc)
qed

lemma seperate_frame:
  assumes "head_ok h" "cstr (drop 15 (opened h s @ z)) = Some str" "strcpy body str = Some body'"
    "find_byte 0x7e (opened h s @ z) = Some e"
  shows "seperate_buf (int (length (frame h s))) (frame h s @ z) h0 body
     = Some (int e + 2, 0x7e # opened h s @ z, swapped h, body')"
proof -
  have fl: "length (frame h s) = length s + 18 + escapes (content h s)"
    using assms(1) by (rule length_frame)
  have k: "find_byte 0x7e (frame h s @ z) = Some 0" by (simp add: frame_def)
  have hb: "bget (0x7e # opened h s @ z) 1 15 = Some (head_bytes h)"
    using assms(1) by (simp add: bget_def opened_def content_def)
  show ?thesis
    using assms(2-4) hb fl change_flag_frame [of h s z]
    by (simp add: seperate_buf_def k swapped_def)
qed

lemma find_flag_opened: "0x7e \<notin> set (content h s) \<Longrightarrow>
    find_byte 0x7e (opened h s @ z) = Some (length (opened h s) - 1)"
  using find_byte_prefix [of "0x7e" "content h s @ replicate (escapes (content h s)) 0" z]
  by (simp add: opened_def)

lemma cstr_opened:
  assumes "head_ok h" "0 \<notin> set s"
  shows "cstr (drop 15 (opened h s @ 0 # z)) = Some (
     if body_check h s = 0 then s
     else if escapes (content h s) = 0 then s @ [body_check h s, 0x7e]
     else s @ [body_check h s])"
proof -
  have d: "drop 15 (opened h s @ 0 # z)
      = s @ body_check h s # replicate (escapes (content h s)) 0 @ 0x7e # 0 # z"
    using assms(1) by (simp add: opened_def content_def body_check_def)
  have a: "cstr (s @ 0 # r) = Some s" for r using assms(2) by (rule cstr_append)
  have b: "cstr (s @ c # 0 # r) = Some (s @ [c])" if "c \<noteq> 0" for c r
    using assms(2) that cstr_append [of "s @ [c]" r] by simp
  have c: "cstr (s @ c # 0x7e # 0 # r) = Some (s @ [c, 0x7e])" if "c \<noteq> 0" for c r
    using assms(2) that cstr_append [of "s @ [c, 0x7e]" r] by simp
  show ?thesis unfolding d using a b c by (cases "escapes (content h s)") auto
qed

lemma build_payload_spec:
  assumes "head_ok (head th)" "0 \<notin> set s"
  shows "build_payload c (s @ 0 # post) th =
    (let h = head (set_head c s th) in
     if escapes (content h s) \<le> 22
     then Some (frame h s @ replicate (22 - escapes (content h s)) 0,
                int (length (frame h s)), set_head c s th)
     else None)"
proof -
  have "head_ok (head (set_head c s th))" using assms(1) by (simp add: set_head_def head_ok_def)
  from contentcat_spec [OF this assms(2), of post] show ?thesis
    using assms(2) by (simp add: build_payload_def cstr_append Let_def)
qed

text \<open>C17: The heap block of \<open>_build_payload\<close> overflows exactly when more than 22 bytes of header, body
  and check need an escape.\<close>

lemma build_payload_overflow_iff:
  assumes "head_ok (head th)" "0 \<notin> set s"
  shows "build_payload c (s @ 0 # post) th = None
     \<longleftrightarrow> escapes (content (head (set_head c s th)) s) > 22"
  by (auto simp: build_payload_spec [OF assms] Let_def)

lemma seperate_whole:
  assumes "head_ok h" "0 \<notin> set s" "0x7e \<notin> set (content h s)" "length s + 2 < length body"
  shows "\<exists>body' tail. seperate_buf (int (length (frame h s))) (frame h s @ 0 # z) h0 body
      = Some (int (length (frame h s)), 0x7e # opened h s @ 0 # z, swapped h, body') \<and>
    length body' = length body \<and> cstr body' = Some (s @ tail) \<and> length tail \<le> 2"
proof -
  obtain str where str: "cstr (drop 15 (opened h s @ 0 # z)) = Some str"
      "\<exists>tail. str = s @ tail \<and> length tail \<le> 2"
    using cstr_opened [OF assms(1,2), of z] by (auto split: if_splits)
  then have len: "length str < length body" using assms(4) by auto
  have z: "0 \<notin> set str" using str(1) by (blast dest: cstr_SomeD)
  obtain body' where b: "strcpy body str = Some body'" using strcpy_Some [OF len] by blast
  have "find_byte 0x7e (opened h s @ 0 # z) = Some (length (opened h s) - 1)"
    using assms(3) by (intro find_flag_opened) simp
  from seperate_frame [OF assms(1) str(1) b this, of h0]
  have "seperate_buf (int (length (frame h s))) (frame h s @ 0 # z) h0 body
      = Some (int (length (frame h s)), 0x7e # opened h s @ 0 # z, swapped h, body')"
    using length_opened [OF assms(1), of s] by (simp add: opened_def)
  then show ?thesis
    using strcpy_cstr [OF b z] str(2) bput_length b unfolding strcpy_def by metis
qed


text \<open>A flag inside the content ends the frame early: the receiver keeps the tail of the frame in
  its buffer and takes it for the next one.\<close>

lemma receive_cut_short:
  assumes "head_ok h" "0 \<notin> set s" "content h s = c1 @ 0x7e # c2" "0x7e \<notin> set c1"
    and room: "length s + 2 < length body"
  shows "\<exists>buf1 body'.
     seperate_buf (int (length (frame h s))) (frame h s @ 0 # z) h0 body
       = Some (int (length c1) + 2, buf1, swapped h, body') \<and>
     length c1 + 2 < length (frame h s)"
proof -
  obtain str where str: "cstr (drop 15 (opened h s @ 0 # z)) = Some str"
      "\<exists>tail. str = s @ tail \<and> length tail \<le> 2"
    using cstr_opened [OF assms(1,2), of z] by (auto split: if_splits)
  then have len: "length str < length body" using room by auto
  then obtain body' where b: "strcpy body str = Some body'" using strcpy_Some by blast
  have "find_byte 0x7e (opened h s @ 0 # z) = Some (length c1)"
    using assms(3,4) find_byte_prefix [of "0x7e" c1] by (simp add: opened_def)
  from seperate_frame [OF assms(1) str(1) b this, of h0]
  show ?thesis
    using length_opened [OF assms(1), of s] assms(3) by (simp add: opened_def)
qed

text \<open>\<open>change_flag\<close> inverts the escaping in place: it leaves the original bytes followed by one
  zero for every escape, returns the number of escapes, and touches nothing after the range.\<close>

theorem change_flag_inverts:
  assumes "xs \<noteq> []"
  shows "change_flag (esc xs @ post) (int (length (esc xs)))
     = Some (int (escapes xs), xs @ replicate (escapes xs) 0 @ post)"
proof -
  have "esc xs \<noteq> []" using assms by (cases xs) (auto simp: esc_Cons)
  from change_flag_spec [OF this, of post] show ?thesis
    by (simp add: unesc_esc length_esc)
qed

text \<open>A byte stream starts with at most one cloud frame: header, body and remainder are
  determined by the bytes, because a flag inside a frame is always escaped.\<close>

theorem frame_unambiguous:
  assumes "head_ok h" "head_ok h'" "frame h s @ r = frame h' s' @ r'"
  shows "h = h' \<and> s = s' \<and> r = r'"
proof -
  have e: "content h s = content h' s'" "r = r'"
    using cloud_code.frame_unique [of "content h s" r "content h' s'" r'] assms(3)
    by (simp_all add: frame_def)
  then have "head_bytes h = head_bytes h'" "s = s'"
    using assms(1,2) by (auto simp: content_def)
  then show ?thesis using e(2) by (metis head_of_bytes)
qed

section \<open>Examples\<close>

definition ex_client :: tcp_client where
  "ex_client = \<lparr>host = [], port = 6666, max_size = 1024, auth = [], own_id = [],
     head = \<lparr>cmd = 0, htype = 0, hlen = 0, snd_id = replicate 10 0x31\<rparr>\<rparr>"

definition ex_block :: cbuf where
  "ex_block = [0x7e, 0, 0x10, 1, 0, 4, 0x31, 0x31, 0x31, 0x31, 0x31, 0x31, 0x31, 0x31, 0x31,
     0x31, 0x7b, 0x7d, 1, 0x13, 0x7e] @ replicate 21 0"


lemma receive_cut_short_witness:
  "\<exists>buf1 body'.
     seperate_buf (int (length (frame (head ex_client) [0x7e, 0x41])))
       (frame (head ex_client) [0x7e, 0x41] @ 0 # []) (head ex_client) (replicate 5 0)
       = Some (int (length (head_bytes (head ex_client))) + 2, buf1, swapped (head ex_client), body')"
proof -
  have 1: "head_ok (head ex_client)" "0 \<notin> set [0x7e, 0x41 :: byte]"
      "content (head ex_client) [0x7e, 0x41] = head_bytes (head ex_client) @ 0x7e # [0x41, 0x3f]"
      "0x7e \<notin> set (head_bytes (head ex_client))"
      "length [0x7e, 0x41 :: byte] + 2 < length (replicate 5 (0 :: byte))"
    by code_simp+
  show ?thesis using receive_cut_short [OF 1] by blast
qed

lemma build_payload_overflow_iff_witness:
  "build_payload 0x10 (replicate 23 0x7d @ 0 # []) ex_client = None"
proof -
  have 1: "head_ok (head ex_client)" "0 \<notin> set (replicate 23 (0x7d :: byte))"
    by code_simp+
  have "escapes (content (head (set_head 0x10 (replicate 23 0x7d) ex_client)) (replicate 23 0x7d)) > 22"
    by code_simp
  then show ?thesis using build_payload_overflow_iff [OF 1] by blast
qed

lemma change_flag_inverts_witness:
  "change_flag [0x41, 0x7d, 0x02, 0x42, 0x55] 4 = Some (1, [0x41, 0x7e, 0x42, 0, 0x55])"
  using change_flag_inverts [of "[0x41, 0x7e, 0x42]" "[0x55]"]
  by (simp add: esc_def escapes_def to_escape_def)

lemma frame_unambiguous_witness:
  "frame (head ex_client) [0x41] @ [0x42] = frame (head ex_client) [0x41] @ [0x42]
   \<and> [0x41 :: byte] = [0x41]"
proof -
  have "head_ok (head ex_client)" by code_simp
  then show ?thesis using frame_unambiguous [of "head ex_client" "head ex_client"] by blast
qed

end
