(* ===== verification/Json.thy ===== *)
theory Json
  imports Halo_Prelude
begin

text \<open>
  JSON values as the gateway sees them, and \<open>app/cjson_list.c\<close>, which cuts a text with several
  objects into a list of values. The parser is an argument of the functions that use it;
  \<open>Cjson_Facts\<close> applies them to the parser of \<open>app/cJSON.c\<close>.
\<close>

section \<open>Values\<close>

text \<open>A number is its \<open>valueint\<close>. Object members keep their order and may repeat.\<close>

datatype json =
    JFalse | JTrue | JNull | JNumber int | JString "byte list" | JArray "json list"
  | JObject "(byte list \<times> json) list"

text \<open>The field \<open>type\<close>, and the fields \<open>valueint\<close> and \<open>valuestring\<close>, which other constructors leave 0
  (a true value has a 1).\<close>

fun json_type :: "json \<Rightarrow> int" where
  "json_type JFalse = 0"
| "json_type JTrue = 1"
| "json_type JNull = 2"
| "json_type (JNumber _) = 3"
| "json_type (JString _) = 4"
| "json_type (JArray _) = 5"
| "json_type (JObject _) = 6"

fun valueint :: "json \<Rightarrow> int" where
  "valueint (JNumber n) = n"
| "valueint JTrue = 1"
| "valueint _ = 0"

fun valuestring :: "json \<Rightarrow> byte list option" where
  "valuestring (JString s) = Some s"
| "valuestring _ = None"

definition lower :: "byte \<Rightarrow> byte" where
  "lower c = (if 0x41 \<le> c \<and> c \<le> 0x5a then c + 0x20 else c)"

fun GetObjectItem :: "json \<Rightarrow> byte list \<Rightarrow> json option" where
  "GetObjectItem (JObject ms) k =
     map_option snd (List.find (\<lambda>(n, _). map lower n = map lower k) ms)"
| "GetObjectItem _ k = None"

fun AddItemToObject :: "byte list \<Rightarrow> json \<Rightarrow> json \<Rightarrow> json" where
  "AddItemToObject k v (JObject ms) = JObject (ms @ [(k, v)])"
| "AddItemToObject k v j = j"

definition jbool :: "int \<Rightarrow> json" where
  "jbool b = (if b \<noteq> 0 then JTrue else JFalse)"

lemma find_append_miss: "List.find P xs = None \<Longrightarrow> List.find P (xs @ ys) = List.find P ys"
  by (induction xs) (auto split: if_splits)

lemma GetObjectItem_add:
  assumes "GetObjectItem (JObject ms) k = None"
  shows "GetObjectItem (AddItemToObject k v (JObject ms)) k = Some v"
  using assms by (simp add: find_append_miss)

section \<open>Cutting a text into objects\<close>

text \<open>\<open>_next_json\<close>: the text behind the first object. The scanner counts braces outside quotes; it
  looks at every quote, also at an escaped one.\<close>

fun skip_object :: "nat \<Rightarrow> bool \<Rightarrow> byte list \<Rightarrow> byte list option" where
  "skip_object 0 quotes s = Some s"
| "skip_object (Suc floor) quotes [] = None"
| "skip_object (Suc floor) quotes (c # cs) =
     (if c = 0x7b then skip_object (if quotes then Suc floor else Suc (Suc floor)) quotes cs
      else if c = 0x7d then skip_object (if quotes then Suc floor else floor) quotes cs
      else if c = 0x22 then skip_object (Suc floor) (\<not> quotes) cs
      else skip_object (Suc floor) quotes cs)"

definition next_json :: "byte list \<Rightarrow> byte list option" where
  "next_json s =
     (case dropWhile (\<lambda>c. c \<noteq> 0x7b) s of [] \<Rightarrow> None | _ # cs \<Rightarrow> skip_object 1 False cs)"

lemma skip_object_length: "skip_object n q s = Some r \<Longrightarrow> length r \<le> length s"
  by (induction n q s rule: skip_object.induct) (auto split: if_splits)

lemma next_json_length:
  assumes "next_json s = Some r"
  shows "length r < length s"
proof -
  obtain c cs where d: "dropWhile (\<lambda>c. c \<noteq> 0x7b) s = c # cs" "skip_object 1 False cs = Some r"
    using assms by (auto simp: next_json_def split: list.splits)
  have "length (c # cs) \<le> length s" using length_dropWhile_le [of "\<lambda>c. c \<noteq> 0x7b" s] d(1) by simp
  with skip_object_length [OF d(2)] show ?thesis by simp
qed

function json_rest :: "(byte list \<Rightarrow> json option) \<Rightarrow> byte list \<Rightarrow> json list" where
  "json_rest parse s =
     (case next_json s of
        None \<Rightarrow> []
      | Some p \<Rightarrow> (case parse p of None \<Rightarrow> [] | Some item \<Rightarrow> item # json_rest parse p))"
  by auto
termination
  by (relation "measure (\<lambda>(_, s). length s)") (auto dest: next_json_length)

declare json_rest.simps [simp del]

text \<open>\<open>get_json_list\<close> on an empty list: its result and the values it appends.\<close>

definition get_json_list :: "(byte list \<Rightarrow> json option) \<Rightarrow> byte list \<Rightarrow> int \<times> json list" where
  "get_json_list parse s =
     (case parse s of None \<Rightarrow> (-1, []) | Some item \<Rightarrow> (0, item # json_rest parse s))"

definition check_json_string :: "byte list \<Rightarrow> int" where
  "check_json_string s = (if next_json s \<noteq> None then 1 else 0)"

section \<open>The cut\<close>

lemma skip_object_append: "skip_object n q s = Some r \<Longrightarrow> skip_object n q (s @ t) = Some (r @ t)"
  by (induction n q s rule: skip_object.induct) (auto split: if_splits)

lemma next_json_append:
  assumes "next_json s = Some r"
  shows "next_json (s @ t) = Some (r @ t)"
proof -
  obtain c cs where d: "dropWhile (\<lambda>c. c \<noteq> 0x7b) s = c # cs" "skip_object 1 False cs = Some r"
    using assms by (auto simp: next_json_def split: list.splits)
  then have "dropWhile (\<lambda>c. c \<noteq> 0x7b) (s @ t) = c # cs @ t"
    by (metis append_Cons dropWhile_append dropWhile_eq_Nil_conv list.distinct(1))
  with skip_object_append [OF d(2)] show ?thesis by (simp add: next_json_def)
qed

text \<open>A text made of objects one behind the other, each of which the scanner finds closed, comes
  back as the list of their values, for a parser that reads the first value of a text and
  reads nothing from an empty one.\<close>

theorem get_json_list_objects:
  assumes "ts \<noteq> []" "\<forall>(t, j) \<in> set ts. next_json t = Some [] \<and> (\<forall>r. parse (t @ r) = Some j)"
    "parse [] = None"
  shows "get_json_list parse (concat (map fst ts)) = (0, map snd ts)"
proof -
  obtain t j us where ts: "ts = (t, j) # us" using assms(1) by (cases ts) auto
  have "json_rest parse (u @ concat (map fst us)) = map snd us"
    if "next_json u = Some []" "set us \<subseteq> set ts" for u us
    using that
  proof (induction us arbitrary: u)
    case Nil
    then show ?case using assms(3) by (subst json_rest.simps) simp
  next
    case (Cons x us)
    obtain t' j' where x: "x = (t', j')" by (cases x)
    have "next_json (u @ concat (map fst (x # us))) = Some (concat (map fst (x # us)))"
      using next_json_append [OF Cons.prems(1)] by simp
    moreover have "parse (t' @ concat (map fst us)) = Some j'"
      using assms(2) Cons.prems(2) x by auto
    moreover have "json_rest parse (t' @ concat (map fst us)) = map snd us"
      using Cons.IH [of t'] Cons.prems(2) assms(2) x by auto
    ultimately show ?case using x by (subst json_rest.simps) simp
  qed
  then have "json_rest parse (t @ concat (map fst us)) = map snd us"
    using assms(2) ts by auto
  moreover have "parse (t @ concat (map fst us)) = Some j" using assms(2) ts by auto
  ultimately show ?thesis by (simp add: get_json_list_def ts)
qed

text \<open>What the scanner needs of a reader and a printer of objects: a printed object is cut off whole and
  read back, whatever follows, and nothing is read from nothing.\<close>

locale object_texts =
  fixes read :: "byte list \<Rightarrow> json option" and print :: "'v \<Rightarrow> byte list option"
    and view :: "'v \<Rightarrow> json" and good :: "'v \<Rightarrow> bool"
  assumes printed: "good v \<Longrightarrow> \<exists>t. print v = Some t \<and> next_json t = Some [] \<and> (\<forall>r. read (t @ r) = Some (view v))"
    and read_empty: "read [] = None"
begin

lemma texts_listed:
  assumes "vs \<noteq> []" "\<forall>v \<in> set vs. good v"
  shows "\<exists>ts. map print vs = map Some ts \<and> get_json_list read (concat ts) = (0, map view vs)"
proof -
  let ?ts = "map (\<lambda>v. (the (print v), view v)) vs"
  have p: "print v = Some (the (print v)) \<and> next_json (the (print v)) = Some [] \<and> (\<forall>r. read (the (print v) @ r) = Some (view v))"
    if "v \<in> set vs" for v
    using printed assms(2) that by (metis option.sel)
  have "get_json_list read (concat (map fst ?ts)) = (0, map snd ?ts)"
    by (rule get_json_list_objects) (use assms(1) p read_empty in auto)
  moreover have "map print vs = map Some (map (\<lambda>v. the (print v)) vs)" using p by simp
  ultimately show ?thesis by (intro exI [of _ "map (\<lambda>v. the (print v)) vs"]) (simp add: o_def)
qed

end

text \<open>A string with an escaped quote in front of a brace derails the cut: the text behind the
  object starts inside of its string.\<close>

theorem escaped_quote_derails:
  "next_json (bytes ''{\"a\":\"'' @ [0x5c, 0x22] @ bytes ''}\"}'' @ r) = Some (bytes ''\"}'' @ r)"
  by (simp add: bytes_def next_json_def)

definition ex_parse :: "byte list \<Rightarrow> json option" where
  "ex_parse s =
     (if starts_with (bytes ''{\"a\":1}'') s then Some (JObject [(bytes ''a'', JNumber 1)])
      else if starts_with (bytes ''{\"b\":{}}'') s then Some (JObject [(bytes ''b'', JObject [])])
      else None)"

lemma get_json_list_objects_witness:
  "get_json_list ex_parse (bytes ''{\"a\":1}{\"b\":{}}'') =
     (0, [JObject [(bytes ''a'', JNumber 1)], JObject [(bytes ''b'', JObject [])]])"
proof -
  let ?ts = "[(bytes ''{\"a\":1}'', JObject [(bytes ''a'', JNumber 1)]),
    (bytes ''{\"b\":{}}'', JObject [(bytes ''b'', JObject [])])]"
  have "get_json_list ex_parse (concat (map fst ?ts)) = (0, map snd ?ts)"
    by (rule get_json_list_objects) (simp_all add: next_json_def bytes_def ex_parse_def)
  then show ?thesis by (simp add: bytes_def)
qed

end
