(* ===== verification/Halo_Types.thy ===== *)
theory Halo_Types
  imports Halo_Lists Cloud_Frame Json
begin

text \<open>
  The data of the gateway. Its own structs come from \<open>app/common.h\<close>; the interfaces it is built
  on (the player service, the configuration store, the message bus, sockets) are a record of
  functions on an abstract environment, which every operation that uses them takes as an
  argument. The state of a run is one record: the environment and every global or static
  variable of the program.
\<close>

section \<open>The player service\<close>

text \<open>The enumerations of the player's interface that the gateway names; other values are kept as
  numbers.\<close>

datatype play_mode =
    MODE_NULL | MODE_PLAYLIST | MODE_BT | MODE_SAIR | MODE_AIMUSIC | MODE_CLOUDMUSIC | MODE_LOCAL | MODE_LINEIN
  | MODE_OTHER int

datatype play_state = STATUS_PLAYING | STATUS_PAUSE | STATUS_STOP | STATUS_OTHER int

datatype play_loop =
    LOOP_SHUFFLE | LOOP_ALL | LOOP_ONE | LOOP_SEQ | LOOP_ONLY_ONE | LOOP_OTHER int

datatype play_eq = EQ_CLASSIC | EQ_POP | EQ_DANCE | EQ_HIPHOP | EQ_NORMAL | EQ_ROCK | EQ_OTHER int

record splayer_status =
  ps_mode :: play_mode
  ps_status :: play_state
  ps_loop :: play_loop
  ps_volume :: int
  ps_index :: int
  ps_time :: int
  ps_eq :: play_eq

record splayer_info =
  si_title :: "byte list"
  si_uri :: "byte list"
  si_album :: "byte list"
  si_author :: "byte list"
  si_total :: int

datatype cfg_key =
    CFG_RS485_ADDR | CFG_MUSIC_LIST_MODE | CFG_MAIN_DISK | CFG_HALO_SERVER_VERSION
  | CFG_HREG_AUTH | CFG_HREG_REF | CFG_HREG_REF_ORI | CFG_HREG_SID | CFG_HREG_MAC
  | CFG_AI_SN | CFG_AI_UUID | CFG_APP_SUPPORT_EXT_MUSIC | CFG_SIFANGYUEKU_PATH | CFG_LANMANZHIYU_PATH
  | CFG_WENXINSHIKE_PATH | CFG_JIZHIHAIFAN_PATH | CFG_JINGMISHIGUANG_PATH | CFG_HUIYIJINGDIAN_PATH | CFG_KEY byte

datatype app_msg_type =
    MSG_MUSIC_SCENE_CHANGE | MSG_RS485_HALT | MSG_HOPE_PLAY_LIST | MSG_TYPE int

record app_msg =
  am_type :: app_msg_type
  am_content :: "byte list"

text \<open>The tags of a music file.\<close>

record id3_info =
  id_title :: "byte list"
  id_album :: "byte list"
  id_author :: "byte list"

text \<open>The calls that leave the program. A call returns its result and the environment it leaves;
  \<open>splayer_get_status\<close> and \<open>get_config\<close> only read, and \<open>get_config\<close> is None where the key is not
  stored, which leaves the caller's variable alone. \<open>local_tag\<close> is the value of
  \<open>HOPE_PRO_LOCAL_MUSIC\<close>, a constant of a header outside the repository, and so are the numbers of
  the disks (\<open>HOTPLUGIN_DEV_TYPE_LOCAL\<close> and the other two) and \<open>CFG_MAX_BUFF_LENGTH\<close>. A handle of the
  media service is a number, 0 for the null pointer.\<close>

record 'e platform =
  splayer_get_status :: "'e \<Rightarrow> int \<times> splayer_status"
  splayer_play :: "'e \<Rightarrow> int \<times> 'e"
  splayer_pause :: "'e \<Rightarrow> int \<times> 'e"
  splayer_resume :: "'e \<Rightarrow> int \<times> 'e"
  splayer_stop :: "'e \<Rightarrow> int \<times> 'e"
  splayer_next :: "'e \<Rightarrow> int \<times> 'e"
  splayer_prev :: "'e \<Rightarrow> int \<times> 'e"
  splayer_seek :: "int \<Rightarrow> 'e \<Rightarrow> int \<times> 'e"
  splayer_set_volume :: "int \<Rightarrow> 'e \<Rightarrow> int \<times> 'e"
  splayer_set_index :: "int \<Rightarrow> 'e \<Rightarrow> int \<times> 'e"
  splayer_set_mode :: "play_mode \<Rightarrow> 'e \<Rightarrow> int \<times> 'e"
  splayer_set_loop_mode :: "play_loop \<Rightarrow> 'e \<Rightarrow> int \<times> 'e"
  splayer_set_file :: "byte list \<Rightarrow> 'e \<Rightarrow> int \<times> 'e"
  get_config :: "cfg_key \<Rightarrow> 'e \<Rightarrow> int option"
  set_config :: "cfg_key \<Rightarrow> int \<Rightarrow> 'e \<Rightarrow> int \<times> 'e"
  get_config_mem :: "cfg_key \<Rightarrow> 'e \<Rightarrow> byte list option"
  set_config_mem :: "cfg_key \<Rightarrow> byte list \<Rightarrow> 'e \<Rightarrow> int \<times> 'e"
  sync_config :: "'e \<Rightarrow> int \<times> 'e"
  broadcast_msg :: "app_msg \<Rightarrow> 'e \<Rightarrow> int \<times> 'e"
  screensaver :: "bool \<Rightarrow> 'e \<Rightarrow> int \<times> 'e"
  system_cmd :: "byte list \<Rightarrow> 'e \<Rightarrow> int \<times> 'e"
  lua_uri_from :: "int \<Rightarrow> 'e \<Rightarrow> byte list \<times> 'e"
  sock_close :: "int \<Rightarrow> 'e \<Rightarrow> int \<times> 'e"
  sock_recv :: "int \<Rightarrow> nat \<Rightarrow> 'e \<Rightarrow> byte list option \<times> 'e"
  sock_send :: "int \<Rightarrow> byte list \<Rightarrow> 'e \<Rightarrow> int \<times> 'e"
  send_timer_start :: "int \<Rightarrow> 'e \<Rightarrow> int \<times> 'e"
  now_us :: "'e \<Rightarrow> 64 word"
  local_tag :: byte
  wifi_connected :: "'e \<Rightarrow> bool"
  music_connected :: "'e \<Rightarrow> int"
  sock_select :: "int list \<Rightarrow> 'e \<Rightarrow> (int \<times> int list) \<times> 'e"
  errno_eintr :: "'e \<Rightarrow> bool"
  errno_again :: "'e \<Rightarrow> bool"
  errno_inprogress :: "'e \<Rightarrow> bool"
  sock_open :: "bool \<Rightarrow> 'e \<Rightarrow> int \<times> 'e"
  sock_addrs :: "byte list \<Rightarrow> 'e \<Rightarrow> byte list list option"
  host_by_name :: "byte list \<Rightarrow> 'e \<Rightarrow> byte list option"
  sock_connect :: "int \<Rightarrow> byte list \<Rightarrow> int \<Rightarrow> 'e \<Rightarrow> int \<times> 'e"
  sock_wait_write :: "int \<Rightarrow> 'e \<Rightarrow> (int \<times> bool) \<times> 'e"
  sock_so_error :: "int \<Rightarrow> 'e \<Rightarrow> (int \<times> int) \<times> 'e"
  sock_broadcast :: "int \<Rightarrow> 'e \<Rightarrow> int \<times> 'e"
  sock_bind :: "int \<Rightarrow> int \<Rightarrow> 'e \<Rightarrow> int \<times> 'e"
  sock_sendto :: "int \<Rightarrow> int \<Rightarrow> byte list \<Rightarrow> 'e \<Rightarrow> int \<times> 'e"
  start_timer :: "int \<Rightarrow> 'e \<Rightarrow> int \<times> 'e"
  kill_timer :: "int \<Rightarrow> 'e \<Rightarrow> int \<times> 'e"
  lua_fun :: "byte list \<Rightarrow> byte list \<Rightarrow> 'e \<Rightarrow> byte list \<times> 'e"
  lua_regist :: "byte list \<Rightarrow> byte list \<Rightarrow> 'e \<Rightarrow> byte list \<times> 'e"
  splayer_get_info :: "'e \<Rightarrow> int \<times> splayer_info"
  sair_text_search :: "byte list \<Rightarrow> 'e \<Rightarrow> int \<times> 'e"
  sair_tts_call :: "byte list \<Rightarrow> 'e \<Rightarrow> int \<times> 'e"
  sock_listen :: "int \<Rightarrow> 'e \<Rightarrow> int \<times> 'e"
  sock_port :: "int \<Rightarrow> 'e \<Rightarrow> int"
  sock_accept :: "int \<Rightarrow> 'e \<Rightarrow> int \<times> 'e"
  sock_join :: "int \<Rightarrow> 'e \<Rightarrow> int \<times> 'e"
  server_ip :: "'e \<Rightarrow> byte list"
  halo_parse :: "byte list \<Rightarrow> 'e \<Rightarrow> (int \<times> byte list) \<times> 'e"
  songs_of_page :: "int \<Rightarrow> byte list \<Rightarrow> 'e \<Rightarrow> byte list \<times> 'e"
  speech_dispatch :: "byte list \<Rightarrow> 'e \<Rightarrow> (int \<times> byte list \<times> byte list) \<times> 'e"
  speech_to_halo :: "int \<Rightarrow> byte list \<Rightarrow> 'e \<Rightarrow> byte list \<times> 'e"
  pipe_open :: "'e \<Rightarrow> (int \<times> int \<times> int) \<times> 'e"
  pipe_read :: "int \<Rightarrow> nat \<Rightarrow> 'e \<Rightarrow> byte list option \<times> 'e"
  pipe_write :: "int \<Rightarrow> byte list \<Rightarrow> 'e \<Rightarrow> int \<times> 'e"
  status_bytes :: "splayer_status \<Rightarrow> byte list"
  status_read :: "byte list \<Rightarrow> splayer_status"
  status_size :: nat
  exit_msg_loop :: "'e \<Rightarrow> int \<times> 'e"
  tp_dev_ctrl :: "int \<Rightarrow> int \<Rightarrow> 'e \<Rightarrow> int \<times> 'e"
  media_list_fd :: "'e \<Rightarrow> int option"
  media_add_owner :: "int \<Rightarrow> 'e \<Rightarrow> int \<times> 'e"
  media_item_num :: "int \<Rightarrow> 'e \<Rightarrow> int \<times> int \<times> int"
  media_dir_open :: "byte list \<Rightarrow> byte list \<Rightarrow> 'e \<Rightarrow> int \<times> 'e"
  media_dir_filter :: "int \<Rightarrow> byte list \<Rightarrow> 'e \<Rightarrow> int \<times> 'e"
  media_dir_close :: "int \<Rightarrow> 'e \<Rightarrow> int \<times> 'e"
  media_item :: "int \<Rightarrow> int \<Rightarrow> 'e \<Rightarrow> int \<times> byte list"
  mp_id3 :: "byte list \<Rightarrow> 'e \<Rightarrow> id3_info \<times> int"
  tty_open :: "'e \<Rightarrow> int \<times> 'e"
  tty_blocking :: "int \<Rightarrow> 'e \<Rightarrow> int \<times> 'e"
  tty_get :: "int \<Rightarrow> 'e \<Rightarrow> int"
  tty_set :: "int \<Rightarrow> int \<Rightarrow> 'e \<Rightarrow> int \<times> 'e"
  disk_local :: int
  disk_card :: int
  disk_uhost :: int
  cfg_max_len :: nat
  hw_addr :: "'e \<Rightarrow> byte list option"
  wait_us :: "nat \<Rightarrow> 'e \<Rightarrow> unit \<times> 'e"
  http_post :: "byte list \<Rightarrow> (byte list \<times> byte list) list \<Rightarrow> byte list \<Rightarrow> 'e \<Rightarrow> (int \<times> byte list) option \<times> 'e"
  cjson_parse :: "byte list \<Rightarrow> json option"
  cjson_print :: "json \<Rightarrow> byte list"

section \<open>Protocols, messages and the handle\<close>

record st_buf =
  payload :: cbuf
  max_len :: int
  blen :: int
  bbegin :: int

text \<open>Names, message targets and other text arrays that only hold strings are the strings they
  hold. The callback table a protocol points to; which callback a table leaves out is a fact about
  the table.\<close>

datatype proto_kind =
    K_PIPE | K_RS485 | K_UDP | K_TCP_CLI | K_TCP_SER | K_SER_CLI | K_HTTP_REGIST | K_VILLA

record st_proto =
  pname :: "byte list"
  config :: "32 word"
  timecount :: "64 word"
  timeout :: "64 word"
  pfd :: int
  recv_buf :: st_buf
  play_status :: splayer_status
  callbacks :: proto_kind
  active :: byte
  private_buf :: "cbuf option"

record st_pro_msg =
  pm_type :: int
  pm_content :: cbuf
  pm_length :: int

record st_msg =
  m_type :: int
  m_content :: cbuf
  m_target :: "byte list"
  m_length :: int

text \<open>A container of list nodes: the addresses in list order, the live objects at their addresses
  (None is freed memory), and the next address \<open>malloc\<close> hands out. Address 0 is the list head.
  \<open>Halo_Lists\<close> shows that the pointer operations keep such an order.\<close>

record 'a ilist =
  order :: "addr list"
  cell :: "addr \<Rightarrow> 'a option"
  fresh :: addr

text \<open>\<open>villa_handle\<close> and the static variables of \<open>app/villakit.c\<close> and \<open>app/villa_dispatch.c\<close>; the
  frame \<open>villa_data\<close> is the memory of the packed struct.\<close>

record villa =
  v_tcp_status :: int
  v_host :: cbuf
  v_port :: cbuf
  v_timer :: int
  v_times :: int
  v_data :: cbuf

text \<open>The nodes of \<open>app/halo_http.h\<close>, without their links. A freed or missing text is None. Callbacks
  are named: the two functions of \<open>app/halo_http_regist.c\<close> and the one of \<open>app/halo_http_mlist.c\<close>.\<close>

record st_hash =
  hs_key :: "byte list option"
  hs_val :: "byte list option"

datatype post_cb = CB_REGIST | CB_REGIST_DEV | CB_MLIST

record st_post =
  po_uri :: "byte list"
  po_heads :: "st_hash list option"
  po_payload :: "byte list"
  po_cb :: post_cb

record st_http =
  ht_posts :: "st_post list option"
  ht_retry :: int
  ht_detach :: int
  ht_end_cb :: "addr option"
  ht_busy :: int

record 'e gateway =
  ext :: 'e
  protos :: "st_proto ilist"
  msgs :: "st_msg ilist"
  env_status :: "32 word"
  halo_up :: bool
  hope_regist_st :: int
  mute_vol :: int
  rs_addr :: byte
  rs_body :: cbuf
  ser_body :: cbuf
  ser_timer :: int
  serial_fd :: int
  client :: tcp_client
  shown_index :: int
  local_list :: "int list option"
  main_disk :: int
  villa_st :: villa
  h_auth :: cbuf
  h_ref_ori :: cbuf
  h_ref_str :: cbuf
  h_ref_hex :: cbuf
  http_handle :: "st_http option"
  ser_port :: int
  client_num :: int
  udp_target :: cbuf
  pipe_rd :: int
  pipe_wr :: int
  s_status :: splayer_status
  s_quit :: bool
  mlist_fd :: int
  music_num :: int
  mlist_timer :: int
  mlist_retry :: int
  items_now :: "64 word"
  mpost_busy :: int
  udp_group_port :: int
  last_mode :: "play_mode option"

text \<open>A call out of the program, with its result.\<close>

definition call :: "('e \<Rightarrow> 'a \<times> 'e) \<Rightarrow> 'e gateway \<Rightarrow> 'a \<times> 'e gateway" where
  "call f g = (let (r, e) = f (ext g) in (r, g\<lparr>ext := e\<rparr>))"

lemma call_simp: "call f g = (fst (f (ext g)), g\<lparr>ext := snd (f (ext g))\<rparr>)"
  by (simp add: call_def case_prod_beta)

definition LOOP_CFG_HOPE :: "32 word" where "LOOP_CFG_HOPE = 1"
definition LOOP_CFG_ALINK :: "32 word" where "LOOP_CFG_ALINK = 2"
definition LOOP_CFG_WIFI :: "32 word" where "LOOP_CFG_WIFI = 4"
definition LOOP_CFG_UDP_SCAN :: "32 word" where "LOOP_CFG_UDP_SCAN = 8"
definition LOOP_CFG_RETRY :: "32 word" where "LOOP_CFG_RETRY = 16"

section \<open>Time\<close>

definition get_now_us :: "'e platform \<Rightarrow> 'e gateway \<Rightarrow> 64 word" where
  "get_now_us pl g = now_us pl (ext g)"

definition get_now_s :: "'e platform \<Rightarrow> 'e gateway \<Rightarrow> 64 word" where
  "get_now_s pl g = drop_bit 20 (get_now_us pl g)"

definition get_now_ms :: "'e platform \<Rightarrow> 'e gateway \<Rightarrow> 64 word" where
  "get_now_ms pl g = drop_bit 10 (get_now_us pl g)"

definition reset_timer :: "'e platform \<Rightarrow> st_proto \<Rightarrow> 'e gateway \<Rightarrow> st_proto" where
  "reset_timer pl pro g = pro\<lparr>timecount := get_now_ms pl g\<rparr>"

section \<open>The receive buffer\<close>

text \<open>\<open>wipe\<close> is \<open>memset(payload, 0, max_len)\<close>.\<close>

definition wipe :: "st_buf \<Rightarrow> st_buf option" where
  "wipe rb = do { p \<leftarrow> bset (payload rb) 0 (nat (max_len rb)) 0; Some (rb\<lparr>payload := p\<rparr>) }"

definition clear_payload :: "st_proto \<Rightarrow> st_proto option" where
  "clear_payload pro =
     do { rb \<leftarrow> wipe (recv_buf pro);
          Some (pro\<lparr>recv_buf := rb\<lparr>blen := 0, bbegin := 0\<rparr>\<rparr>) }"

definition buf_ok :: "st_buf \<Rightarrow> bool" where
  "buf_ok rb = (0 \<le> max_len rb \<and> max_len rb \<le> int (length (payload rb)))"

lemma wipe_ok: "buf_ok rb \<Longrightarrow> wipe rb = Some (rb\<lparr>payload :=
    replicate (nat (max_len rb)) 0 @ drop (nat (max_len rb)) (payload rb)\<rparr>)"
  by (simp add: wipe_def buf_ok_def bset_def nat_le_iff)

section \<open>A reference environment\<close>

text \<open>A player that does what it is told and a log of the other calls: the concrete instance the
  examples run on.\<close>

record sim =
  sim_status :: splayer_status
  sim_cfg :: "cfg_key \<Rightarrow> int option"
  sim_mem :: "cfg_key \<Rightarrow> byte list option"
  sim_clock :: "64 word"
  sim_input :: "byte list"
  sim_sent :: "byte list list"
  sim_msgs :: "app_msg list"

definition sim_set :: "(splayer_status \<Rightarrow> splayer_status) \<Rightarrow> sim \<Rightarrow> int \<times> sim" where
  "sim_set f e = (0, e\<lparr>sim_status := f (sim_status e)\<rparr>)"

text \<open>A parser that knows the texts of a table, and a printer that names the kind of a value.\<close>

definition sim_texts :: "(byte list \<times> json) list" where
  "sim_texts =
     [(bytes ''{\"profile\":{\"setvol\":50}}'',
         JObject [(bytes ''profile'', JObject [(bytes ''setvol'', JNumber 50)])]),
      (bytes ''{\"msgText\":\"hi\",\"msgCata\":2}'',
         JObject [(bytes ''msgText'', JString (bytes ''hi'')), (bytes ''msgCata'', JNumber 2)]),
      (bytes ''{\"type\":\"RESPONSE_DEVICE\"}'',
         JObject [(bytes ''type'', JString (bytes ''RESPONSE_DEVICE''))])]"

definition sim_parse :: "byte list \<Rightarrow> json option" where
  "sim_parse s = map_option snd (List.find (\<lambda>(t, _). starts_with t s) sim_texts)"

definition sim_print :: "json \<Rightarrow> byte list" where
  "sim_print j = [of_nat (nat (json_type j)) + 0x30]"

text \<open>An \<open>int\<close> in memory, little endian.\<close>

definition int_bytes :: "int \<Rightarrow> byte list" where
  "int_bytes i = (let w = word_of_int i :: 32 word in
     [ucast w, ucast (drop_bit 8 w), ucast (drop_bit 16 w), ucast (drop_bit 24 w)])"

definition of_le_word :: "byte list \<Rightarrow> int" where
  "of_le_word b = sint (word_of_int (foldr (\<lambda>c n. uint c + 256 * n) b 0) :: 32 word)"

definition sim_platform :: "sim platform" where
  "sim_platform = \<lparr>
     splayer_get_status = (\<lambda>e. (0, sim_status e)),
     splayer_play = sim_set (\<lambda>s. s\<lparr>ps_status := STATUS_PLAYING\<rparr>),
     splayer_pause = sim_set (\<lambda>s. s\<lparr>ps_status := STATUS_PAUSE\<rparr>),
     splayer_resume = sim_set (\<lambda>s. s\<lparr>ps_status := STATUS_PLAYING\<rparr>),
     splayer_stop = sim_set (\<lambda>s. s\<lparr>ps_status := STATUS_STOP\<rparr>),
     splayer_next = sim_set (\<lambda>s. s\<lparr>ps_index := ps_index s + 1\<rparr>),
     splayer_prev = sim_set (\<lambda>s. s\<lparr>ps_index := ps_index s - 1\<rparr>),
     splayer_seek = (\<lambda>t. sim_set (\<lambda>s. s\<lparr>ps_time := t\<rparr>)),
     splayer_set_volume = (\<lambda>v. sim_set (\<lambda>s. s\<lparr>ps_volume := v\<rparr>)),
     splayer_set_index = (\<lambda>i. sim_set (\<lambda>s. s\<lparr>ps_index := i\<rparr>)),
     splayer_set_mode = (\<lambda>m. sim_set (\<lambda>s. s\<lparr>ps_mode := m\<rparr>)),
     splayer_set_loop_mode = (\<lambda>m. sim_set (\<lambda>s. s\<lparr>ps_loop := m\<rparr>)),
     splayer_set_file = (\<lambda>f. sim_set id),
     get_config = (\<lambda>k e. sim_cfg e k),
     set_config = (\<lambda>k v e. (0, e\<lparr>sim_cfg := (sim_cfg e)(k := Some v)\<rparr>)),
     get_config_mem = (\<lambda>k e. sim_mem e k),
     set_config_mem = (\<lambda>k v e. (0, e\<lparr>sim_mem := (sim_mem e)(k := Some v)\<rparr>)),
     sync_config = (\<lambda>e. (0, e)),
     broadcast_msg = (\<lambda>m e. (0, e\<lparr>sim_msgs := m # sim_msgs e\<rparr>)),
     screensaver = (\<lambda>_ e. (0, e)),
     system_cmd = (\<lambda>_ e. (0, e)),
     lua_uri_from = (\<lambda>_ e. ([0x2f, 0x61], e)),
     sock_close = (\<lambda>_ e. (0, e)),
     sock_recv = (\<lambda>_ n e. (Some (take n (sim_input e)), e\<lparr>sim_input := drop n (sim_input e)\<rparr>)),
     sock_send = (\<lambda>_ b e. (int (length b), e\<lparr>sim_sent := b # sim_sent e\<rparr>)),
     send_timer_start = (\<lambda>_ e. (1, e)),
     now_us = sim_clock,
     local_tag = 2,
     wifi_connected = (\<lambda>_. True),
     music_connected = (\<lambda>_. 1),
     sock_select = (\<lambda>fds e. ((0, []), e)),
     errno_eintr = (\<lambda>_. False),
     errno_again = (\<lambda>_. False),
     errno_inprogress = (\<lambda>_. True),
     sock_open = (\<lambda>_ e. (5, e)),
     sock_addrs = (\<lambda>_ _. Some [[192, 168, 2, 9]]),
     host_by_name = (\<lambda>_ _. Some [192, 168, 2, 9]),
     sock_connect = (\<lambda>_ _ _ e. (0, e)),
     sock_wait_write = (\<lambda>_ e. ((1, True), e)),
     sock_so_error = (\<lambda>_ e. ((0, 0), e)),
     sock_broadcast = (\<lambda>_ e. (0, e)),
     sock_bind = (\<lambda>_ _ e. (0, e)),
     sock_sendto = (\<lambda>_ _ b e. (int (length b), e\<lparr>sim_sent := b # sim_sent e\<rparr>)),
     start_timer = (\<lambda>_ e. (1, e)),
     kill_timer = (\<lambda>_ e. (0, e)),
     lua_fun = (\<lambda>_ s e. (s, e)),
     lua_regist = (\<lambda>_ s e. ([], e)),
     splayer_get_info = (\<lambda>_. (0, \<lparr>si_title = bytes ''Song'', si_uri = bytes ''/mnt/Song.mp3'',
       si_album = [], si_author = [], si_total = 180\<rparr>)),
     sair_text_search = (\<lambda>_ e. (0, e)),
     sair_tts_call = (\<lambda>_ e. (0, e)),
     sock_listen = (\<lambda>_ e. (0, e)),
     sock_port = (\<lambda>_ _. 40000),
     sock_accept = (\<lambda>_ e. (6, e)),
     sock_join = (\<lambda>_ e. (0, e)),
     server_ip = (\<lambda>_. bytes ''192.168.2.9''),
     halo_parse = (\<lambda>s e. ((1, s), e)),
     songs_of_page = (\<lambda>_ s e. (s, e)),
     speech_dispatch = (\<lambda>s e. ((0, s, []), e)),
     speech_to_halo = (\<lambda>_ s e. (s, e)),
     pipe_open = (\<lambda>e. ((0, 8, 9), e)),
     pipe_read = (\<lambda>_ n e. (Some (take n (sim_input e)), e\<lparr>sim_input := drop n (sim_input e)\<rparr>)),
     pipe_write = (\<lambda>_ b e. (int (length b), e\<lparr>sim_input := sim_input e @ b\<rparr>)),
     status_bytes = (\<lambda>s. int_bytes (ps_volume s) @ int_bytes (ps_index s)),
     status_read = (\<lambda>b. \<lparr>ps_mode = MODE_PLAYLIST, ps_status = STATUS_PLAYING, ps_loop = LOOP_ALL,
       ps_volume = of_le_word (take 4 b), ps_index = of_le_word (drop 4 b), ps_time = 0, ps_eq = EQ_NORMAL\<rparr>),
     status_size = 8,
     exit_msg_loop = (\<lambda>e. (0, e)),
     tp_dev_ctrl = (\<lambda>_ _ e. (0, e)),
     media_list_fd = (\<lambda>_. None),
     media_add_owner = (\<lambda>_ e. (0, e)),
     media_item_num = (\<lambda>_ _. (0, 1, 1)),
     media_dir_open = (\<lambda>_ _ e. (3, e)),
     media_dir_filter = (\<lambda>_ _ e. (0, e)),
     media_dir_close = (\<lambda>_ e. (0, e)),
     media_item = (\<lambda>_ _ _. (1, bytes ''/mnt/udisk/Song.mp3'')),
     mp_id3 = (\<lambda>_ _. (\<lparr>id_title = bytes ''Song'', id_album = [], id_author = bytes ''Ann''\<rparr>, 180)),
     tty_open = (\<lambda>e. (7, e)),
     tty_blocking = (\<lambda>_ e. (0, e)),
     tty_get = (\<lambda>_ _. 0),
     tty_set = (\<lambda>_ _ e. (0, e)),
     disk_local = 0,
     disk_card = 1,
     disk_uhost = 2,
     cfg_max_len = 50,
     hw_addr = (\<lambda>_. Some [0x12, 0x34, 0x56, 0x78, 0x90, 0xAB]),
     wait_us = (\<lambda>n e. ((), e\<lparr>sim_clock := sim_clock e + of_nat n\<rparr>)),
     http_post = (\<lambda>uri hd b e. (Some (200, b), e\<lparr>sim_sent := uri # sim_sent e\<rparr>)),
     cjson_parse = sim_parse,
     cjson_print = sim_print\<rparr>"

definition sim_start :: sim where
  "sim_start = \<lparr>sim_status = \<lparr>ps_mode = MODE_PLAYLIST, ps_status = STATUS_PLAYING,
       ps_loop = LOOP_ALL, ps_volume = 20, ps_index = 3, ps_time = 0, ps_eq = EQ_NORMAL\<rparr>,
     sim_cfg = (\<lambda>_. None), sim_mem = (\<lambda>_. None), sim_clock = 5000000, sim_input = [], sim_sent = [], sim_msgs = []\<rparr>"

definition no_nodes :: "'a ilist" where
  "no_nodes = \<lparr>order = [], cell = (\<lambda>_. None), fresh = 1\<rparr>"

definition sim_gateway :: "sim gateway" where
  "sim_gateway = \<lparr>ext = sim_start, protos = no_nodes, msgs = no_nodes, env_status = 0,
     halo_up = True, hope_regist_st = 0, mute_vol = 0, rs_addr = 7, rs_body = replicate 109 0, ser_body = replicate 109 0,
     ser_timer = -1, serial_fd = -1, client = ex_client, shown_index = -1,
     local_list = None, main_disk = -1,
     villa_st = \<lparr>v_tcp_status = 0, v_host = replicate 64 0, v_port = bytes ''8888'' @ replicate 4 0,
       v_timer = 0, v_times = 0, v_data = replicate 2054 0\<rparr>, h_auth = replicate 100 0, h_ref_ori = replicate 100 0,
     h_ref_str = replicate 100 0, h_ref_hex = replicate 100 0, http_handle = None,
     ser_port = 12345, client_num = 0, udp_target = replicate 32 0, pipe_rd = -1, pipe_wr = -1,
     s_status = sim_status sim_start, s_quit = False, mlist_fd = 0, music_num = 0, mlist_timer = -1,
     mlist_retry = 0, items_now = 0, mpost_busy = 0, udp_group_port = 0, last_mode = None\<rparr>"

end
