(* ===== verification/Registry.thy ===== *)
theory Registry
  imports Halo_Types
begin

text \<open>
  The registry of protocols and the message queue, from \<open>app/common.c\<close>: adding and deleting
  protocols, closing them by handle or by descriptor, queueing messages and removing them. A
  container keeps the addresses of its nodes in list order and the objects at these addresses;
  it is an intrusive list in the sense of \<open>Halo_Lists\<close>, so the loops of the program over it are
  folds. Callbacks are called through the table of the protocol, on the address of the
  protocol; the program hands out its own callbacks, so they are an argument here.
\<close>

section \<open>Containers\<close>

definition il_add :: "'a \<Rightarrow> 'a ilist \<Rightarrow> 'a ilist" where
  "il_add v l = l\<lparr>order := order l @ [fresh l], cell := (cell l)(fresh l := Some v),
     fresh := fresh l + 1\<rparr>"

definition il_unlink :: "addr \<Rightarrow> 'a ilist \<Rightarrow> 'a ilist" where
  "il_unlink a l = l\<lparr>order := remove1 a (order l)\<rparr>"

definition il_free :: "addr \<Rightarrow> 'a ilist \<Rightarrow> 'a ilist" where
  "il_free a l = l\<lparr>cell := (cell l)(a := None)\<rparr>"

definition il_drop :: "addr \<Rightarrow> 'a ilist \<Rightarrow> 'a ilist" where
  "il_drop a l = il_free a (il_unlink a l)"

fun succ_in :: "addr list \<Rightarrow> addr \<Rightarrow> addr option" where
  "succ_in [] a = None"
| "succ_in (x # xs) a = (if x = a then Some (hd (xs @ [0])) else succ_in xs a)"

text \<open>Following the forward link of a node; of freed or unlinked memory this is undefined.\<close>

definition il_next :: "'a ilist \<Rightarrow> addr \<Rightarrow> addr option" where
  "il_next l a =
     (if a = 0 then Some (hd (order l @ [0]))
      else if cell l a = None then None else succ_in (order l) a)"

definition il_ok :: "'a ilist \<Rightarrow> bool" where
  "il_ok l = (distinct (0 # order l) \<and> (\<forall>a \<in> set (order l). a < fresh l \<and> cell l a \<noteq> None) \<and> 0 < fresh l)"

definition il_rep :: "'a ilist \<Rightarrow> addr \<Rightarrow> addr list \<Rightarrow> bool" where
  "il_rep l h xs = (h = 0 \<and> order l = xs \<and> il_ok l)"

lemma succ_in_split: "x \<notin> set xs \<Longrightarrow> succ_in (xs @ x # ys) x = Some (hd (ys @ [0]))"
  by (induction xs) auto

lemma il_ok_no_nodes: "il_ok no_nodes"
  by (simp add: il_ok_def no_nodes_def)

lemma il_ok_add: "il_ok l \<Longrightarrow> il_ok (il_add v l)"
  by (fastforce simp: il_ok_def il_add_def)

lemma il_ok_unlink: "il_ok l \<Longrightarrow> il_ok (il_unlink a l)"
  by (auto simp: il_ok_def il_unlink_def distinct_remove1 dest: notin_set_remove1 set_remove1_subset [THEN subsetD])

lemma il_ok_drop: "il_ok l \<Longrightarrow> il_ok (il_drop a l)"
  by (auto simp: il_ok_def il_unlink_def il_free_def il_drop_def distinct_remove1 set_remove1_eq
      dest: notin_set_remove1)

lemma il_drop_order: "il_ok l \<Longrightarrow> order l = xs @ a # ys \<Longrightarrow> order (il_drop a l) = xs @ ys"
  by (simp add: il_ok_def il_drop_def il_unlink_def il_free_def remove1_append)

interpretation node_list: intrusive_list "il_rep" "il_next" "il_drop"
proof
  show "distinct (h # xs)" if "il_rep l h xs" for l :: "'a ilist" and h xs
    using that by (auto simp: il_rep_def il_ok_def)
  show "il_next l h = Some (hd (xs @ [h]))" if "il_rep l h xs" for l :: "'a ilist" and h xs
    using that by (simp add: il_rep_def il_next_def)
  show "il_next l x = Some (hd (ys @ [h]))" if "il_rep l h (xs @ x # ys)"
    for l :: "'a ilist" and h xs x ys
  proof -
    have "x \<notin> set xs" "x \<noteq> 0" "cell l x \<noteq> None" "order l = xs @ x # ys" "h = 0"
      using that by (auto simp: il_rep_def il_ok_def)
    then show ?thesis by (simp add: il_next_def succ_in_split)
  qed
  show "il_rep (il_drop x l) h (xs @ ys)" if "il_rep l h (xs @ x # ys)"
    for l :: "'a ilist" and h xs x ys
    using that by (auto simp: il_rep_def il_ok_drop il_drop_order)
qed

text \<open>The pointer level of \<open>Halo_Lists\<close> implements the containers.\<close>

definition linked :: "links \<Rightarrow> 'a ilist \<Rightarrow> bool" where
  "linked s l = dlist s 0 (order l)"

lemma linked_add: "linked s l \<Longrightarrow> il_ok l \<Longrightarrow> linked (list_add_tail (fresh l) 0 s) (il_add v l)"
  unfolding linked_def
  by (auto simp: il_add_def il_ok_def intro!: list_add_tail_dlist)

lemma linked_unlink: "linked s l \<Longrightarrow> a \<in> set (order l) \<Longrightarrow> linked (list_del a s) (il_unlink a l)"
  unfolding linked_def il_unlink_def
  by (auto simp: remove1_append dest!: split_list_first intro!: list_del_dlist)

lemma linked_next: "linked s l \<Longrightarrow> il_ok l \<Longrightarrow> il_next l a = Some b \<Longrightarrow> nxt s a = b"
proof -
  assume a: "linked s l" "il_ok l" "il_next l a = Some b"
  have *: "succ_in xs a = Some b \<Longrightarrow> \<exists>us vs. xs = us @ a # vs \<and> b = hd (vs @ [0])" for xs
  proof (induction xs)
    case (Cons x xs)
    show ?case
    proof (cases "x = a")
      case True
      then show ?thesis using Cons.prems by (intro exI [of _ "[]"] exI [of _ xs]) simp
    next
      case False
      with Cons obtain us vs where "xs = us @ a # vs" "b = hd (vs @ [0])" by auto
      then show ?thesis by (intro exI [of _ "x # us"] exI [of _ vs]) simp
    qed
  qed simp
  show ?thesis
    using a * [of "order l"] dlist_head [of s 0 "order l"] dlist_next [of s 0]
    by (auto simp: linked_def il_next_def split: if_splits)
qed

section \<open>Protocols and messages by address\<close>

type_synonym 'e cb = "addr \<Rightarrow> 'e gateway \<Rightarrow> (int \<times> 'e gateway) option"

text \<open>A callback table; None is a null pointer.\<close>

record 'e callback_table =
  init_cb :: "'e cb option"
  recv_cb :: "'e cb option"
  reply_cb :: "'e cb option"
  active_send_cb :: "'e cb option"
  disproto_cb :: "(addr \<Rightarrow> 'e cb) option"
  timeout_cb :: "'e cb option"
  close_cb :: "'e cb option"

type_synonym 'e tables = "proto_kind \<Rightarrow> 'e callback_table"

definition pget :: "addr \<Rightarrow> 'e gateway \<Rightarrow> st_proto option" where
  "pget a g = cell (protos g) a"

definition pset :: "addr \<Rightarrow> st_proto \<Rightarrow> 'e gateway \<Rightarrow> 'e gateway" where
  "pset a p g = g\<lparr>protos := (protos g)\<lparr>cell := (cell (protos g))(a := Some p)\<rparr>\<rparr>"

definition pupd :: "addr \<Rightarrow> (st_proto \<Rightarrow> st_proto) \<Rightarrow> 'e gateway \<Rightarrow> 'e gateway option" where
  "pupd a f g = do { p \<leftarrow> pget a g; Some (pset a (f p) g) }"

definition mget :: "addr \<Rightarrow> 'e gateway \<Rightarrow> st_msg option" where
  "mget a g = cell (msgs g) a"

definition table_of :: "'e tables \<Rightarrow> st_proto \<Rightarrow> 'e callback_table" where
  "table_of tabs p = tabs (callbacks p)"

text \<open>Callbacks written on the protocol itself; a message callback also gets the message.\<close>

type_synonym 'e pcb = "st_proto \<Rightarrow> 'e gateway \<Rightarrow> (int \<times> st_proto \<times> 'e gateway) option"

definition on_proto :: "'e pcb \<Rightarrow> 'e cb" where
  "on_proto f a g = do { p \<leftarrow> pget a g; (r, p1, g1) \<leftarrow> f p g; Some (r, pset a p1 g1) }"

definition on_msg :: "(st_msg \<Rightarrow> 'e pcb) \<Rightarrow> addr \<Rightarrow> 'e cb" where
  "on_msg f m a g =
     do { p \<leftarrow> pget a g; x \<leftarrow> mget m g; (r, p1, g1) \<leftarrow> f x p g; Some (r, pset a p1 g1) }"

section \<open>The operations\<close>

definition add_proto :: "st_proto \<Rightarrow> 'e gateway \<Rightarrow> int \<times> 'e gateway" where
  "add_proto p g =
     (0, g\<lparr>protos := il_add (p\<lparr>active := (if pfd p > 0 then 1 else 0)\<rparr>) (protos g)\<rparr>)"

text \<open>\<open>list_del\<close> of a node that is not in a list follows null pointers; \<open>free\<close> of freed memory is
  undefined.\<close>

definition delete_proto :: "'e tables \<Rightarrow> addr \<Rightarrow> 'e gateway \<Rightarrow> (int \<times> 'e gateway) option" where
  "delete_proto tabs a g =
     (if a = 0 then Some (0, g)
      else do {
        p \<leftarrow> pget a g;
        if a \<notin> set (order (protos g)) then None
        else do {
          let g1 = g\<lparr>protos := il_unlink a (protos g)\<rparr>;
          g2 \<leftarrow> (case close_cb (table_of tabs p) of
                 None \<Rightarrow> Some g1 | Some f \<Rightarrow> map_option snd (f a g1));
          _ \<leftarrow> pget a g2;
          Some (0, g2\<lparr>protos := il_free a (protos g2)\<rparr>) } })"

definition close_proto :: "'e tables \<Rightarrow> addr \<Rightarrow> 'e gateway \<Rightarrow> (int \<times> 'e gateway) option" where
  "close_proto tabs a g =
     do { p \<leftarrow> pget a g;
          if config p AND LOOP_CFG_RETRY = 0 then delete_proto tabs a g
          else (case close_cb (table_of tabs p) of
              Some f \<Rightarrow>
                (if pfd p \<ge> 0
                 then do { (r, g1) \<leftarrow> f a g;
                           if r = 0
                           then do { g2 \<leftarrow> pupd a (\<lambda>p. p\<lparr>active := 0\<rparr>) g1; Some (0, g2) }
                           else Some (-1, g1) }
                 else Some (0, g))
            | None \<Rightarrow> Some (0, g)) }"

definition close_fd_body :: "'e tables \<Rightarrow> int \<Rightarrow> addr \<Rightarrow> 'e gateway \<Rightarrow> (int option \<times> 'e gateway) option" where
  "close_fd_body tabs fd a g =
     do { p \<leftarrow> pget a g;
          if pfd p \<noteq> fd then Some (None, g)
          else if config p AND LOOP_CFG_RETRY \<noteq> 0
          then (if pfd p \<ge> 0 \<and> active p \<noteq> 0
                then do { f \<leftarrow> close_cb (table_of tabs p);
                          (r, g1) \<leftarrow> f a g;
                          if r = 0
                          then do { g2 \<leftarrow> pupd a (\<lambda>p. p\<lparr>active := 0\<rparr>) g1; Some (Some 0, g2) }
                          else Some (Some (-1), g1) }
                else Some (None, g))
          else do { (r, g1) \<leftarrow> delete_proto tabs a g; Some (Some r, g1) } }"

definition close_proto_fd :: "nat \<Rightarrow> 'e tables \<Rightarrow> int \<Rightarrow> 'e gateway \<Rightarrow> (int \<times> 'e gateway) option" where
  "close_proto_fd fuel tabs fd g =
     do { (r, g1) \<leftarrow> list_for_each_safe fuel (\<lambda>g. il_next (protos g)) (close_fd_body tabs fd) 0 g;
          Some (case r of Some v \<Rightarrow> v | None \<Rightarrow> 1, g1) }"

text \<open>The target is cut at 127 characters; the content arrays have 1024 bytes, and a length
  outside of them makes \<open>memcpy\<close> leave both.\<close>

definition add_msg :: "byte list \<Rightarrow> st_pro_msg \<Rightarrow> 'e gateway \<Rightarrow> (int \<times> 'e gateway) option" where
  "add_msg target msg g =
     (if pm_length msg < 0 then None
      else do {
        d \<leftarrow> bget (pm_content msg) 0 (nat (pm_length msg));
        c \<leftarrow> bput (replicate 1024 0) 0 d;
        Some (0, g\<lparr>msgs := il_add \<lparr>m_type = pm_type msg, m_content = c, m_target = take 127 target,
                 m_length = pm_length msg\<rparr> (msgs g)\<rparr>) })"

definition del_msg :: "addr \<Rightarrow> 'e gateway \<Rightarrow> (int \<times> 'e gateway) option" where
  "del_msg a g =
     (if a = 0 then Some (-1, g)
      else do { _ \<leftarrow> mget a g;
                if a \<notin> set (order (msgs g)) then None
                else Some (0, g\<lparr>msgs := il_drop a (msgs g)\<rparr>) })"

definition del_all_msg :: "nat \<Rightarrow> 'e gateway \<Rightarrow> (int \<times> 'e gateway) option" where
  "del_all_msg fuel g =
     do { (_, g1) \<leftarrow> list_for_each_safe fuel (\<lambda>g. il_next (msgs g))
            (\<lambda>a g. do { (_, g1) \<leftarrow> del_msg a g; Some (None :: unit option, g1) }) 0 g;
          Some (0, g1) }"

text \<open>\<open>clean_msg\<close>: the inner loop leaves early at the first protocol with the target's name.\<close>

definition target_known :: "nat \<Rightarrow> byte list \<Rightarrow> 'e gateway \<Rightarrow> bool option" where
  "target_known fuel t g =
     do { (r, _) \<leftarrow> list_for_each_safe fuel (\<lambda>g. il_next (protos g))
            (\<lambda>a g. do { p \<leftarrow> pget a g; Some (if t = pname p then Some () else None, g) }) 0 g;
          Some (r \<noteq> None) }"

definition clean_body :: "nat \<Rightarrow> addr \<Rightarrow> 'e gateway \<Rightarrow> (unit option \<times> 'e gateway) option" where
  "clean_body fuel a g =
     do { m \<leftarrow> mget a g;
          known \<leftarrow> target_known fuel (m_target m) g;
          if known then Some (None, g) else do { (_, g1) \<leftarrow> del_msg a g; Some (None, g1) } }"

definition clean_msg :: "nat \<Rightarrow> 'e gateway \<Rightarrow> (int \<times> 'e gateway) option" where
  "clean_msg fuel g =
     do { (_, g1) \<leftarrow> list_for_each_safe fuel (\<lambda>g. il_next (msgs g)) (clean_body fuel) 0 g;
          Some (0, g1) }"

section \<open>The containers of the gateway\<close>

interpretation proto_list: intrusive_list
  "\<lambda>(g :: 'e gateway) h xs. il_rep (protos g) h xs" "\<lambda>g. il_next (protos g)"
  "\<lambda>a g. g\<lparr>protos := il_drop a (protos g)\<rparr>"
  by unfold_locales
    (use node_list.rep_distinct node_list.rep_first node_list.rep_next node_list.rep_del in auto)

interpretation msg_list: intrusive_list
  "\<lambda>(g :: 'e gateway) h xs. il_rep (msgs g) h xs" "\<lambda>g. il_next (msgs g)"
  "\<lambda>a g. g\<lparr>msgs := il_drop a (msgs g)\<rparr>"
  by unfold_locales
    (use node_list.rep_distinct node_list.rep_first node_list.rep_next node_list.rep_del in auto)

definition gw_ok :: "'e gateway \<Rightarrow> bool" where
  "gw_ok g = (il_ok (protos g) \<and> il_ok (msgs g))"

lemma il_rep_order: "il_ok l \<Longrightarrow> il_rep l 0 (order l)"
  by (simp add: il_rep_def)

lemma il_rep_live: "il_rep l h (xs @ a # ys) \<Longrightarrow> cell l a \<noteq> None \<and> a \<noteq> 0 \<and> a \<in> set (order l)"
  by (auto simp: il_rep_def il_ok_def)

lemma del_msg_live:
  assumes "il_ok (msgs g)" "a \<in> set (order (msgs g))"
  shows "del_msg a g = Some (0, g\<lparr>msgs := il_drop a (msgs g)\<rparr>)"
proof -
  have "a \<noteq> 0" "cell (msgs g) a \<noteq> None" using assms by (cases "a = 0"; auto simp: il_ok_def)+
  with assms(2) show ?thesis by (auto simp: del_msg_def mget_def)
qed

lemma del_msg_gw_ok: "del_msg a g = Some (r, g') \<Longrightarrow> gw_ok g \<Longrightarrow> gw_ok g'"
  by (auto simp: del_msg_def gw_ok_def il_ok_drop split: if_splits bind_splits)

lemma add_msg_gw_ok: "add_msg t m g = Some (r, g') \<Longrightarrow> gw_ok g \<Longrightarrow> gw_ok g'"
  by (auto simp: add_msg_def gw_ok_def il_ok_add split: if_splits bind_splits)

lemma add_proto_gw_ok: "gw_ok g \<Longrightarrow> gw_ok (snd (add_proto p g))"
  by (simp add: add_proto_def gw_ok_def il_ok_add)

subsection \<open>Searching the protocols\<close>

definition known_name :: "'e gateway \<Rightarrow> byte list \<Rightarrow> bool" where
  "known_name g t = (\<exists>a \<in> set (order (protos g)). \<exists>p. pget a g = Some p \<and> pname p = t)"

lemma fold_search:
  assumes "\<forall>a \<in> set ys. pget a g \<noteq> None"
  shows "fold_body (\<lambda>a g. do { p \<leftarrow> pget a g; Some (if t = pname p then Some () else None, g) }) ys g
    = Some (if \<exists>a \<in> set ys. \<exists>p. pget a g = Some p \<and> pname p = t then Some () else None, g)"
  using assms
proof (induction ys)
  case (Cons a ys)
  then obtain p where p: "pget a g = Some p" by auto
  show ?case
  proof (cases "pname p = t")
    case False
    then have "t \<noteq> pname p" by simp
    with Cons p False show ?thesis by simp
  qed (use p in auto)
qed simp

lemma target_known_spec:
  assumes "il_ok (protos g)" "length (order (protos g)) < fuel"
  shows "target_known fuel t g = Some (known_name g t)"
proof -
  let ?body = "\<lambda>a g. do { p \<leftarrow> pget a g; Some (if t = pname p then Some () else None, g) }"
  have "list_for_each_safe (Suc (length (order (protos g)))) (\<lambda>g. il_next (protos g)) ?body 0 g
      = fold_body ?body (order (protos g)) g"
    by (rule proto_list.list_for_each_safe_fold [where I = "\<lambda>_. True"])
      (use assms(1) il_rep_order in \<open>auto split: bind_splits if_splits intro: proto_list.rep_del
        exI [of _ "_ @ [_]"]\<close>)
  also have "\<dots> = Some (if known_name g t then Some () else None, g)"
    unfolding known_name_def using assms(1) by (intro fold_search) (auto simp: il_ok_def pget_def)
  finally have "list_for_each_safe fuel (\<lambda>g. il_next (protos g)) ?body 0 g
      = Some (if known_name g t then Some () else None, g)"
    by (rule list_for_each_safe_mono) (use assms(2) in simp)
  then show ?thesis by (simp add: target_known_def)
qed

subsection \<open>The message queue\<close>

text \<open>Running a deleting body over the rest of the queue.\<close>

definition drop_msgs :: "(addr \<Rightarrow> bool) \<Rightarrow> addr list \<Rightarrow> 'e gateway \<Rightarrow> 'e gateway" where
  "drop_msgs keep ys g = g\<lparr>msgs := fold (\<lambda>a l. if keep a then l else il_drop a l) ys (msgs g)\<rparr>"

lemma drop_msgs_simps [simp]:
  "drop_msgs keep [] g = g"
  "drop_msgs keep (a # ys) g = drop_msgs keep ys
     (if keep a then g else g\<lparr>msgs := il_drop a (msgs g)\<rparr>)"
  by (simp_all add: drop_msgs_def)

lemma drop_msgs_protos [simp]: "protos (drop_msgs keep ys g) = protos g"
  by (simp add: drop_msgs_def)

lemma fold_drop_order:
  assumes "il_ok l" "order l = xs @ ys"
  shows "il_ok (fold (\<lambda>a l. if keep a then l else il_drop a l) ys l) \<and>
    order (fold (\<lambda>a l. if keep a then l else il_drop a l) ys l) = xs @ filter keep ys"
  using assms
proof (induction ys arbitrary: xs l)
  case (Cons a ys)
  show ?case
  proof (cases "keep a")
    case True
    with Cons.IH [OF Cons.prems(1), of "xs @ [a]"] Cons.prems show ?thesis by simp
  next
    case False
    have "il_ok (il_drop a l)" "order (il_drop a l) = xs @ ys"
      using Cons.prems il_ok_drop il_drop_order by auto
    with Cons.IH False show ?thesis by simp
  qed
qed simp

lemma il_drop_cell: "cell (il_drop a l) = (cell l)(a := None)"
  by (simp add: il_drop_def il_unlink_def il_free_def)

lemma fold_drop_cell: "cell (fold (\<lambda>a l. if keep a then l else il_drop a l) ys l) a =
    (if a \<in> set ys \<and> \<not> keep a then None else cell l a)"
  by (induction ys arbitrary: l) (auto simp: il_drop_cell)

lemma drop_msgs_order:
  assumes "il_ok (msgs g)"
  shows "order (msgs (drop_msgs keep (order (msgs g)) g)) = filter keep (order (msgs g)) \<and>
    il_ok (msgs (drop_msgs keep (order (msgs g)) g)) \<and>
    (\<forall>a. mget a (drop_msgs keep (order (msgs g)) g) =
      (if a \<in> set (order (msgs g)) \<and> \<not> keep a then None else mget a g))"
  using fold_drop_order [OF assms, of "[]"] by (simp add: drop_msgs_def mget_def fold_drop_cell)

text \<open>A body that looks at its message and keeps or deletes it.\<close>

lemma fold_keep_or_delete:
  assumes body: "\<And>a g'. il_ok (msgs g') \<Longrightarrow> protos g' = protos g \<Longrightarrow> a \<in> set (order (msgs g')) \<Longrightarrow>
      mget a g' = mget a g \<Longrightarrow>
      body a g' = Some (None, if keep a then g' else g'\<lparr>msgs := il_drop a (msgs g')\<rparr>)"
  shows "il_ok (msgs g1) \<Longrightarrow> order (msgs g1) = xs @ ys \<Longrightarrow> protos g1 = protos g \<Longrightarrow>
    \<forall>a \<in> set ys. mget a g1 = mget a g \<Longrightarrow>
    fold_body body ys g1 = Some (None, drop_msgs keep ys g1)"
proof (induction ys arbitrary: xs g1)
  case (Cons a ys)
  let ?g = "if keep a then g1 else g1\<lparr>msgs := il_drop a (msgs g1)\<rparr>"
  have b: "body a g1 = Some (None, ?g)" using Cons.prems by (intro body) auto
  have ok: "il_ok (msgs ?g)" using Cons.prems(1) il_ok_drop [of "msgs g1" a] by simp
  have ord: "order (msgs ?g) = (if keep a then xs @ [a] else xs) @ ys"
    using Cons.prems il_drop_order by auto
  have "a \<notin> set ys" using Cons.prems(1,2) by (auto simp: il_ok_def)
  then have "\<forall>x \<in> set ys. mget x ?g = mget x g"
    using Cons.prems(4) by (auto simp: mget_def il_drop_cell)
  with Cons.IH [OF ok ord] Cons.prems(3) b show ?case by simp
qed simp

lemma safe_keep_or_delete:
  assumes body: "\<And>a g'. il_ok (msgs g') \<Longrightarrow> protos g' = protos g \<Longrightarrow> a \<in> set (order (msgs g')) \<Longrightarrow>
      mget a g' = mget a g \<Longrightarrow>
      body a g' = Some (None, if keep a then g' else g'\<lparr>msgs := il_drop a (msgs g')\<rparr>)"
    and ok: "il_ok (msgs g)"
  shows "list_for_each_safe (Suc (length (order (msgs g)))) (\<lambda>g. il_next (msgs g)) body 0 g
    = Some (None :: 'r option, drop_msgs keep (order (msgs g)) g)"
proof -
  let ?I = "\<lambda>g'. protos g' = protos g \<and> (\<forall>a \<in> set (order (msgs g')). mget a g' = mget a g)"
  have "list_for_each_safe (Suc (length (order (msgs g)))) (\<lambda>g. il_next (msgs g)) body 0 g
      = fold_body body (order (msgs g)) g"
  proof (rule msg_list.list_for_each_safe_fold [where I = ?I])
    fix p xs ys s s'
    assume I: "?I s" and r: "il_rep (msgs s) 0 (xs @ p # ys)" and b: "body p s = Some (None, s')"
    have l: "il_ok (msgs s)" "order (msgs s) = xs @ p # ys" using r by (auto simp: il_rep_def)
    then have s': "s' = (if keep p then s else s\<lparr>msgs := il_drop p (msgs s)\<rparr>)"
      using body [of s p] I b by simp
    have d: "il_rep (msgs (s\<lparr>msgs := il_drop p (msgs s)\<rparr>)) 0 (xs @ ys)"
      using msg_list.rep_del [OF r] .
    have "p \<notin> set (xs @ ys)" using l by (auto simp: il_ok_def)
    then show "?I s' \<and> (\<exists>xs'. il_rep (msgs s') 0 (xs' @ ys))"
      using I s' d r l il_drop_order [OF l] by (auto simp: mget_def il_drop_cell intro: exI [of _ "xs @ [p]"])
  qed (use ok il_rep_order in auto)
  also have "\<dots> = Some (None, drop_msgs keep (order (msgs g)) g)"
    by (rule fold_keep_or_delete [where xs = "[]", OF body]) (use ok in auto)
  finally show ?thesis .
qed

text \<open>C32: \<open>del_all_msg\<close> ends after one round per message, leaves an empty queue and frees every
  message that was in it, and touches nothing else.\<close>

theorem del_all_msg_empties:
  assumes "gw_ok g"
  shows "\<exists>q. del_all_msg (Suc (length (order (msgs g)))) g = Some (0, g\<lparr>msgs := q\<rparr>) \<and>
    order q = [] \<and> (\<forall>a \<in> set (order (msgs g)). cell q a = None)"
proof -
  have ok: "il_ok (msgs g)" using assms by (simp add: gw_ok_def)
  let ?g = "drop_msgs (\<lambda>_. False) (order (msgs g)) g"
  have "list_for_each_safe (Suc (length (order (msgs g)))) (\<lambda>g. il_next (msgs g))
      (\<lambda>a g. do { (_, g1) \<leftarrow> del_msg a g; Some (None :: unit option, g1) }) 0 g = Some (None, ?g)"
    by (rule safe_keep_or_delete [OF _ ok]) (simp add: del_msg_live)
  moreover have "?g = g\<lparr>msgs := msgs ?g\<rparr>" by (simp add: drop_msgs_def)
  ultimately show ?thesis
    using drop_msgs_order [OF ok, of "\<lambda>_. False"]
    by (intro exI [of _ "msgs ?g"]) (simp add: del_all_msg_def mget_def)
qed

text \<open>\<open>clean_msg\<close> deletes exactly the messages whose target is not the name of a registered
  protocol, and keeps the others in their order.\<close>

theorem clean_msg_filters:
  assumes "gw_ok g" "length (order (protos g)) < fuel" "length (order (msgs g)) < fuel"
  shows "\<exists>q. clean_msg fuel g = Some (0, g\<lparr>msgs := q\<rparr>) \<and>
    order q = filter (\<lambda>a. \<exists>m. mget a g = Some m \<and> known_name g (m_target m)) (order (msgs g))"
proof -
  let ?keep = "\<lambda>a. \<exists>m. mget a g = Some m \<and> known_name g (m_target m)"
  have ok: "il_ok (msgs g)" "il_ok (protos g)" using assms(1) by (simp_all add: gw_ok_def)
  let ?g = "drop_msgs ?keep (order (msgs g)) g"
  have "list_for_each_safe (Suc (length (order (msgs g)))) (\<lambda>g. il_next (msgs g)) (clean_body fuel) 0 g
      = Some (None, ?g)"
  proof (rule safe_keep_or_delete [OF _ ok(1)])
    fix a g' assume g': "il_ok (msgs g')" "protos g' = protos g" "a \<in> set (order (msgs g'))"
      "mget a g' = mget a g"
    then have "mget a g' \<noteq> None" using g'(1,3) by (metis il_ok_def mget_def)
    with g'(4) obtain m where m: "mget a g = Some m" by auto
    have "known_name g' = known_name g" using g'(2) by (simp add: known_name_def pget_def fun_eq_iff)
    with m g' show "clean_body fuel a g'
        = Some (None, if ?keep a then g' else g'\<lparr>msgs := il_drop a (msgs g')\<rparr>)"
      using ok(2) assms(2) by (simp add: clean_body_def target_known_spec del_msg_live)
  qed
  then have "list_for_each_safe fuel (\<lambda>g. il_next (msgs g)) (clean_body fuel) 0 g = Some (None, ?g)"
    using assms(3) by (auto elim: list_for_each_safe_mono)
  moreover have "?g = g\<lparr>msgs := msgs ?g\<rparr>" by (simp add: drop_msgs_def)
  ultimately show ?thesis
    using drop_msgs_order [OF ok(1), of ?keep]
    by (intro exI [of _ "msgs ?g"]) (simp add: clean_msg_def)
qed

lemma add_msg_appends:
  assumes "gw_ok g" "length (pm_content m) = 1024"
  shows "(add_msg t m g \<noteq> None \<longleftrightarrow> 0 \<le> pm_length m \<and> pm_length m \<le> 1024) \<and>
    (\<forall>r g'. add_msg t m g = Some (r, g') \<longrightarrow> r = 0 \<and> gw_ok g' \<and> protos g' = protos g \<and>
       (\<exists>a x. order (msgs g') = order (msgs g) @ [a] \<and> mget a g' = Some x \<and>
          m_target x = take 127 t \<and> m_length x = pm_length m \<and>
          take (nat (pm_length m)) (m_content x) = take (nat (pm_length m)) (pm_content m)))"
proof -
  have "add_msg t m g \<noteq> None \<longleftrightarrow> 0 \<le> pm_length m \<and> pm_length m \<le> 1024"
    using assms(2) by (auto simp: add_msg_def bget_def bput_def nat_le_iff)
  moreover have "r = 0 \<and> gw_ok g' \<and> protos g' = protos g \<and>
       (\<exists>a x. order (msgs g') = order (msgs g) @ [a] \<and> mget a g' = Some x \<and>
          m_target x = take 127 t \<and> m_length x = pm_length m \<and>
          take (nat (pm_length m)) (m_content x) = take (nat (pm_length m)) (pm_content m))"
    if a: "add_msg t m g = Some (r, g')" for r g'
  proof -
    obtain d c where dc: "0 \<le> pm_length m" "bget (pm_content m) 0 (nat (pm_length m)) = Some d"
        "bput (replicate 1024 0) 0 d = Some c" "r = 0"
      and g': "g' = g\<lparr>msgs := il_add \<lparr>m_type = pm_type m, m_content = c, m_target = take 127 t,
          m_length = pm_length m\<rparr> (msgs g)\<rparr>"
      using a unfolding add_msg_def
      by (cases "pm_length m < 0"; simp add: bind_eq_Some_conv; elim exE conjE; simp)
    have d: "d = take (nat (pm_length m)) (pm_content m)" "length d = nat (pm_length m)"
      using dc by (auto simp: bget_def split: if_splits)
    have "take (nat (pm_length m)) c = d" using dc(3) d(2) [symmetric] by (auto simp: bput_def split: if_splits)
    then show ?thesis
      using add_msg_gw_ok [OF a assms(1)] dc d g'
      by (intro conjI exI [of _ "fresh (msgs g)"]) (simp_all add: il_add_def mget_def)
  qed
  ultimately show ?thesis by blast
qed

text \<open>\<open>add_msg\<close> stays inside its arrays exactly when the message length fits them, and then
  appends one message with that content to the queue; the queue stays well formed.\<close>

theorem add_msg_spec:
  assumes "gw_ok g" "length (pm_content m) = 1024"
  shows "(add_msg t m g \<noteq> None \<longleftrightarrow> 0 \<le> pm_length m \<and> pm_length m \<le> 1024) \<and>
    (\<forall>r g'. add_msg t m g = Some (r, g') \<longrightarrow> r = 0 \<and> gw_ok g' \<and> protos g' = protos g \<and>
       (\<exists>a x. order (msgs g') = order (msgs g) @ [a] \<and> mget a g' = Some x \<and>
          m_target x = take 127 t \<and> m_length x = pm_length m \<and>
          take (nat (pm_length m)) (m_content x) = take (nat (pm_length m)) (pm_content m)))"
  using add_msg_appends [OF assms] .

text \<open>C11: The pointer operations implement the containers: appending and unlinking a node keep the
  links in step with the order, and following the forward link is \<open>il_next\<close>.\<close>

theorem containers_refined:
  assumes "linked s l" "il_ok l"
  shows "linked (list_add_tail (fresh l) 0 s) (il_add v l) \<and>
    (a \<in> set (order l) \<longrightarrow> linked (list_del a s) (il_unlink a l)) \<and>
    (il_next l a = Some b \<longrightarrow> nxt s a = b)"
  using linked_add [OF assms, of v] linked_unlink [OF assms(1), of a] linked_next [OF assms, of a b]
  by simp

section \<open>Examples\<close>

definition ex_msg :: st_pro_msg where
  "ex_msg = \<lparr>pm_type = 1, pm_content = replicate 1024 0x55, pm_length = 3\<rparr>"

definition ex_proto :: "byte list \<Rightarrow> proto_kind \<Rightarrow> st_proto" where
  "ex_proto n k = \<lparr>pname = n, config = LOOP_CFG_RETRY, timecount = 0, timeout = 1024, pfd = -1,
     recv_buf = \<lparr>payload = replicate 16 0, max_len = 16, blen = 0, bbegin = 0\<rparr>,
     play_status = sim_status sim_start, callbacks = k, active = 0, private_buf = None\<rparr>"

definition ex_gw :: "sim gateway" where
  "ex_gw = (let g1 = snd (add_proto (ex_proto [0x61] K_TCP_CLI) sim_gateway);
                g2 = snd (the (add_msg [0x61] ex_msg g1))
            in snd (the (add_msg [0x62] ex_msg g2)))"

lemma sim_gateway_ok: "gw_ok sim_gateway"
  by (simp add: gw_ok_def sim_gateway_def il_ok_no_nodes)

lemma ex_add_msg: "gw_ok g \<Longrightarrow> \<exists>g'. add_msg t ex_msg g = Some (0, g') \<and> gw_ok g'"
  using add_msg_gw_ok [of t ex_msg g 0] by (simp add: add_msg_def bget_def bput_def ex_msg_def)

lemma ex_gw_ok: "gw_ok ex_gw"
proof -
  let ?g = "snd (add_proto (ex_proto [0x61] K_TCP_CLI) sim_gateway)"
  have g: "gw_ok ?g" using sim_gateway_ok by (rule add_proto_gw_ok)
  obtain g2 where g2: "add_msg [0x61] ex_msg ?g = Some (0, g2)" "gw_ok g2" using ex_add_msg [OF g] by blast
  obtain g3 where "add_msg [0x62] ex_msg g2 = Some (0, g3)" "gw_ok g3" using ex_add_msg [OF g2(2)] by blast
  then show ?thesis by (simp add: ex_gw_def g2)
qed

lemma ex_gw_queue: "order (msgs ex_gw) = [1, 2]" "order (protos ex_gw) = [1]"
  by (simp_all add: ex_gw_def add_msg_def bget_def bput_def ex_msg_def il_add_def add_proto_def
      sim_gateway_def no_nodes_def)

lemma del_all_msg_empties_witness: "\<exists>q. del_all_msg 3 ex_gw = Some (0, ex_gw\<lparr>msgs := q\<rparr>) \<and> order q = []"
  using del_all_msg_empties [OF ex_gw_ok] by (auto simp: ex_gw_queue numeral_3_eq_3)

lemma clean_msg_filters_witness: "\<exists>q. clean_msg 3 ex_gw = Some (0, ex_gw\<lparr>msgs := q\<rparr>) \<and> order q = [1]"
proof -
  have "mget 1 ex_gw = Some \<lparr>m_type = 1, m_content = replicate 3 0x55 @ replicate 1021 0, m_target = [0x61], m_length = 3\<rparr>"
      "mget 2 ex_gw = Some \<lparr>m_type = 1, m_content = replicate 3 0x55 @ replicate 1021 0, m_target = [0x62], m_length = 3\<rparr>"
    by (simp_all add: ex_gw_def add_msg_def bget_def bput_def ex_msg_def il_add_def add_proto_def
        sim_gateway_def no_nodes_def mget_def)
  moreover have "known_name ex_gw t = (t = [0x61])" for t
    by (auto simp: known_name_def ex_gw_queue)
      (simp_all add: pget_def ex_gw_def add_msg_def bget_def bput_def ex_msg_def il_add_def
        add_proto_def sim_gateway_def no_nodes_def ex_proto_def)
  ultimately show ?thesis
    using clean_msg_filters [OF ex_gw_ok, of 3] by (simp add: ex_gw_queue)
qed

lemma add_msg_spec_witness:
  "\<not> add_msg [0x61] (ex_msg\<lparr>pm_length := 1025\<rparr>) ex_gw \<noteq> None \<and> add_msg [0x61] ex_msg ex_gw \<noteq> None"
proof
  have l: "length (pm_content (ex_msg\<lparr>pm_length := 1025\<rparr>)) = 1024" "length (pm_content ex_msg) = 1024"
    "pm_length (ex_msg\<lparr>pm_length := 1025\<rparr>) = 1025" "pm_length ex_msg = 3"
    by (simp_all add: ex_msg_def)
  show "\<not> add_msg [0x61] (ex_msg\<lparr>pm_length := 1025\<rparr>) ex_gw \<noteq> None"
    using add_msg_spec [OF ex_gw_ok l(1), THEN conjunct1] l(3) by simp
  show "add_msg [0x61] ex_msg ex_gw \<noteq> None"
    using add_msg_spec [OF ex_gw_ok l(2), THEN conjunct1] l(4) by simp
qed

lemma containers_refined_witness:
  "linked (list_add_tail 1 0 (INIT_LIST_HEAD 0 \<lparr>nxt = (\<lambda>_. 0), prv = (\<lambda>_. 0)\<rparr>)) (il_add () no_nodes)"
proof -
  have "linked (INIT_LIST_HEAD 0 \<lparr>nxt = (\<lambda>_. 0), prv = (\<lambda>_. 0)\<rparr>) (no_nodes :: unit ilist)"
    by (simp add: linked_def no_nodes_def INIT_LIST_HEAD_def)
  moreover have "fresh (no_nodes :: unit ilist) = 1" by (simp add: no_nodes_def)
  ultimately show ?thesis
    using containers_refined [OF _ il_ok_no_nodes, THEN conjunct1, of _ "()"] by metis
qed

end
