(* ===== verification/Halo_Text.thy ===== *)
theory Halo_Text
  imports Halo_Prelude
begin

text \<open>
  The buffer and string helpers of \<open>app/common.c\<close>: moving a buffer forward, cutting it at a
  key, the line loop of \<open>FOREACH_LINE_OF_BUF\<close>, stripping leading control bytes, and the
  file name helpers. The lemmas give each helper's effect as an equation on lists and show
  that the line loop visits exactly the lines of the buffer.
\<close>

section \<open>mvforward\<close>

fun mv_loop :: "nat \<Rightarrow> nat \<Rightarrow> nat \<Rightarrow> cbuf \<Rightarrow> cbuf option" where
  "mv_loop 0 i step b = Some b"
| "mv_loop (Suc n) i step b =
     do { c \<leftarrow> rd b (i + step); b' \<leftarrow> wr b i c; mv_loop n (Suc i) step b' }"

definition mvforward :: "cbuf \<Rightarrow> int \<Rightarrow> int \<Rightarrow> cbuf option" where
  "mvforward des sz step =
     (if step > sz then Some des
      else if step < 0 then None
      else do {
        b \<leftarrow> mv_loop (nat (sz - step)) 0 (nat step) des;
        bset b (nat (sz - step)) (nat step) 0 })"

lemma mv_loop_spec:
  "i + n + step \<le> length b \<Longrightarrow>
   mv_loop n i step b = Some (take i b @ take n (drop (i + step) b) @ drop (i + n) b)"
proof (induction n arbitrary: i b)
  case 0
  then show ?case by simp
next
  case (Suc n)
  let ?b = "b[i := b ! (i + step)]"
  have i: "i < length b" "i + step < length b" using Suc.prems by auto
  have 1: "mv_loop (Suc n) i step b = mv_loop n (Suc i) step ?b"
    using i by (simp add: rd_def wr_def)
  have 2: "mv_loop n (Suc i) step ?b
      = Some (take (Suc i) ?b @ take n (drop (Suc i + step) ?b) @ drop (Suc i + n) ?b)"
    using Suc.prems by (intro Suc.IH) simp
  have 3: "take (Suc i) ?b = take i b @ [b ! (i + step)]"
    using i by (simp add: take_Suc_conv_app_nth)
  have 4: "drop (Suc i + step) ?b = drop (Suc i + step) b" "drop (Suc i + n) ?b = drop (Suc i + n) b"
    by (rule drop_update_cancel, simp)+
  have 5: "take (Suc n) (drop (i + step) b) = b ! (i + step) # take n (drop (Suc i + step) b)"
    using i by (simp add: Cons_nth_drop_Suc [symmetric])
  show ?case unfolding 1 2 3 4 5 by simp
qed

lemma mvforward_spec:
  assumes "0 \<le> step" "step \<le> sz" "sz \<le> int (length b)"
  shows "mvforward b sz step =
     Some (take (nat (sz - step)) (drop (nat step) b) @ replicate (nat step) 0 @ drop (nat sz) b)"
proof -
  let ?n = "nat (sz - step)" and ?s = "nat step"
  have len: "?n + ?s \<le> length b" "nat sz = ?n + ?s" using assms by auto
  have mv: "mv_loop ?n 0 ?s b = Some (take ?n (drop ?s b) @ drop ?n b)"
    using len mv_loop_spec [of 0 ?n ?s b] by simp
  have st: "bset (take ?n (drop ?s b) @ drop ?n b) ?n ?s 0
      = Some (take ?n (drop ?s b) @ replicate ?s 0 @ drop ?s (drop ?n b))"
    using len by (intro bset_prefix) auto
  have dr: "drop ?s (drop ?n b) = drop (nat sz) b"
    unfolding len(2) drop_drop by (simp only: add.commute)
  show ?thesis
    using assms unfolding mvforward_def by (simp add: mv st dr del: drop_drop)
qed

lemma mvforward_SomeD:
  assumes "mvforward b sz step = Some b'"
  shows "step > sz \<and> b' = b \<or> 0 \<le> step \<and> step \<le> sz \<and> sz \<le> int (length b) \<and>
    b' = take (nat (sz - step)) (drop (nat step) b) @ replicate (nat step) 0 @ drop (nat sz) b"
proof (cases "step > sz")
  case True
  with assms show ?thesis by (simp add: mvforward_def)
next
  case False
  have mvl: "mv_loop n i s b = Some b' \<Longrightarrow> length b' = length b" for n i s b b'
    by (induction n arbitrary: i b) (fastforce dest: wr_length split: bind_splits)+
  from assms False have t0: "0 \<le> step" by (auto simp: mvforward_def split: if_splits)
  with assms False obtain c where c: "mv_loop (nat (sz - step)) 0 (nat step) b = Some c"
      "bset c (nat (sz - step)) (nat step) 0 = Some b'"
    by (auto simp: mvforward_def split: bind_splits)
  have "nat (sz - step) + nat step \<le> length b"
    using c(2) mvl [OF c(1)] by (simp add: bset_def split: if_splits)
  with t0 False have len: "sz \<le> int (length b)" by linarith
  with mvforward_spec [OF t0 _ len] t0 False assms show ?thesis by simp
qed

lemma mvforward_append:
  "mvforward (xs @ ys @ zs) (int (length xs + length ys)) (int (length xs))
     = Some (ys @ replicate (length xs) 0 @ zs)"
  by (subst mvforward_spec) (auto simp: nat_add_distrib)

lemma mvforward_length: "mvforward b sz step = Some b' \<Longrightarrow> length b' = length b"
  by (drule mvforward_SomeD) auto

section \<open>Cutting at a key\<close>

definition key_to_zero :: "cbuf \<Rightarrow> byte \<Rightarrow> (int \<times> cbuf) option" where
  "key_to_zero input key =
     do { s \<leftarrow> cstr input;
          if s = [] then Some (0, input)
          else (case strchr s key of
              None \<Rightarrow> Some (0, input)
            | Some p \<Rightarrow> do { b \<leftarrow> wr input p 0; Some (int p + 1, b) }) }"

definition str_to_zero :: "cbuf \<Rightarrow> byte list \<Rightarrow> (int \<times> cbuf) option" where
  "str_to_zero input key =
     do { s \<leftarrow> cstr input;
          if s = [] then Some (0, input)
          else (case find_sub key s of
              None \<Rightarrow> Some (0, input)
            | Some p \<Rightarrow>
                do { b \<leftarrow> bset input p (length key) 0;
                     Some (int p + int (length key), b) }) }"

lemma key_to_zero_hit:
  assumes "key \<noteq> 0" "key \<notin> set l" "0 \<notin> set l" "0 \<notin> set s"
  shows "key_to_zero (l @ key # s @ 0 # post) key
      = Some (int (length l) + 1, l @ 0 # s @ 0 # post)"
proof -
  have "cstr ((l @ key # s) @ 0 # post) = Some (l @ key # s)"
    using assms by (intro cstr_append) auto
  then show ?thesis
    using assms find_byte_prefix [of key l s]
    by (simp add: key_to_zero_def strchr_def wr_def)
qed

lemma key_to_zero_miss:
  assumes "key \<noteq> 0" "key \<notin> set s" "0 \<notin> set s"
  shows "key_to_zero (s @ 0 # post) key = Some (0, s @ 0 # post)"
proof -
  have "strchr s key = None" using assms by (simp add: strchr_def)
  then show ?thesis using assms by (simp add: key_to_zero_def cstr_append)
qed

lemma key_to_zero_cases:
  assumes "key_to_zero b key = Some (t, b1)" "key \<noteq> 0"
  obtains "t = 0" "b1 = b"
  | l s post where "b = l @ key # s @ 0 # post" "key \<notin> set l" "0 \<notin> set l" "0 \<notin> set s"
      "t = int (length l) + 1" "b1 = l @ 0 # s @ 0 # post"
proof -
  from assms obtain s where s: "cstr b = Some s"
    by (auto simp: key_to_zero_def split: bind_splits)
  then obtain post where b: "b = s @ 0 # post" and z: "0 \<notin> set s"
    by (auto dest: cstr_SomeD)
  show thesis
  proof (cases "key \<in> set s")
    case False
    with assms b z key_to_zero_miss [of key s post] that(1) show thesis by simp
  next
    case True
    then obtain l r where s': "s = l @ key # r" "key \<notin> set l"
      by (auto dest: split_list_first)
    with assms b z key_to_zero_hit [of key l r post] that(2) [of l r post] show thesis by simp
  qed
qed

section \<open>The line loop\<close>

text \<open>\<open>FOREACH_LINE_OF_BUF(buf, length, tmp)\<close>: the lines the loop body sees, in order, and
  the buffer and length it leaves. The number of newlines in the buffer drops in every
  round, whatever the length is.\<close>

lemma count_mvforward:
  assumes "mvforward b len t = Some b'" "x \<noteq> 0"
  shows "count_list b' x \<le> count_list b x"
  using mvforward_SomeD [OF assms(1)]
proof
  assume a: "0 \<le> t \<and> t \<le> len \<and> len \<le> int (length b) \<and>
    b' = take (nat (len - t)) (drop (nat t) b) @ replicate (nat t) 0 @ drop (nat len) b"
  have "nat len = nat (len - t) + nat t" using a by linarith
  then have "drop (nat (len - t)) (drop (nat t) b) = drop (nat len) b"
    by (simp add: add.commute)
  then have "b = take (nat t) b @ take (nat (len - t)) (drop (nat t) b) @ drop (nat len) b"
    by (metis append_take_drop_id)
  then have "count_list b x = count_list (take (nat t) b) x
      + count_list (take (nat (len - t)) (drop (nat t) b)) x + count_list (drop (nat len) b) x"
    by (metis add.assoc count_list_append)
  moreover have "count_list (replicate (nat t) 0) x = 0"
    using assms(2) by (simp add: count_list_0_iff)
  ultimately show ?thesis using a by simp
qed simp

function foreach_line :: "cbuf \<Rightarrow> int \<Rightarrow> (byte list list \<times> cbuf \<times> int) option" where
  "foreach_line buf len =
     do { (tmp, b1) \<leftarrow> key_to_zero buf 0x0a;
          if tmp = 0 then Some ([], b1, len)
          else do {
            line \<leftarrow> cstr b1;
            b2 \<leftarrow> mvforward b1 len tmp;
            (ls, b3, len3) \<leftarrow> foreach_line b2 (len - tmp);
            Some (line # ls, b3, len3) } }"
  by pat_completeness auto

termination
proof (relation "measure (\<lambda>(b, len). count_list b 0x0a)")
  fix buf len t b1 l b2 p
  assume key: "key_to_zero buf 0x0a = Some p" and p: "(t, b1) = p" and t: "t \<noteq> 0"
    and mv: "mvforward b1 len t = Some b2"
  from key p have "key_to_zero buf 0x0a = Some (t, b1)" by simp
  then have "count_list b1 0x0a < count_list buf 0x0a"
    by (rule key_to_zero_cases) (use t in auto)
  with count_mvforward [OF mv, of "0x0a"]
  show "((b2, len - t), buf, len) \<in> measure (\<lambda>(b, len). count_list b 0x0a)"
    by simp
qed simp

declare foreach_line.simps [simp del]

text \<open>The lines of a text: the pieces ended by a newline.\<close>

fun text_of :: "byte list list \<Rightarrow> byte list" where
  "text_of [] = []"
| "text_of (l # ls) = l @ 0x0a # text_of ls"

lemma length_text_of [simp]: "length (text_of ls) = (\<Sum>l\<leftarrow>ls. length l + 1)"
  by (induction ls) auto

lemma zero_text_of: "\<forall>l \<in> set ls. 0 \<notin> set l \<Longrightarrow> 0 \<notin> set (text_of ls)"
  by (induction ls) auto

lemma foreach_line_text:
  assumes "\<forall>l \<in> set ls. 0 \<notin> set l \<and> 0x0a \<notin> set l" "0 \<notin> set rest" "0x0a \<notin> set rest"
  shows "foreach_line (text_of ls @ rest @ 0 # post) (int (length (text_of ls @ rest)))
     = Some (ls, rest @ 0 # replicate (length (text_of ls)) 0 @ post, int (length rest))"
  using assms(1)
proof (induction ls arbitrary: post)
  case Nil
  have "key_to_zero (rest @ 0 # post) 0x0a = Some (0, rest @ 0 # post)"
    using assms by (intro key_to_zero_miss) auto
  then show ?case by (simp add: foreach_line.simps [of "rest @ 0 # post"])
next
  case (Cons l ls)
  let ?t = "text_of ls" and ?n = "Suc (length l)"
  let ?b = "l @ 0x0a # (?t @ rest) @ 0 # post" and ?b1 = "l @ 0 # (?t @ rest) @ 0 # post"
  have z: "0 \<notin> set (?t @ rest)" using Cons.prems assms zero_text_of [of ls] by auto
  have k: "key_to_zero ?b 0x0a = Some (int (length l) + 1, ?b1)"
    using Cons.prems z by (intro key_to_zero_hit) auto
  have c: "cstr ?b1 = Some l" using Cons.prems by (intro cstr_append) auto
  have m: "mvforward ?b1 (int (length (l @ 0x0a # ?t @ rest))) (int (length l) + 1)
      = Some (?t @ rest @ 0 # (replicate ?n 0 @ post))"
    using mvforward_append [of "l @ [0]" "?t @ rest" "0 # post"]
    by (simp add: algebra_simps replicate_app_Cons_same)
  have n: "int (length (l @ 0x0a # ?t @ rest)) - (int (length l) + 1) = int (length (?t @ rest))"
    by simp
  have "foreach_line ?b (int (length (l @ 0x0a # ?t @ rest)))
     = do { (ls', b3, len3) \<leftarrow> foreach_line (?t @ rest @ 0 # (replicate ?n 0 @ post))
              (int (length (?t @ rest)));
            Some (l # ls', b3, len3) }"
    unfolding foreach_line.simps [of ?b] k bind.bind_lunit using c m n by simp
  moreover have "replicate (length ?t) 0 @ replicate ?n 0 @ post
      = replicate (length (text_of (l # ls))) (0 :: byte) @ post"
  proof -
    have "length (text_of (l # ls)) = length ?t + ?n" by simp
    then show ?thesis by (simp only: replicate_add append_assoc)
  qed
  ultimately show ?case
    using Cons.IH [of "replicate ?n 0 @ post"] Cons.prems by simp
qed

text \<open>The line loop sees exactly the lines of the buffer, in order, and leaves the
  unterminated rest at the front of the buffer with the length that fits it.\<close>

theorem foreach_line_visits:
  assumes "\<forall>l \<in> set ls. 0 \<notin> set l \<and> 0x0a \<notin> set l" "0 \<notin> set rest" "0x0a \<notin> set rest"
  shows "foreach_line (text_of ls @ rest @ 0 # post) (int (length (text_of ls @ rest)))
     = Some (ls, rest @ 0 # replicate (length (text_of ls)) 0 @ post, int (length rest))"
  by (rule foreach_line_text [OF assms])

section \<open>Leading control bytes\<close>

text \<open>\<open>del_null\<close> drops the bytes below 32 at the front. The loop reads \<open>*ptr\<close> before it looks
  at \<open>len\<close>, and \<open>len--\<close> runs once more when the guard on \<open>len\<close> fails.\<close>

function del_null_loop :: "bool \<Rightarrow> cbuf \<Rightarrow> nat \<Rightarrow> int \<Rightarrow> int \<Rightarrow> (int \<times> int) option" where
  "del_null_loop sg b i len num =
     do { c \<leftarrow> rd b i;
          if char_val sg c < 32
          then (if len > 0 then del_null_loop sg b (Suc i) (len - 1) (num + 1)
                else Some (len - 1, num))
          else Some (len, num) }"
  by pat_completeness auto
termination by (relation "measure (\<lambda>(sg, b, i, len, num). nat len)") auto

declare del_null_loop.simps [simp del]

definition del_null :: "bool \<Rightarrow> cbuf \<Rightarrow> int \<Rightarrow> cbuf option" where
  "del_null sg des len =
     do { (l, num) \<leftarrow> del_null_loop sg des 0 len 0;
          if l \<noteq> 0 \<and> num \<noteq> 0 then mvforward des len num else Some des }"

lemma del_null_loop_spec:
  assumes "\<forall>c \<in> set ctl. char_val sg c < 32" "\<not> char_val sg c < 32"
    "b = pre @ ctl @ c # rest" "int (length ctl) \<le> len"
  shows "del_null_loop sg b (length pre) len num
      = Some (len - int (length ctl), num + int (length ctl))"
  using assms
proof (induction ctl arbitrary: pre len num)
  case Nil
  then have "rd b (length pre) = Some c" by (simp add: rd_append)
  with Nil.prems(2) show ?case by (subst del_null_loop.simps) simp
next
  case (Cons d ctl)
  have rdd: "rd b (length pre) = Some d" using Cons.prems(3) by (simp add: rd_append)
  have "del_null_loop sg b (length (pre @ [d])) (len - 1) (num + 1)
      = Some (len - 1 - int (length ctl), num + 1 + int (length ctl))"
    using Cons.prems by (intro Cons.IH) auto
  then show ?case
    using Cons.prems(1,4) by (subst del_null_loop.simps) (simp add: rdd)
qed

lemma del_null_strips:
  assumes "\<forall>c \<in> set ctl. char_val sg c < 32" "\<not> char_val sg c < 32" "ctl \<noteq> []"
  shows "del_null sg (ctl @ c # rest @ post) (int (length (ctl @ c # rest)))
     = Some (c # rest @ replicate (length ctl) 0 @ post)"
proof -
  let ?b = "ctl @ c # rest @ post"
  have "del_null_loop sg ?b 0 (int (length (ctl @ c # rest))) 0
      = Some (int (length (c # rest)), int (length ctl))"
    using del_null_loop_spec [of ctl sg c ?b "[]" "rest @ post" "int (length (ctl @ c # rest))" 0]
      assms by simp
  moreover have "mvforward ?b (int (length (ctl @ c # rest))) (int (length ctl))
      = Some (c # rest @ replicate (length ctl) 0 @ post)"
    using mvforward_append [of ctl "c # rest" post] by simp
  ultimately show ?thesis using assms(3) by (simp add: del_null_def)
qed

section \<open>File names\<close>

text \<open>\<open>get_music_name\<close> assumes a slash in the uri: without one it steps from a null pointer.
  A dot only in the directory part makes the length negative, a huge \<open>size_t\<close>.\<close>

definition get_music_name :: "cbuf \<Rightarrow> cbuf \<Rightarrow> int \<Rightarrow> (int \<times> cbuf) option" where
  "get_music_name uri name maxlen =
     do { s \<leftarrow> cstr uri;
          q \<leftarrow> find_last 0x2f s;
          let p = Suc q in
          (case find_last 0x2e s of
             None \<Rightarrow> Some (0, name)
           | Some t \<Rightarrow>
               if t = p then Some (0, name)
               else let n = (if int t - int p > maxlen then maxlen else int t - int p) in
                 if n < 0 then None
                 else do { nm \<leftarrow> strncpy name (drop p s) (nat n); Some (0, nm) }) }"

definition sep_file_suffix ::
  "cbuf \<Rightarrow> cbuf \<Rightarrow> int \<Rightarrow> cbuf \<Rightarrow> (int \<times> cbuf \<times> cbuf \<times> cbuf) option" where
  "sep_file_suffix uri name max_len suffix =
     do { s \<leftarrow> cstr uri;
          if s = [] \<or> max_len \<le> 3 then Some (-1, uri, name, suffix)
          else (case find_last 0x2e s of
              None \<Rightarrow> Some (-1, uri, name, suffix)
            | Some t \<Rightarrow>
                do { suf \<leftarrow> strncpy suffix (drop t s) 6;
                     if 0x2f \<in> set s
                     then do { (_, nm) \<leftarrow> get_music_name uri name max_len; Some (0, uri, nm, suf) }
                     else do { uri' \<leftarrow> wr uri t 0;
                               nm \<leftarrow> strncpy name (take t s) (nat max_len);
                               Some (0, uri', nm, suf) } }) }"

text \<open>\<open>atoi\<close> of the C library; a number outside of \<open>int\<close> is undefined.\<close>

definition atoi :: "byte list \<Rightarrow> int option" where
  "atoi s =
     (let s1 = dropWhile (\<lambda>c. c = 0x20 \<or> (9 \<le> c \<and> c \<le> 13)) s;
          neg = (s1 \<noteq> [] \<and> s1 ! 0 = 0x2d);
          s2 = (if neg \<or> (s1 \<noteq> [] \<and> s1 ! 0 = 0x2b) then drop 1 s1 else s1);
          n = dec_fold 0 (takeWhile is_digit s2)
      in int32 (if neg then - n else n))"

text \<open>Decimal output of \<open>sprintf\<close>.\<close>

fun dec_nat :: "nat \<Rightarrow> byte list" where
  "dec_nat n = (if n < 10 then [of_nat n + 0x30] else dec_nat (n div 10) @ [of_nat (n mod 10) + 0x30])"

declare dec_nat.simps [simp del]

definition dec_int :: "int \<Rightarrow> byte list" where
  "dec_int i = (if i < 0 then 0x2d # dec_nat (nat (- i)) else dec_nat (nat i))"

definition to_lower :: "byte \<Rightarrow> byte" where
  "to_lower c = (if 0x41 \<le> c \<and> c \<le> 0x5a then c + 0x20 else c)"

fun lower_str :: "cbuf \<Rightarrow> cbuf option" where
  "lower_str [] = None"
| "lower_str (c # cs) = (if c = 0 then Some (c # cs) else map_option ((#) (to_lower c)) (lower_str cs))"

fun digits_loop :: "int \<Rightarrow> cbuf \<Rightarrow> int option" where
  "digits_loop n [] = None"
| "digits_loop n (c # cs) =
     (if is_digit c
      then do { n1 \<leftarrow> int32 (n * 10); n2 \<leftarrow> int32 (n1 + digit_val c); digits_loop n2 cs }
      else Some n)"

definition sep_to_index_suffix :: "cbuf \<Rightarrow> cbuf \<Rightarrow> (int \<times> cbuf \<times> cbuf) option" where
  "sep_to_index_suffix uri suffix =
     do { (r, uri', name, suf) \<leftarrow> sep_file_suffix uri (replicate 20 0) 20 suffix;
          if r < 0 then Some (-1, uri', suf)
          else do {
            suf' \<leftarrow> lower_str suf;
            c \<leftarrow> rd name 0;
            if is_digit c
            then do { num \<leftarrow> digits_loop 0 name; Some (num, uri', suf') }
            else Some (-1, uri', suf') } }"

lemma dec_nat_length: "length (dec_nat n) \<le> Suc k \<longleftrightarrow> n < 10 ^ Suc k"
proof (induction k arbitrary: n)
  case 0
  have "dec_nat (n div 10) \<noteq> []" by (subst dec_nat.simps) simp
  then show ?case by (subst dec_nat.simps) simp
next
  case (Suc k)
  show ?case
  proof (cases "n < 10")
    case True
    then have "n < 10 ^ Suc (Suc k)" by (simp add: less_le_trans)
    then show ?thesis using True by (subst dec_nat.simps) simp
  next
    case False
    have "n div 10 < 10 ^ Suc k \<longleftrightarrow> n < 10 ^ Suc (Suc k)" by (simp add: div_less_iff_less_mult mult.commute)
    then show ?thesis using False Suc.IH [of "n div 10"] by (subst dec_nat.simps) simp
  qed
qed

lemma dec_nat_digits: "c \<in> set (dec_nat n) \<Longrightarrow> 0x30 \<le> c \<and> c \<le> 0x39"
proof (induction n rule: dec_nat.induct)
  case (1 n)
  have d: "0x30 \<le> (of_nat k :: byte) + 0x30 \<and> (of_nat k :: byte) + 0x30 \<le> 0x39" if "k < 10" for k
  proof -
    have "list_all (\<lambda>k. 0x30 \<le> (of_nat k :: byte) + 0x30 \<and> (of_nat k :: byte) + 0x30 \<le> 0x39) [0..<10]" by code_simp
    then show ?thesis using that by (simp add: list_all_iff)
  qed
  show ?case
  proof (cases "n < 10")
    case True
    then show ?thesis using 1(2) d [of n] by (subst (asm) dec_nat.simps) simp
  next
    case False
    then consider "c \<in> set (dec_nat (n div 10))" | "c = of_nat (n mod 10) + 0x30"
      using 1(2) by (subst (asm) dec_nat.simps) auto
    then show ?thesis using 1(1) [OF False] d [of "n mod 10"] by cases simp_all
  qed
qed

lemma lower_str_spec: "0 \<notin> set s \<Longrightarrow> lower_str (s @ 0 # r) = Some (map to_lower s @ 0 # r)"
  by (induction s) auto

lemma dec_step:
  assumes "d \<le> (9 :: int)"
  shows "(n * 10 + d + 1) * 10 ^ length ds \<le> (n + 1) * 10 ^ length (c # ds)"
proof -
  have "(n * 10 + d + 1) * 10 ^ length ds \<le> ((n + 1) * 10) * 10 ^ length ds"
    using assms by (intro mult_right_mono) auto
  then show ?thesis by (simp add: mult.assoc)
qed

lemma dec_fold_bound:
  assumes "\<forall>c \<in> set ds. is_digit c" "0 \<le> n"
  shows "n \<le> dec_fold n ds \<and> dec_fold n ds < (n + 1) * 10 ^ length ds"
  using assms
proof (induction ds arbitrary: n)
  case Nil
  then show ?case by simp
next
  case (Cons c ds)
  then have r: "0 \<le> digit_val c" "digit_val c \<le> 9" by (auto dest: is_digit_range)
  with Cons have "n * 10 + digit_val c \<le> dec_fold (n * 10 + digit_val c) ds
      \<and> dec_fold (n * 10 + digit_val c) ds < (n * 10 + digit_val c + 1) * 10 ^ length ds"
    by (intro Cons.IH) auto
  moreover have "(n * 10 + digit_val c + 1) * 10 ^ length ds \<le> (n + 1) * 10 ^ length (c # ds)"
    using r by (intro dec_step) auto
  moreover have "n \<le> n * 10 + digit_val c" using Cons.prems(2) r by simp
  ultimately show ?case unfolding dec_fold_Cons by linarith
qed

lemma digits_loop_spec:
  assumes "\<forall>c \<in> set ds. is_digit c" "\<not> is_digit c" "0 \<le> n" "(n + 1) * 10 ^ length ds \<le> 10 ^ 9"
  shows "digits_loop n (ds @ c # r) = Some (dec_fold n ds)"
  using assms
proof (induction ds arbitrary: n)
  case Nil
  then show ?case by simp
next
  case (Cons d ds)
  then have r: "0 \<le> digit_val d" "digit_val d \<le> 9" by (auto dest: is_digit_range)
  have le: "(n * 10 + digit_val d + 1) * 10 ^ length ds \<le> 10 ^ 9"
    using dec_step [of "digit_val d" n ds d] r Cons.prems(4) by linarith
  have "(n * 10 + digit_val d + 1) * 1 \<le> (n * 10 + digit_val d + 1) * 10 ^ length ds"
    using Cons.prems(3) r by (intro mult_left_mono) auto
  from order_trans [OF this le] have "n * 10 + digit_val d < 10 ^ 9" by simp
  then have "int32 (n * 10) = Some (n * 10)" "int32 (n * 10 + digit_val d) = Some (n * 10 + digit_val d)"
    using Cons.prems(3) r by (auto simp: int32_def)
  moreover have "digits_loop (n * 10 + digit_val d) (ds @ c # r) = Some (dec_fold (n * 10 + digit_val d) ds)"
    using Cons.prems r le by (intro Cons.IH) auto
  ultimately show ?case using Cons.prems(1) by simp
qed

text \<open>The index of a track file such as \<open>12_name.MP3\<close> is its leading digits read as a number,
  and its suffix is returned in lower case and terminated, for extensions of at most four
  characters.\<close>

theorem sep_to_index_suffix_track:
  assumes ds: "ds \<noteq> []" "\<forall>c \<in> set ds. is_digit c" "length ds \<le> 9"
    and nm: "\<forall>c \<in> set (nm @ ext). c \<noteq> 0 \<and> c \<noteq> 0x2f" "0x2e \<notin> set ext"
    and nd: "nm \<noteq> [] \<longrightarrow> \<not> is_digit (hd nm)"
    and len: "length ds + length nm < 20" "length ext < 5" "length suffix = 6"
  shows "\<exists>uri'. sep_to_index_suffix (ds @ nm @ 0x2e # ext @ 0 # post) suffix =
     Some (dec_fold 0 ds, uri', map to_lower (0x2e # ext) @ replicate (5 - length ext) 0)"
proof -
  let ?s = "(ds @ nm) @ 0x2e # ext" and ?t = "length (ds @ nm)"
  have dz: "c \<in> set ds \<Longrightarrow> c \<noteq> 0 \<and> c \<noteq> 0x2f" for c
    using ds(2) by (auto simp: is_digit_def)
  have nz: "0 \<notin> set ?s" and ns: "0x2f \<notin> set ?s" using nm dz by auto
  have "cstr (?s @ 0 # post) = Some ?s" using nz by (rule cstr_append)
  then have c: "cstr (ds @ nm @ 0x2e # ext @ 0 # post) = Some ?s" by simp
  have t: "find_last 0x2e ?s = Some ?t" using nm(2) by (rule find_last_append)
  have suf: "strncpy suffix (drop ?t ?s) 6 = Some (0x2e # ext @ replicate (5 - length ext) 0)"
    using len by (simp add: strncpy_def strncpy_bytes_def bput_def)
  have name: "strncpy (replicate 20 0) (take ?t ?s) 20 = Some ((ds @ nm) @ replicate (20 - ?t) 0)"
    using len by (simp add: strncpy_def strncpy_bytes_def bput_def)
  have w: "wr (ds @ nm @ 0x2e # ext @ 0 # post) ?t 0 = Some (ds @ nm @ 0 # ext @ 0 # post)"
    using wr_append [of "ds @ nm" "0x2e" "ext @ 0 # post" 0] by simp
  obtain r where r: "nm @ replicate (20 - ?t) 0 = r" by simp
  have hd: "\<exists>c r'. nm @ replicate (20 - ?t) 0 = c # r' \<and> \<not> is_digit c"
    using nd len by (cases nm) (auto simp: is_digit_def Suc_diff_Suc [symmetric] replicate_Suc
        intro: exI [of _ "replicate (19 - length ds) 0"] dest!: gr0_implies_Suc)
  then obtain c r' where rc: "nm @ replicate (20 - ?t) 0 = c # r'" "\<not> is_digit c" by blast
  have "(0 + 1 :: int) * 10 ^ length ds \<le> 10 ^ 9"
    using ds(3) power_increasing [of "length ds" 9 "10 :: int"] by simp
  then have dl: "digits_loop 0 (ds @ c # r') = Some (dec_fold 0 ds)"
    using ds rc by (intro digits_loop_spec) auto
  have low: "lower_str (0x2e # ext @ replicate (5 - length ext) 0)
      = Some (map to_lower (0x2e # ext) @ replicate (5 - length ext) 0)"
  proof -
    obtain k where k: "5 - length ext = Suc k" using len by (cases "5 - length ext") auto
    show ?thesis unfolding k using lower_str_spec [of "0x2e # ext" "replicate k 0"] nm by auto
  qed
  have first: "rd (ds @ c # r') 0 = Some (hd ds)" "is_digit (hd ds)"
    using ds by (cases ds; auto simp: rd_def)+
  have "sep_file_suffix (ds @ nm @ 0x2e # ext @ 0 # post) (replicate 20 0) 20 suffix
      = Some (0, ds @ nm @ 0 # ext @ 0 # post, ds @ c # r', 0x2e # ext @ replicate (5 - length ext) 0)"
    unfolding sep_file_suffix_def c using t suf name w ns rc by simp
  then show ?thesis
    using low first dl by (simp add: sep_to_index_suffix_def)
qed

section \<open>Examples\<close>

lemma foreach_line_visits_witness:
  "foreach_line (text_of [[0x61]] @ [0x62] @ 0 # []) (int (length (text_of [[0x61]] @ [0x62])))
     = Some ([[0x61]], [0x62] @ 0 # replicate (length (text_of [[0x61 :: byte]])) 0 @ [], int 1)"
proof -
  have 1: "\<forall>l \<in> set [[0x61 :: byte]]. 0 \<notin> set l \<and> 0x0a \<notin> set l"
      "0 \<notin> set [0x62 :: byte]" "0x0a \<notin> set [0x62 :: byte]"
    by code_simp+
  show ?thesis using foreach_line_visits [OF 1, of "[]"] by simp
qed

lemma sep_to_index_suffix_track_witness:
  "\<exists>uri'. sep_to_index_suffix (bytes ''12_a.MP3'' @ [0]) (replicate 6 0) =
     Some (12, uri', bytes ''.mp3'' @ [0, 0])"
proof -
  have 1: "[0x31, 0x32 :: byte] \<noteq> []" "\<forall>c \<in> set [0x31, 0x32]. is_digit c"
      "length [0x31, 0x32 :: byte] \<le> 9"
      "\<forall>c \<in> set ([0x5f, 0x61] @ [0x4d, 0x50, 0x33 :: byte]). c \<noteq> 0 \<and> c \<noteq> 0x2f"
      "0x2e \<notin> set [0x4d, 0x50, 0x33 :: byte]"
      "[0x5f, 0x61 :: byte] \<noteq> [] \<longrightarrow> \<not> is_digit (hd [0x5f, 0x61])"
      "length [0x31, 0x32 :: byte] + length [0x5f, 0x61 :: byte] < 20"
      "length [0x4d, 0x50, 0x33 :: byte] < 5" "length (replicate 6 (0 :: byte)) = 6"
    by (simp_all add: is_digit_def)
  have e: "dec_fold 0 [0x31, 0x32] = 12"
      "map to_lower (0x2e # [0x4d, 0x50, 0x33]) @ replicate (5 - length [0x4d, 0x50, 0x33 :: byte]) 0
        = bytes ''.mp3'' @ [0, 0]"
      "[0x31, 0x32] @ [0x5f, 0x61] @ 0x2e # [0x4d, 0x50, 0x33] @ 0 # [] = bytes ''12_a.MP3'' @ [0]"
    by code_simp+
  show ?thesis using sep_to_index_suffix_track [OF 1, of "[]"] unfolding e .
qed

end
