(* ===== verification/Player.thy ===== *)
theory Player
  imports Halo_Types "HOL-Library.Signed_Division"
begin

text \<open>
  The player control layer, \<open>app/halo_hal.c\<close>: the commands of the links (play, pause, cut, seek,
  volume, mute, loop mode, play by index) as calls of the player service. Every function takes
  the platform and the gateway state and returns its result and the new state; an overflowing
  C expression is None.
\<close>

section \<open>The commands\<close>

definition status_of :: "'e platform \<Rightarrow> 'e gateway \<Rightarrow> splayer_status" where
  "status_of pl g = snd (splayer_get_status pl (ext g))"

definition status_ret :: "'e platform \<Rightarrow> 'e gateway \<Rightarrow> int" where
  "status_ret pl g = fst (splayer_get_status pl (ext g))"

definition halo_src_set :: "'e platform \<Rightarrow> int \<Rightarrow> 'e gateway \<Rightarrow> int \<times> 'e gateway" where
  "halo_src_set pl src g = (-1, g)"

definition halo_loop_set :: "'e platform \<Rightarrow> int \<Rightarrow> 'e gateway \<Rightarrow> int \<times> 'e gateway" where
  "halo_loop_set pl loop g =
     (if status_ret pl g \<noteq> 0 then (-1, g)
      else if ps_mode (status_of pl g) \<noteq> MODE_PLAYLIST then (0, g)
      else if loop = 3 then call (splayer_set_loop_mode pl LOOP_ONE) g
      else if loop = 2 then call (splayer_set_loop_mode pl LOOP_ALL) g
      else if loop = 1 then call (splayer_set_loop_mode pl LOOP_SHUFFLE) g
      else if loop = 4 then call (splayer_set_loop_mode pl LOOP_SEQ) g
      else (-1, g))"

definition hope_to_local_mode :: "'e platform \<Rightarrow> int \<Rightarrow> 'e gateway \<Rightarrow> int \<times> 'e gateway" where
  "hope_to_local_mode pl index g =
     call (broadcast_msg pl \<lparr>am_type = MSG_MUSIC_SCENE_CHANGE, am_content = local_tag pl # int_bytes index\<rparr>) g"

text \<open>\<open>list_mode\<close> starts at \<open>dflt\<close> and keeps it when the key is not stored.\<close>

definition list_mode_of :: "'e platform \<Rightarrow> int \<Rightarrow> 'e gateway \<Rightarrow> int" where
  "list_mode_of pl dflt g =
     (case get_config pl CFG_MUSIC_LIST_MODE (ext g) of None \<Rightarrow> dflt | Some v \<Rightarrow> v)"

definition hope_music_play_index :: "'e platform \<Rightarrow> int \<Rightarrow> 'e gateway \<Rightarrow> int \<times> 'e gateway" where
  "hope_music_play_index pl index g =
     (let status = status_of pl g; list_mode = list_mode_of pl 1 g in
      if ps_mode status \<noteq> MODE_PLAYLIST \<or> list_mode \<noteq> 0 then hope_to_local_mode pl index g
      else
        let g1 = (if ps_index status \<noteq> index then snd (call (splayer_set_index pl index) g) else g)
        in call (splayer_play pl) g1)"

definition hope_music_play :: "'e platform \<Rightarrow> 'e gateway \<Rightarrow> int \<times> 'e gateway" where
  "hope_music_play pl g =
     (let status = status_of pl g; list_mode = list_mode_of pl 1 g in
      if (ps_mode status \<noteq> MODE_PLAYLIST \<and> ps_mode status \<noteq> MODE_AIMUSIC
          \<and> ps_mode status \<noteq> MODE_CLOUDMUSIC) \<or> list_mode \<noteq> 0
      then hope_to_local_mode pl 0 g
      else (case ps_status status of
          STATUS_PAUSE \<Rightarrow> call (splayer_resume pl) g
        | STATUS_STOP \<Rightarrow> hope_music_play_index pl 0 g
        | _ \<Rightarrow> (-1, g)))"

definition halo_seek :: "'e platform \<Rightarrow> int \<Rightarrow> 'e gateway \<Rightarrow> int \<times> 'e gateway" where
  "halo_seek pl msec g = call (splayer_seek pl (if msec \<noteq> 0 then msec else 1)) g"

definition halo_vol :: "'e platform \<Rightarrow> int \<Rightarrow> int \<Rightarrow> 'e gateway \<Rightarrow> (int \<times> 'e gateway) option" where
  "halo_vol pl vol en_persent g =
     (if en_persent \<noteq> 0
      then do { v \<leftarrow> int32 (vol * 4); Some (call (splayer_set_volume pl (v sdiv 10)) g) }
      else Some (call (splayer_set_volume pl vol) g))"

definition halo_mute :: "'e platform \<Rightarrow> int \<Rightarrow> 'e gateway \<Rightarrow> int \<times> 'e gateway" where
  "halo_mute pl ctrl g =
     (let status = status_of pl g in
      if status_ret pl g \<noteq> 0 then (-1, g)
      else if ctrl = 0
      then (if ps_volume status = 0
            then (let v = (if mute_vol g \<noteq> 0 then mute_vol g else 16) in
                  call (splayer_set_volume pl v) (g\<lparr>mute_vol := v\<rparr>))
            else (0, g))
      else (let g1 = g\<lparr>mute_vol := ps_volume status\<rparr> in
            if mute_vol g1 \<noteq> 0 then call (splayer_set_volume pl 0) g1 else (0, g1)))"

definition halo_vol_ctrl :: "'e platform \<Rightarrow> int \<Rightarrow> 'e gateway \<Rightarrow> int \<times> 'e gateway" where
  "halo_vol_ctrl pl ctrl g =
     (let status = status_of pl g in
      if status_ret pl g \<noteq> 0 then (-1, g)
      else if ctrl \<noteq> 0
      then (let vol = ps_volume status + 3 in
            call (splayer_set_volume pl (if vol > 40 then 40 else vol)) g)
      else (let vol = ps_volume status - 3 in
            call (splayer_set_volume pl (if vol < 0 then 0 else vol)) g))"

definition halo_cut :: "'e platform \<Rightarrow> int \<Rightarrow> 'e gateway \<Rightarrow> int \<times> 'e gateway" where
  "halo_cut pl ctrl g =
     (if status_ret pl g \<noteq> 0 then (-1, g)
      else if ctrl \<noteq> 0 then call (splayer_next pl) g else call (splayer_prev pl) g)"

definition halo_play :: "'e platform \<Rightarrow> int \<Rightarrow> 'e gateway \<Rightarrow> int \<times> 'e gateway" where
  "halo_play pl ctrl g =
     (let st = ps_status (status_of pl g) in
      if status_ret pl g \<noteq> 0 then (-1, g)
      else if ctrl = 0 then (if st = STATUS_PLAYING then call (splayer_pause pl) g else (-1, g))
      else if ctrl = 1 then (if st \<noteq> STATUS_PLAYING then hope_music_play pl g else (-1, g))
      else if ctrl = 2 then (if st \<noteq> STATUS_STOP then call (splayer_stop pl) g else (-1, g))
      else (-1, g))"

text \<open>Leaving the current mode for the local player, shared by the two functions below.\<close>

definition enter_local :: "'e platform \<Rightarrow> 'e gateway \<Rightarrow> 'e gateway" where
  "enter_local pl g =
     (if ps_mode (status_of pl g) \<noteq> MODE_LOCAL then snd (call (splayer_set_mode pl MODE_LOCAL) g)
      else snd (call (splayer_stop pl) g))"

definition play_once :: "'e platform \<Rightarrow> byte list \<Rightarrow> 'e gateway \<Rightarrow> int \<times> 'e gateway" where
  "play_once pl uri g =
     (let g1 = snd (call (splayer_set_loop_mode pl LOOP_ONLY_ONE) g);
          g2 = snd (call (splayer_set_file pl uri) g1)
      in call (splayer_play pl) g2)"

definition halo_local_file :: "'e platform \<Rightarrow> byte list \<Rightarrow> 'e gateway \<Rightarrow> int \<times> 'e gateway" where
  "halo_local_file pl uri g = play_once pl uri (enter_local pl g)"

definition halo_local_index :: "'e platform \<Rightarrow> int \<Rightarrow> 'e gateway \<Rightarrow> int \<times> 'e gateway" where
  "halo_local_index pl index g =
     (if index < 0 then (-1, g)
      else let (uri, g1) = call (lua_uri_from pl index) (enter_local pl g) in play_once pl uri g1)"

definition check_is_alarm :: "'e platform \<Rightarrow> 'e gateway \<Rightarrow> bool" where
  "check_is_alarm pl g =
     (ps_mode (status_of pl g) = MODE_LOCAL \<and> ps_loop (status_of pl g) = LOOP_ONE)"

definition play_list_msg :: "'e platform \<Rightarrow> 'e gateway \<Rightarrow> int \<times> 'e gateway" where
  "play_list_msg pl g = call (broadcast_msg pl \<lparr>am_type = MSG_HOPE_PLAY_LIST, am_content = []\<rparr>) g"

text \<open>Every branch of the switch of \<open>halo_hal\<close> is empty.\<close>

definition halo_hal :: "int \<Rightarrow> byte list \<Rightarrow> int" where
  "halo_hal c arg = 0"

section \<open>Volume\<close>

text \<open>The law of the player service the volume commands rely on: a volume in the device's range
  is accepted, and is the one the status shows afterwards.\<close>

definition volume_law :: "'e platform \<Rightarrow> bool" where
  "volume_law pl = (\<forall>e v. 0 \<le> v \<longrightarrow> v \<le> 40 \<longrightarrow>
     fst (splayer_set_volume pl v e) = 0 \<and>
     fst (splayer_get_status pl (snd (splayer_set_volume pl v e))) = 0 \<and>
     ps_volume (snd (splayer_get_status pl (snd (splayer_set_volume pl v e)))) = v)"

definition volume_of :: "'e platform \<Rightarrow> 'e gateway \<Rightarrow> int" where
  "volume_of pl g = ps_volume (status_of pl g)"

lemma set_volume_law:
  assumes "volume_law pl" "0 \<le> v" "v \<le> 40"
  shows "\<exists>g'. call (splayer_set_volume pl v) g = (0, g') \<and> volume_of pl g' = v \<and>
     status_ret pl g' = 0 \<and> mute_vol g' = mute_vol g"
  using assms by (simp add: call_simp volume_law_def volume_of_def status_of_def status_ret_def)

lemma sim_volume_law: "volume_law sim_platform"
  by (simp add: volume_law_def sim_platform_def sim_set_def)

lemma sim_status [simp]: "status_of sim_platform g = sim_status (ext g)"
    "status_ret sim_platform g = 0"
  by (simp_all add: status_of_def status_ret_def sim_platform_def)

text \<open>What the protocols show of a volume, in percent.\<close>

definition percent :: "int \<Rightarrow> int" where
  "percent v = (v * 5) div 2"

text \<open>A volume step moves the volume by three within 0 and 40, and never leaves that range.\<close>

theorem halo_vol_ctrl_steps:
  assumes "volume_law pl" "status_ret pl g = 0" "0 \<le> volume_of pl g" "volume_of pl g \<le> 40"
  shows "\<exists>g'. halo_vol_ctrl pl ctrl g = (0, g') \<and>
     volume_of pl g' = (if ctrl \<noteq> 0 then min 40 (volume_of pl g + 3)
                        else max 0 (volume_of pl g - 3))"
proof -
  let ?v = "if ctrl \<noteq> 0 then min 40 (volume_of pl g + 3) else max 0 (volume_of pl g - 3)"
  have "halo_vol_ctrl pl ctrl g = call (splayer_set_volume pl ?v) g"
    using assms(2) by (auto simp: halo_vol_ctrl_def volume_of_def Let_def min_def max_def)
  moreover have "0 \<le> ?v" "?v \<le> 40" using assms(3,4) by auto
  then obtain g' where "call (splayer_set_volume pl ?v) g = (0, g')" "volume_of pl g' = ?v"
    using set_volume_law [OF assms(1), of ?v g] by blast
  ultimately show ?thesis by auto
qed

text \<open>Muting silences a playing device and unmuting restores its volume; muting twice forgets
  it, and unmuting then sets the default 16.\<close>

theorem halo_mute_restores:
  assumes "volume_law pl" "status_ret pl g = 0" "0 < volume_of pl g" "volume_of pl g \<le> 40"
    "m \<noteq> 0"
  shows "\<exists>g1 g2 g3 g4. halo_mute pl m g = (0, g1) \<and> volume_of pl g1 = 0 \<and>
     halo_mute pl 0 g1 = (0, g2) \<and> volume_of pl g2 = volume_of pl g \<and>
     halo_mute pl m g1 = (0, g3) \<and> halo_mute pl 0 g3 = (0, g4) \<and> volume_of pl g4 = 16"
proof -
  let ?v = "volume_of pl g"
  obtain g1 where g1: "halo_mute pl m g = (0, g1)" "volume_of pl g1 = 0" "status_ret pl g1 = 0"
      "mute_vol g1 = ?v"
    using set_volume_law [OF assms(1), of 0 "g\<lparr>mute_vol := ?v\<rparr>"] assms(2-5)
    by (auto simp: halo_mute_def volume_of_def Let_def)
  obtain g2 where g2: "halo_mute pl 0 g1 = (0, g2)" "volume_of pl g2 = ?v"
    using set_volume_law [OF assms(1), of ?v "g1\<lparr>mute_vol := ?v\<rparr>"] assms(3,4) g1
    by (auto simp: halo_mute_def volume_of_def Let_def)
  have g3: "halo_mute pl m g1 = (0, g1\<lparr>mute_vol := 0\<rparr>)"
    using assms(5) g1 by (simp add: halo_mute_def volume_of_def Let_def)
  have s: "status_of pl (g1\<lparr>mute_vol := 0\<rparr>) = status_of pl g1"
      "status_ret pl (g1\<lparr>mute_vol := 0\<rparr>) = status_ret pl g1"
    by (simp_all add: status_of_def status_ret_def)
  obtain g4 where "halo_mute pl 0 (g1\<lparr>mute_vol := 0\<rparr>) = (0, g4)" "volume_of pl g4 = 16"
    using set_volume_law [OF assms(1), of 16 "(g1\<lparr>mute_vol := 0\<rparr>)\<lparr>mute_vol := 16\<rparr>"] g1 s
    by (auto simp: halo_mute_def volume_of_def Let_def)
  with g1 g2 g3 show ?thesis by blast
qed

text \<open>A volume given in percent is accepted, and the percentage reported afterwards is at most
  two below the one that was set.\<close>

theorem halo_vol_percent:
  assumes "volume_law pl" "0 \<le> p" "p \<le> 100"
  shows "\<exists>g'. halo_vol pl p 1 g = Some (0, g') \<and>
     percent (volume_of pl g') \<le> p \<and> p \<le> percent (volume_of pl g') + 2"
proof -
  let ?v = "p * 4 div 10"
  have "int32 (p * 4) = Some (p * 4)" using assms by (simp add: int32_def)
  moreover have "p * 4 sdiv 10 = ?v" using assms by (simp add: signed_divide_int_def sgn_if)
  moreover have v: "0 \<le> ?v" "?v \<le> 40" using assms by auto
  moreover obtain g' where "call (splayer_set_volume pl ?v) g = (0, g')" "volume_of pl g' = ?v"
    using set_volume_law [OF assms(1) v, of g] by blast
  moreover have "percent ?v \<le> p" "p \<le> percent ?v + 2"
    unfolding percent_def by presburger+
  ultimately show ?thesis by (auto simp: halo_vol_def)
qed

text \<open>The play command resumes a paused playlist, restarts a stopped one, pauses and stops a
  playing one, and reports -1 whenever the player already is in the state that was asked for.\<close>

theorem halo_play_cases:
  assumes "status_ret pl g = 0" "ps_mode (status_of pl g) = MODE_PLAYLIST"
    "get_config pl CFG_MUSIC_LIST_MODE (ext g) = Some 0"
  shows "(ps_status (status_of pl g) = STATUS_PLAYING \<longrightarrow>
       halo_play pl 0 g = call (splayer_pause pl) g \<and> halo_play pl 1 g = (-1, g) \<and>
       halo_play pl 2 g = call (splayer_stop pl) g) \<and>
     (ps_status (status_of pl g) = STATUS_PAUSE \<longrightarrow>
       halo_play pl 1 g = call (splayer_resume pl) g \<and> halo_play pl 0 g = (-1, g)) \<and>
     (ps_status (status_of pl g) = STATUS_STOP \<longrightarrow> ps_index (status_of pl g) = 0 \<longrightarrow>
       halo_play pl 1 g = call (splayer_play pl) g \<and> halo_play pl 2 g = (-1, g))"
  using assms
  by (simp add: halo_play_def hope_music_play_def hope_music_play_index_def list_mode_of_def)

section \<open>Examples\<close>

lemma sim_gateway_volume: "volume_of sim_platform sim_gateway = 20"
  by (simp add: volume_of_def sim_gateway_def sim_start_def)

lemma halo_vol_ctrl_steps_witness:
  "\<exists>g'. halo_vol_ctrl sim_platform 1 sim_gateway = (0, g') \<and> volume_of sim_platform g' = 23"
  using halo_vol_ctrl_steps [OF sim_volume_law sim_status(2), of sim_gateway 1]
  by (simp add: sim_gateway_volume)

lemma halo_mute_restores_witness:
  "\<exists>g1 g2. halo_mute sim_platform 1 sim_gateway = (0, g1) \<and> volume_of sim_platform g1 = 0 \<and>
     halo_mute sim_platform 0 g1 = (0, g2) \<and> volume_of sim_platform g2 = 20"
  using halo_mute_restores [OF sim_volume_law sim_status(2), of sim_gateway 1]
  by (auto simp: sim_gateway_volume)

lemma halo_vol_percent_witness:
  "\<exists>g'. halo_vol sim_platform 77 1 sim_gateway = Some (0, g') \<and>
     percent (volume_of sim_platform g') \<le> 77 \<and> 77 \<le> percent (volume_of sim_platform g') + 2"
  using halo_vol_percent [OF sim_volume_law, of 77 sim_gateway] by simp

lemma halo_play_cases_witness:
  "halo_play sim_platform 1 (sim_gateway\<lparr>ext := sim_start\<lparr>sim_cfg := (\<lambda>_. Some 0)\<rparr>\<rparr>)
     = (-1, sim_gateway\<lparr>ext := sim_start\<lparr>sim_cfg := (\<lambda>_. Some 0)\<rparr>\<rparr>)"
proof -
  let ?g = "sim_gateway\<lparr>ext := sim_start\<lparr>sim_cfg := (\<lambda>_. Some 0)\<rparr>\<rparr>"
  have 1: "status_ret sim_platform ?g = 0" by (rule sim_status)
  have 2: "ps_mode (status_of sim_platform ?g) = MODE_PLAYLIST"
      "ps_status (status_of sim_platform ?g) = STATUS_PLAYING"
    by (simp_all add: sim_start_def)
  have 3: "get_config sim_platform CFG_MUSIC_LIST_MODE (ext ?g) = Some 0"
    by (simp add: sim_platform_def)
  show ?thesis using halo_play_cases [OF 1 2(1) 3] 2(2) by blast
qed

end
