(* ===== verification/Cloud_Send.thy ===== *)
theory Cloud_Send
  imports Registry Halo_Text Player
begin

text \<open>
  The sending half of the cloud link, from \<open>app/tcp_client.c\<close>: connecting, sending a frame at
  once, queueing a frame as a message for the link, and the status report. Text arguments are
  the strings themselves; memory that a function only reads again where it has written it
  starts as zeros. The repetition of an interrupted call takes a fuel argument.
\<close>

section \<open>Connecting\<close>

text \<open>The exit of \<open>tcp_connect\<close> closes the caller's descriptor.\<close>

definition conn_exit :: "'e platform \<Rightarrow> int \<Rightarrow> 'e gateway \<Rightarrow> int \<times> 'e gateway" where
  "conn_exit pl fd g = (-1, if fd \<ge> 0 then snd (call (sock_close pl fd) g) else g)"

fun conn_wait :: "nat \<Rightarrow> 'e platform \<Rightarrow> int \<Rightarrow> 'e gateway \<Rightarrow> (int \<times> 'e gateway) option" where
  "conn_wait 0 pl fd g = None"
| "conn_wait (Suc fuel) pl fd g =
     (if \<not> errno_inprogress pl (ext g) then Some (conn_exit pl fd g)
      else let ((n, isset), g1) = call (sock_wait_write pl fd) g in
        if n \<le> 0 then Some (conn_exit pl fd g1)
        else if \<not> isset then conn_wait fuel pl fd g1
        else let ((r, err), g2) = call (sock_so_error pl fd) g1 in
          if r < 0 \<or> err \<noteq> 0 then Some (conn_exit pl fd g2) else Some (fd, g2))"

definition tcp_connect ::
  "nat \<Rightarrow> 'e platform \<Rightarrow> int \<Rightarrow> byte list \<Rightarrow> int \<Rightarrow> int \<Rightarrow> 'e gateway \<Rightarrow> (int \<times> 'e gateway) option" where
  "tcp_connect fuel pl fd addr pt isblock g =
     (let (n, g1) = call (sock_connect pl fd addr pt) g in
      if n \<ge> 0 then Some (fd, g1)
      else if isblock = 0 then conn_wait fuel pl fd g1
      else Some (conn_exit pl fd g1))"

section \<open>Sending a frame\<close>

fun send_retry :: "nat \<Rightarrow> 'e platform \<Rightarrow> int \<Rightarrow> byte list \<Rightarrow> 'e gateway \<Rightarrow> (int \<times> 'e gateway) option" where
  "send_retry 0 pl fd b g = None"
| "send_retry (Suc fuel) pl fd b g =
     (let (ret, g1) = call (sock_send pl fd b) g in
      if ret < 0 \<and> errno_eintr pl (ext g1) then send_retry fuel pl fd b g1 else Some (ret, g1))"

definition cli_send ::
  "nat \<Rightarrow> 'e platform \<Rightarrow> int \<Rightarrow> cli_head \<Rightarrow> byte list \<Rightarrow> 'e gateway \<Rightarrow> (int \<times> 'e gateway) option" where
  "cli_send fuel pl fd h body g =
     do { (buf, n) \<leftarrow> contentcat h (body @ [0]);
          b \<leftarrow> bget buf 0 (nat n);
          send_retry fuel pl fd b g }"

definition cloud_send ::
  "nat \<Rightarrow> 'e platform \<Rightarrow> st_proto \<Rightarrow> 16 word \<Rightarrow> byte list \<Rightarrow> 'e gateway \<Rightarrow> (int \<times> 'e gateway) option" where
  "cloud_send fuel pl pro c input g =
     (if pfd pro \<le> 0 \<or> active pro = 0 then Some (-1, g)
      else do {
        let th = set_head c input (client g);
        (ret, g1) \<leftarrow> cli_send fuel pl (pfd pro) (head th) input (g\<lparr>client := th\<rparr>);
        Some (if ret \<le> 0 then -1 else 0, g1) })"

definition C_DEV_HEART :: "16 word" where "C_DEV_HEART = 0x02"
definition C_DEV_IDENTIFY :: "16 word" where "C_DEV_IDENTIFY = 0x04"
definition C_DEV_CTRL :: "16 word" where "C_DEV_CTRL = 0x10"
definition C_DEV_UNBIND :: "16 word" where "C_DEV_UNBIND = 0x215"
definition C_DEV_TTS :: "16 word" where "C_DEV_TTS = 0x250"
definition C_DEV_TTS_CHECK :: "16 word" where "C_DEV_TTS_CHECK = 0x260"

definition heart_beat :: "nat \<Rightarrow> 'e platform \<Rightarrow> st_proto \<Rightarrow> 'e gateway \<Rightarrow> (int \<times> 'e gateway) option" where
  "heart_beat fuel pl pro g = cloud_send fuel pl pro C_DEV_HEART [] g"

definition identify :: "nat \<Rightarrow> 'e platform \<Rightarrow> st_proto \<Rightarrow> 'e gateway \<Rightarrow> (int \<times> 'e gateway) option" where
  "identify fuel pl pro g =
     do { a \<leftarrow> cstr (h_auth g);
          cloud_send fuel pl pro C_DEV_IDENTIFY
            (cjson_print pl (AddItemToObject (bytes ''code'') (JString a) (JObject []))) g }"

section \<open>Queueing a frame\<close>

text \<open>The common tail of the senders that go through the message queue: the frame is copied into
  the 1024 bytes of a message on the stack.\<close>

definition cloud_msg :: "16 word \<Rightarrow> 16 word \<Rightarrow> byte list \<Rightarrow> 'e gateway \<Rightarrow> (int \<times> 'e gateway) option" where
  "cloud_msg ty c text g =
     do { (buf, n, th) \<leftarrow> build_payload c (text @ [0]) (client g);
          b \<leftarrow> bget buf 0 (nat n);
          ct \<leftarrow> bput (replicate 1024 0) 0 b;
          (_, g1) \<leftarrow> add_msg (bytes ''tcp_cli'')
             \<lparr>pm_type = uint ty, pm_content = ct, pm_length = n\<rparr> (g\<lparr>client := th\<rparr>);
          Some (0, g1) }"

definition hope_unbind :: "'e gateway \<Rightarrow> (int \<times> 'e gateway) option" where
  "hope_unbind g = cloud_msg C_DEV_UNBIND C_DEV_UNBIND [] g"

section \<open>The status report\<close>

definition play_val :: "play_state \<Rightarrow> int" where
  "play_val st = (case st of STATUS_PLAYING \<Rightarrow> 1 | STATUS_PAUSE \<Rightarrow> 0 | _ \<Rightarrow> 2)"

definition model_val :: "play_loop \<Rightarrow> int" where
  "model_val lp =
     (case lp of LOOP_SHUFFLE \<Rightarrow> 1 | LOOP_ALL \<Rightarrow> 2 | LOOP_ONE \<Rightarrow> 3 | LOOP_SEQ \<Rightarrow> 4 | _ \<Rightarrow> -1)"

text \<open>The title of the playing song, or the name in its uri.\<close>

definition song_title :: "'e platform \<Rightarrow> 'e gateway \<Rightarrow> byte list option" where
  "song_title pl g =
     (let info = snd (splayer_get_info pl (ext g)); title = si_title info; uri = si_uri info in
      if title \<noteq> [] then Some title
      else do { (_, b) \<leftarrow> get_music_name (uri @ [0]) (replicate 256 0) 255; cstr b })"

text \<open>The profile of a report.\<close>

definition status_profile :: "'e platform \<Rightarrow> splayer_status \<Rightarrow> 'e gateway \<Rightarrow> json option" where
  "status_profile pl status g =
     do { let p0 = AddItemToObject (bytes ''status'') (JNumber (play_val (ps_status status))) (JObject []);
          let p1 = AddItemToObject (bytes ''play'') (JNumber (ps_index status)) p0;
          let p2 = AddItemToObject (bytes ''skip'') (JNumber (ps_time status)) p1;
          v \<leftarrow> int32 (ps_volume status * 5);
          let p3 = AddItemToObject (bytes ''setvol'') (JNumber (v div 2)) p2;
          p4 \<leftarrow> (if check_is_alarm pl g
                then do { t \<leftarrow> song_title pl g;
                          Some (AddItemToObject (bytes ''bell'') (JString t)
                                 (AddItemToObject (bytes ''cata'') (JNumber 1) p3)) }
                else Some p3);
          let m = model_val (ps_loop status);
          let p5 = (if m \<ge> 0 then AddItemToObject (bytes ''model'') (JNumber m) p4 else p4);
          Some (AddItemToObject (bytes ''locale'') (JNumber 0) p5) }"

text \<open>\<open>_json_of_status\<close>; a null pointer is None. A missing protocol argument makes it ask the player
  itself. The last reported index is a static variable.\<close>

definition json_of_status ::
  "'e platform \<Rightarrow> st_proto option \<Rightarrow> int \<Rightarrow> 'e gateway \<Rightarrow> (json option \<times> 'e gateway) option" where
  "json_of_status pl pro force g =
     (let status = (case pro of None \<Rightarrow> status_of pl g | Some p \<Rightarrow> play_status p) in
      if pro = None \<and> status_ret pl g < 0 then Some (None, g)
      else do {
        let r0 = AddItemToObject (bytes ''status'') (jbool 1) (JObject []);
        let fresh_idx = (force \<noteq> 0 \<or> shown_index g \<noteq> ps_index status);
        let r1 = (if fresh_idx then AddItemToObject (bytes ''musId'') (JNumber (ps_index status)) r0 else r0);
        let g1 = (if fresh_idx then g\<lparr>shown_index := ps_index status\<rparr> else g);
        let r2 = AddItemToObject (bytes ''error'') (JNumber 50000) r1;
        profile \<leftarrow> status_profile pl status g1;
        Some (Some (AddItemToObject (bytes ''profile'') profile r2), g1) })"

definition hope_update_status :: "'e platform \<Rightarrow> int \<Rightarrow> 'e gateway \<Rightarrow> (int \<times> 'e gateway) option" where
  "hope_update_status pl force g =
     do { (root, g1) \<leftarrow> json_of_status pl None force g;
          case root of
            None \<Rightarrow> Some (-1, g1)
          | Some j \<Rightarrow> cloud_msg C_DEV_CTRL C_DEV_CTRL (cjson_print pl j) g1 }"

definition tcp_cli_update_status ::
  "nat \<Rightarrow> 'e platform \<Rightarrow> st_proto \<Rightarrow> 'e gateway \<Rightarrow> (int \<times> 'e gateway) option" where
  "tcp_cli_update_status fuel pl pro g =
     do { (root, g1) \<leftarrow> json_of_status pl (Some pro) 0 g;
          case root of
            None \<Rightarrow> Some (-1, g1)
          | Some j \<Rightarrow> do { (r, g2) \<leftarrow> cloud_send fuel pl pro C_DEV_CTRL (cjson_print pl j) g1;
                          Some (if r < 0 then -1 else 0, g2) } }"

section \<open>Queued frames\<close>

text \<open>C26: A text queued for the cloud link becomes one message for the protocol \<open>tcp_cli\<close> that holds
  exactly the frame of the text; it is undefined exactly when more than 22 bytes need an
  escape or the frame is longer than a message.\<close>

theorem cloud_msg_queues:
  assumes "gw_ok g" "head_ok (head (client g))" "0 \<notin> set s" "h = head (set_head c s (client g))"
  shows "(cloud_msg ty c s g = None \<longleftrightarrow> escapes (content h s) > 22 \<or> length (frame h s) > 1024) \<and>
    (\<forall>r g'. cloud_msg ty c s g = Some (r, g') \<longrightarrow> r = 0 \<and> gw_ok g' \<and>
      (\<exists>a x. order (msgs g') = order (msgs g) @ [a] \<and> mget a g' = Some x \<and>
         m_target x = bytes ''tcp_cli'' \<and>
         take (nat (m_length x)) (m_content x) = frame h s))"
proof (cases "escapes (content h s) \<le> 22 \<and> length (frame h s) \<le> 1024")
  case True
  let ?n = "length (frame h s)"
  let ?m = "\<lparr>pm_type = uint ty, pm_content = frame h s @ replicate (1024 - ?n) 0, pm_length = int ?n\<rparr>"
  let ?g = "g\<lparr>client := set_head c s (client g)\<rparr>"
  have "build_payload c (s @ [0]) (client g)
      = Some (frame h s @ replicate (22 - escapes (content h s)) 0, int ?n, set_head c s (client g))"
    using build_payload_spec [OF assms(2,3), of c "[]"] True by (simp add: assms(4) Let_def)
  moreover have "bget (frame h s @ r) 0 ?n = Some (frame h s)" for r by (simp add: bget_def)
  ultimately have c: "cloud_msg ty c s g = do { (_, g1) \<leftarrow> add_msg (bytes ''tcp_cli'') ?m ?g; Some (0, g1) }"
    using True by (simp add: cloud_msg_def bput_def)
  have ok: "gw_ok ?g" using assms(1) by (simp add: gw_ok_def)
  have l: "length (pm_content ?m) = 1024" using True by simp
  have "take 127 (bytes ''tcp_cli'') = bytes ''tcp_cli''" by (simp add: bytes_def)
  then show ?thesis
    using add_msg_appends [OF ok l, of "bytes ''tcp_cli''"] True unfolding c
    by (auto split: bind_splits)
next
  case False
  show ?thesis
  proof (cases "escapes (content h s) \<le> 22")
    case True
    then have "build_payload c (s @ [0]) (client g)
        = Some (frame h s @ replicate (22 - escapes (content h s)) 0, int (length (frame h s)), set_head c s (client g))"
      using build_payload_spec [OF assms(2,3), of c "[]"] by (simp add: assms(4) Let_def)
    with False True show ?thesis by (simp add: cloud_msg_def bget_def bput_def)
  next
    case False
    then have "build_payload c (s @ [0]) (client g) = None"
      using build_payload_spec [OF assms(2,3), of c "[]"] by (simp add: assms(4) Let_def)
    with False show ?thesis by (simp add: cloud_msg_def)
  qed
qed

section \<open>The report\<close>

lemma status_keys [simp]:
  "map lower (bytes ''musId'') = bytes ''musid''" "map lower (bytes ''profile'') = bytes ''profile''"
  "map lower (bytes ''status'') = bytes ''status''" "map lower (bytes ''error'') = bytes ''error''"
  "map lower (bytes ''play'') = bytes ''play''" "map lower (bytes ''skip'') = bytes ''skip''"
  "map lower (bytes ''setvol'') = bytes ''setvol''" "map lower (bytes ''bell'') = bytes ''bell''"
  "map lower (bytes ''cata'') = bytes ''cata''" "map lower (bytes ''model'') = bytes ''model''"
  "map lower (bytes ''locale'') = bytes ''locale''"
  by (simp_all add: bytes_def lower_def)

lemma status_profile_fields:
  assumes "status_profile pl st g = Some pr"
  shows "GetObjectItem pr (bytes ''status'') = Some (JNumber (play_val (ps_status st))) \<and>
      GetObjectItem pr (bytes ''play'') = Some (JNumber (ps_index st)) \<and>
      GetObjectItem pr (bytes ''skip'') = Some (JNumber (ps_time st)) \<and>
      GetObjectItem pr (bytes ''setvol'') = Some (JNumber (ps_volume st * 5 div 2))"
  using assms
  by (cases "check_is_alarm pl g"; cases "0 \<le> model_val (ps_loop st)"; cases "song_title pl g")
    (auto simp: status_profile_def bytes_eq_iff Let_def split: bind_splits dest!: int32_SomeD)

text \<open>A status report of a protocol names the song index exactly when it is forced or the index is
  not the one of the last report, which it then remembers; its profile holds the play state,
  the index, the position, and the volume in percent (five halves of the player's).\<close>

theorem status_report:
  assumes "json_of_status pl (Some p) force g = Some (Some j, g')" "st = play_status p"
  shows "GetObjectItem j (bytes ''musId'') =
      (if force \<noteq> 0 \<or> shown_index g \<noteq> ps_index st then Some (JNumber (ps_index st)) else None) \<and>
    g' = g\<lparr>shown_index := ps_index st\<rparr> \<and>
    (\<exists>pr. GetObjectItem j (bytes ''profile'') = Some pr \<and>
      GetObjectItem pr (bytes ''status'') = Some (JNumber (play_val (ps_status st))) \<and>
      GetObjectItem pr (bytes ''play'') = Some (JNumber (ps_index st)) \<and>
      GetObjectItem pr (bytes ''skip'') = Some (JNumber (ps_time st)) \<and>
      GetObjectItem pr (bytes ''setvol'') = Some (JNumber (ps_volume st * 5 div 2)))"
proof -
  obtain pr g1 where pr: "status_profile pl st g1 = Some pr"
    "g' = g\<lparr>shown_index := ps_index st\<rparr>"
    "j = JObject ((bytes ''status'', jbool 1) #
       (if force \<noteq> 0 \<or> shown_index g \<noteq> ps_index st
        then [(bytes ''musId'', JNumber (ps_index st))] else []) @
       [(bytes ''error'', JNumber 50000), (bytes ''profile'', pr)])"
    using assms by (auto simp: json_of_status_def Let_def split: if_splits bind_splits)
  show ?thesis using status_profile_fields [OF pr(1)] pr(2,3) by (simp add: bytes_eq_iff)
qed

lemma cloud_msg_queues_witness:
  "\<not> cloud_msg C_DEV_UNBIND C_DEV_UNBIND [] sim_gateway = None"
proof -
  have o: "head_ok (head (client sim_gateway))"
    by (simp add: sim_gateway_def ex_client_def head_ok_def)
  let ?h = "head (set_head C_DEV_UNBIND [] (client sim_gateway))"
  have "escapes (content ?h []) = 0 \<and> length (frame ?h []) = 18" by code_simp
  then show ?thesis
    using cloud_msg_queues [OF sim_gateway_ok o _ refl, of "[]" C_DEV_UNBIND C_DEV_UNBIND] by simp
qed

lemma status_report_witness:
  "\<exists>j. json_of_status sim_platform (Some (ex_proto [0x61] K_TCP_CLI)) 0 sim_gateway =
      Some (Some j, sim_gateway\<lparr>shown_index := 3\<rparr>) \<and>
    GetObjectItem j (bytes ''musId'') = Some (JNumber 3)"
proof -
  let ?p = "ex_proto [0x61] K_TCP_CLI"
  have st: "ps_index (play_status ?p) = 3" "ps_volume (play_status ?p) = 20" "shown_index sim_gateway = -1"
    by (simp_all add: ex_proto_def sim_start_def sim_gateway_def)
  have "\<exists>j g'. json_of_status sim_platform (Some ?p) 0 sim_gateway = Some (Some j, g')"
    using st by (simp add: json_of_status_def status_profile_def Let_def int32_def check_is_alarm_def
        sim_gateway_def sim_start_def)
  then obtain j g' where j: "json_of_status sim_platform (Some ?p) 0 sim_gateway = Some (Some j, g')" by blast
  from status_report [OF j refl] j st show ?thesis by auto
qed

end
