(* ===== verification/Cli_Dispatch.thy ===== *)
theory Cli_Dispatch
  imports Cloud_Send
begin

text \<open>
  The receiving half of the cloud link, \<open>app/tcp_cli_dispatch.c\<close>: the table of commands, the
  table of control items inside a command, and the loop that cuts frames from the receive
  buffer and runs their handlers. A handler gets the text of the frame (the block
  \<open>pro->private\<close>) and the gateway; the dispatcher ignores its result, which some handlers do
  not even set.
\<close>

type_synonym 'e handler = "cbuf \<Rightarrow> 'e gateway \<Rightarrow> (int \<times> 'e gateway) option"

section \<open>Control items\<close>

definition cli_ctrl_status :: "'e platform \<Rightarrow> int \<Rightarrow> 'e gateway \<Rightarrow> (int \<times> 'e gateway) option" where
  "cli_ctrl_status pl v g = Some (halo_play pl v g)"

definition cli_ctrl_play :: "'e platform \<Rightarrow> int \<Rightarrow> 'e gateway \<Rightarrow> (int \<times> 'e gateway) option" where
  "cli_ctrl_play pl v g = Some (hope_music_play_index pl v g)"

definition cli_ctrl_control :: "'e platform \<Rightarrow> int \<Rightarrow> 'e gateway \<Rightarrow> (int \<times> 'e gateway) option" where
  "cli_ctrl_control pl v g = Some (halo_cut pl v g)"

definition cli_ctrl_skip :: "'e platform \<Rightarrow> int \<Rightarrow> 'e gateway \<Rightarrow> (int \<times> 'e gateway) option" where
  "cli_ctrl_skip pl v g = Some (halo_seek pl v g)"

definition cli_ctrl_idvol :: "'e platform \<Rightarrow> int \<Rightarrow> 'e gateway \<Rightarrow> (int \<times> 'e gateway) option" where
  "cli_ctrl_idvol pl v g = Some (halo_vol_ctrl pl v g)"

definition cli_ctrl_mute :: "'e platform \<Rightarrow> int \<Rightarrow> 'e gateway \<Rightarrow> (int \<times> 'e gateway) option" where
  "cli_ctrl_mute pl v g = Some (halo_mute pl v g)"

definition cli_ctrl_setvol :: "'e platform \<Rightarrow> int \<Rightarrow> 'e gateway \<Rightarrow> (int \<times> 'e gateway) option" where
  "cli_ctrl_setvol pl v g = halo_vol pl v 1 g"

definition cli_ctrl_source :: "'e platform \<Rightarrow> int \<Rightarrow> 'e gateway \<Rightarrow> (int \<times> 'e gateway) option" where
  "cli_ctrl_source pl v g = Some (0, g)"

definition cli_ctrl_effect :: "'e platform \<Rightarrow> int \<Rightarrow> 'e gateway \<Rightarrow> (int \<times> 'e gateway) option" where
  "cli_ctrl_effect pl v g = Some (0, g)"

definition cli_ctrl_model :: "'e platform \<Rightarrow> int \<Rightarrow> 'e gateway \<Rightarrow> (int \<times> 'e gateway) option" where
  "cli_ctrl_model pl v g = Some (0, snd (halo_loop_set pl v g))"

definition cli_ctrl_locale :: "'e platform \<Rightarrow> int \<Rightarrow> 'e gateway \<Rightarrow> (int \<times> 'e gateway) option" where
  "cli_ctrl_locale pl v g = Some (0, g)"

definition cli_ctrl_handle ::
  "'e platform \<Rightarrow> (byte list \<times> (int \<Rightarrow> 'e gateway \<Rightarrow> (int \<times> 'e gateway) option)) list" where
  "cli_ctrl_handle pl =
     [(bytes ''status'', cli_ctrl_status pl), (bytes ''play'', cli_ctrl_play pl),
      (bytes ''control'', cli_ctrl_control pl), (bytes ''skip'', cli_ctrl_skip pl),
      (bytes ''idvol'', cli_ctrl_idvol pl), (bytes ''mute'', cli_ctrl_mute pl),
      (bytes ''setvol'', cli_ctrl_setvol pl), (bytes ''source'', cli_ctrl_source pl),
      (bytes ''effect'', cli_ctrl_effect pl), (bytes ''model'', cli_ctrl_model pl),
      (bytes ''locale'', cli_ctrl_locale pl)]"

definition item_val :: "json \<Rightarrow> int" where
  "item_val item = (if json_type item = 3 then valueint item else json_type item)"

fun run_ctrl ::
  "(byte list \<times> (int \<Rightarrow> 'e gateway \<Rightarrow> (int \<times> 'e gateway) option)) list \<Rightarrow> json \<Rightarrow> 'e gateway \<Rightarrow> 'e gateway option"
where
  "run_ctrl [] profile g = Some g"
| "run_ctrl ((k, f) # rows) profile g =
     (case GetObjectItem profile k of
        None \<Rightarrow> run_ctrl rows profile g
      | Some item \<Rightarrow> do { (_, g1) \<leftarrow> f (item_val item) g; run_ctrl rows profile g1 })"

section \<open>The handlers\<close>

text \<open>Parsing the text of the frame and asking for a member; None for the C string is undefined.\<close>

definition parse_text :: "'e platform \<Rightarrow> cbuf \<Rightarrow> json option option" where
  "parse_text pl b = map_option (cjson_parse pl) (cstr b)"

definition common_cb :: "'e handler" where "common_cb b g = Some (0, g)"
definition heart_cb :: "'e handler" where "heart_cb b g = Some (0, g)"
definition psongs_cb :: "'e handler" where "psongs_cb b g = Some (0, g)"

definition ctrl_cb :: "'e platform \<Rightarrow> 'e handler" where
  "ctrl_cb pl b g =
     (if check_is_alarm pl g then Some (0, g)
      else do {
        root \<leftarrow> parse_text pl b;
        (case Option.bind root (\<lambda>r. GetObjectItem r (bytes ''profile'')) of
           None \<Rightarrow> Some (-1, g)
         | Some profile \<Rightarrow> do { g1 \<leftarrow> run_ctrl (cli_ctrl_handle pl) profile g; Some (0, g1) }) })"

definition plist_cb :: "'e platform \<Rightarrow> 'e handler" where
  "plist_cb pl b g =
     (if check_is_alarm pl g then Some (0, g)
      else do {
        root \<leftarrow> parse_text pl b;
        (case Option.bind root (\<lambda>r. GetObjectItem r (bytes ''musId'')) of
           None \<Rightarrow> Some (-1, g)
         | Some musId \<Rightarrow> Some (hope_music_play_index pl (valueint musId) g)) })"

definition info_cb :: "'e platform \<Rightarrow> 'e handler" where
  "info_cb pl b g = hope_update_status pl 1 g"

text \<open>\<open>_sep_list_arr\<close>: the numbers of a text, in a zeroed block of \<open>len / 2 + 2\<close> ints, closed by
  a -1. The loops are structural on the text: \<open>None\<close> as the running number is the outer loop,
  and the step the outer loop makes after a number skips the byte behind it. A number outside
  of \<open>int\<close> and a write outside of the block are undefined.\<close>

fun sep_loop :: "nat \<Rightarrow> int option \<Rightarrow> byte list \<Rightarrow> int list \<Rightarrow> int list option" where
  "sep_loop room None [] out = (if length out < room then Some (out @ [-1]) else None)"
| "sep_loop room (Some n) [] out =
     (if length out + 1 < room then Some (out @ [n, -1]) else None)"
| "sep_loop room None (c # cs) out =
     (if is_digit c then sep_loop room (Some (digit_val c)) cs out else sep_loop room None cs out)"
| "sep_loop room (Some n) (c # cs) out =
     (if is_digit c
      then do { m \<leftarrow> int32 (n * 10); m' \<leftarrow> int32 (m + digit_val c); sep_loop room (Some m') cs out }
      else if length out < room then sep_loop room None cs (out @ [n]) else None)"

definition sep_list_arr :: "byte list \<Rightarrow> int list option option" where
  "sep_list_arr s =
     (if s = [] then Some None
      else map_option Some (sep_loop (length s div 2 + 2) None s []))"

text \<open>\<open>_selist_cb\<close>: on failure the list pointers become null.\<close>

definition selist_fail :: "'e gateway \<Rightarrow> (int \<times> 'e gateway) option" where
  "selist_fail g = Some (-1, g\<lparr>local_list := None\<rparr>)"

definition selist_cb :: "'e platform \<Rightarrow> 'e handler" where
  "selist_cb pl b g =
     (if check_is_alarm pl g then Some (0, g)
      else do {
        s \<leftarrow> cstr b;
        if s = [] then selist_fail g
        else do {
          let g1 = snd (play_list_msg pl g);
          (case Option.bind (cjson_parse pl s) (\<lambda>r. GetObjectItem r (bytes ''musIds'')) of
             None \<Rightarrow> selist_fail g1
           | Some musIds \<Rightarrow> do {
               t \<leftarrow> valuestring musIds;
               l \<leftarrow> sep_list_arr t;
               (case l of
                  None \<Rightarrow> selist_fail g1
                | Some xs \<Rightarrow>
                    Some (0, snd (halo_local_index pl (hd xs) (g1\<lparr>local_list := Some xs\<rparr>)))) }) } })"

text \<open>\<open>_reply_\<close> takes over its text and frees it on every path. The command argument is not used.
  The result says whether the text was freed.\<close>

definition cli_reply :: "16 word \<Rightarrow> byte list \<Rightarrow> 'e gateway \<Rightarrow> ((int \<times> bool) \<times> 'e gateway) option" where
  "cli_reply c str g =
     do { (_, g1) \<leftarrow> cloud_msg C_DEV_TTS C_DEV_TTS str g; Some ((0, True), g1) }"

definition free_block :: "bool \<Rightarrow> unit option" where
  "free_block freed = (if freed then None else Some ())"

definition tts_answer :: "int \<Rightarrow> int \<Rightarrow> json" where
  "tts_answer ret cata =
     AddItemToObject (bytes ''msgCata'') (JNumber cata)
       (AddItemToObject (bytes ''receive'') (JString [])
         (AddItemToObject (bytes ''error'') (JNumber 5000)
           (AddItemToObject (bytes ''status'') (jbool ret) (JObject []))))"

definition tts_cmd_cb :: "'e platform \<Rightarrow> 'e handler" where
  "tts_cmd_cb pl b g =
     do { root \<leftarrow> parse_text pl b;
          case Option.bind root (\<lambda>r. GetObjectItem r (bytes ''msgText'')) of
            None \<Rightarrow> Some (-1, g)
          | Some msgText \<Rightarrow>
              (case Option.bind root (\<lambda>r. GetObjectItem r (bytes ''msgCata'')) of
                 None \<Rightarrow> Some (-1, g)
               | Some msgCata \<Rightarrow> do {
                   (ret, g1) \<leftarrow>
                     (if valueint msgCata = 1
                      then do { t \<leftarrow> valuestring msgText; Some (call (sair_text_search pl t) g) }
                      else if valueint msgCata = 2
                      then do { t \<leftarrow> valuestring msgText; Some (call (sair_tts_call pl t) g) }
                      else Some (1, g));
                   let out = cjson_print pl (tts_answer ret (valueint msgCata));
                   ((r, freed), g2) \<leftarrow> cli_reply C_DEV_TTS out g1;
                   _ \<leftarrow> free_block freed;
                   Some (if r \<noteq> 0 then -1 else 0, g2) }) }"

definition tts_check_cb :: "'e platform \<Rightarrow> 'e handler" where
  "tts_check_cb pl b g =
     do { root \<leftarrow> parse_text pl b;
          case Option.bind root (\<lambda>r. GetObjectItem r (bytes ''msgCata'')) of
            None \<Rightarrow> Some (-1, g)
          | Some msgCata \<Rightarrow> do {
              t \<leftarrow> song_title pl g;
              let rep = AddItemToObject (bytes ''msgText'') (JString t) (JObject []);
              let rep1 = AddItemToObject (bytes ''msgCata'') (JNumber 1)
                 (AddItemToObject (bytes ''receive'') (JString [])
                   (AddItemToObject (bytes ''error'') (JNumber 5000)
                     (AddItemToObject (bytes ''status'') (jbool 1) rep)));
              ((r, freed), g1) \<leftarrow> cli_reply C_DEV_TTS_CHECK (cjson_print pl rep1) g;
              _ \<leftarrow> free_block freed;
              Some (if r \<noteq> 0 then -1 else 0, g1) } }"

section \<open>The dispatcher\<close>

definition cli_dis :: "'e platform \<Rightarrow> (int \<times> 'e handler) list" where
  "cli_dis pl =
     [(0x01, common_cb), (0x02, heart_cb), (0x05, ctrl_cb pl), (0x135, plist_cb pl),
      (0x140, psongs_cb), (0x205, info_cb pl), (0x235, selist_cb pl), (0x245, tts_cmd_cb pl),
      (0x255, tts_check_cb pl)]"

definition run_cli :: "'e platform \<Rightarrow> int \<Rightarrow> cbuf \<Rightarrow> 'e gateway \<Rightarrow> 'e gateway option" where
  "run_cli pl c ptxt g =
     (case map_of (cli_dis pl) c of None \<Rightarrow> Some g | Some f \<Rightarrow> map_option snd (f ptxt g))"

text \<open>One round per frame; every frame has at least one byte, so the length of the received text
  is enough fuel.\<close>

fun cli_loop ::
  "nat \<Rightarrow> 'e platform \<Rightarrow> cli_head \<Rightarrow> cbuf \<Rightarrow> st_buf \<Rightarrow> 'e gateway \<Rightarrow> (st_buf \<times> 'e gateway) option"
where
  "cli_loop 0 pl h ptxt rb g = None"
| "cli_loop (Suc fuel) pl h ptxt rb g =
     do { (len, buf, h1, ptxt1) \<leftarrow> seperate_buf (blen rb) (payload rb) h ptxt;
          let rb1 = rb\<lparr>payload := buf\<rparr>;
          if len > blen rb1 \<or> len < 0 then Some (rb1, g)
          else do {
            let h2 = h1\<lparr>cmd := cmd h1 AND 0x0FFF\<rparr>;
            g1 \<leftarrow> run_cli pl (uint (cmd h2)) ptxt1 g;
            buf2 \<leftarrow> mvforward (payload rb1) (blen rb1) len;
            cli_loop fuel pl h2 ptxt1 (rb1\<lparr>payload := buf2, blen := blen rb1 - len\<rparr>) g1 } }"

definition no_head :: cli_head where
  "no_head = \<lparr>cmd = 0, htype = 0, hlen = 0, snd_id = replicate 10 0\<rparr>"

definition cli_dispatch ::
  "'e platform \<Rightarrow> st_proto \<Rightarrow> 'e gateway \<Rightarrow> (int \<times> st_proto \<times> 'e gateway) option" where
  "cli_dispatch pl pro g =
     (if check_is_alarm pl g
      then do { pro1 \<leftarrow> clear_payload pro; Some (0, pro1, g) }
      else do {
        (rb, g1) \<leftarrow> cli_loop (Suc (nat (blen (recv_buf pro)))) pl no_head (replicate 1024 0) (recv_buf pro) g;
        Some (1, pro\<lparr>recv_buf := rb, private_buf := None\<rparr>, g1) })"

section \<open>One frame\<close>

lemma nat_Suc_int: "nat (1 + int k) = Suc k"
  by simp


lemma seperate_progress:
  "seperate_buf len buf h body = Some (n, r) \<Longrightarrow> n = -1 \<or> 2 \<le> n"
  by (auto simp: seperate_buf_def Let_def split: if_splits bind_splits)

text \<open>The loop of the dispatcher ends: every round takes at least one byte of the received text, so
  fuel beyond the length of that text changes nothing.\<close>

theorem cli_loop_ends:
  assumes "nat (blen rb) < fuel" "fuel \<le> fuel'"
  shows "cli_loop fuel' pl h ptxt rb g = cli_loop fuel pl h ptxt rb g"
  using assms
proof (induction fuel arbitrary: fuel' h ptxt rb g)
  case (Suc fuel)
  obtain f' where f': "fuel' = Suc f'" "fuel \<le> f'" using Suc.prems by (cases fuel') auto
  have round: "cli_loop f' pl h2 ptxt1 (rb1\<lparr>payload := buf2, blen := blen rb1 - len\<rparr>) g1
      = cli_loop fuel pl h2 ptxt1 (rb1\<lparr>payload := buf2, blen := blen rb1 - len\<rparr>) g1"
    if "seperate_buf (blen rb) (payload rb) h ptxt = Some (len, buf, h1, ptxt1)" "blen rb1 = blen rb"
      "\<not> (len > blen rb \<or> len < 0)"
    for len buf h1 ptxt1 rb1 h2 buf2 g1
    using seperate_progress [OF that(1)] that(2,3) Suc.prems(1) f'(2) by (intro Suc.IH) auto
  show ?case
    unfolding f'(1) cli_loop.simps
    by (intro bind_option_cong refl)
      (auto simp: Let_def round intro!: bind_option_cong split: prod.splits)
qed simp

section \<open>Control items\<close>

interpretation cli_ctrl: dispatch_table "cli_ctrl_handle pl"
  by unfold_locales (simp add: cli_ctrl_handle_def bytes_def)

interpretation cli_tab: dispatch_table "cli_dis pl"
  by unfold_locales (simp add: cli_dis_def)

lemma ctrl_keys_lower: "(k, f) \<in> set (cli_ctrl_handle pl) \<Longrightarrow> map lower k = k"
  by (auto simp: cli_ctrl_handle_def bytes_def lower_def)

lemma run_ctrl_miss: "\<forall>(k, f) \<in> set rows. GetObjectItem p k = None \<Longrightarrow> run_ctrl rows p g = Some g"
  by (induction rows) auto

lemma run_ctrl_one:
  assumes "distinct (map fst rows)" "(k, f) \<in> set rows" "GetObjectItem p k = Some v"
    "\<forall>(k', f') \<in> set rows. k' \<noteq> k \<longrightarrow> GetObjectItem p k' = None"
  shows "run_ctrl rows p g = map_option snd (f (item_val v) g)"
  using assms
proof (induction rows)
  case (Cons row rows)
  obtain k' f' where row: "row = (k', f')" by (cases row)
  show ?case
  proof (cases "k' = k")
    case True
    then have "f' = f" "\<forall>(k', f') \<in> set rows. GetObjectItem p k' = None"
      using Cons.prems row by (auto simp: rev_image_eqI)
    with True row Cons.prems(3) show ?thesis
      by (cases "f (item_val v) g") (auto simp: run_ctrl_miss)
  next
    case False
    with Cons row show ?thesis by auto
  qed
qed simp

text \<open>A control command with one item runs the handler of that item, and only it, whatever the
  case of the letters; a value that is not a number counts as its type.\<close>

theorem ctrl_cb_item:
  assumes "\<not> check_is_alarm pl g" "(k, f) \<in> set (cli_ctrl_handle pl)" "map lower name = k"
    and "cstr b = Some s"
    "cjson_parse pl s = Some (JObject [(bytes ''profile'', JObject [(name, v)])])"
  shows "ctrl_cb pl b g = map_option (\<lambda>(_, g1). (0, g1)) (f (item_val v) g)"
proof -
  have k: "map lower k = k" using assms(2) by (rule ctrl_keys_lower)
  have "run_ctrl (cli_ctrl_handle pl) (JObject [(name, v)]) g = map_option snd (f (item_val v) g)"
  proof (rule run_ctrl_one [OF cli_ctrl.distinct_keys assms(2)])
    show "GetObjectItem (JObject [(name, v)]) k = Some v" using k assms(3) by simp
    show "\<forall>(k', f') \<in> set (cli_ctrl_handle pl). k' \<noteq> k \<longrightarrow> GetObjectItem (JObject [(name, v)]) k' = None"
      using assms(3) ctrl_keys_lower by fastforce
  qed
  then show ?thesis
    using assms(1,4,5) by (cases "f (item_val v) g") (auto simp: ctrl_cb_def parse_text_def)
qed

section \<open>Speech\<close>

text \<open>A well-formed speech command has undefined behaviour: its answer is released by \<open>_reply_\<close> and
  again by the handler.\<close>

theorem tts_cmd_frees_twice:
  assumes "cstr b = Some s" "cjson_parse pl s = Some root"
    "GetObjectItem root (bytes ''msgText'') = Some t" "GetObjectItem root (bytes ''msgCata'') = Some c"
  shows "tts_cmd_cb pl b g = None"
proof -
  have "do { ((r, freed), g2) \<leftarrow> cli_reply C_DEV_TTS out g1; _ \<leftarrow> free_block freed;
         Some (if r \<noteq> 0 then -1 else 0 :: int, g2) } = None" for out and g1 :: "'a gateway"
    by (auto simp: cli_reply_def free_block_def split: bind_splits)
  then show ?thesis
    using assms by (simp add: tts_cmd_cb_def parse_text_def split: bind_splits)
qed

section \<open>Song lists\<close>

definition numbers :: "byte \<Rightarrow> byte list list \<Rightarrow> byte list" where
  "numbers c ds = concat (map (\<lambda>d. d @ [c]) (butlast ds)) @ last ds"

lemma sep_loop_digits:
  assumes "\<forall>c \<in> set d. is_digit c" "0 \<le> n" "dec_fold n d < 2 ^ 31"
  shows "sep_loop room (Some n) (d @ cs) out = sep_loop room (Some (dec_fold n d)) cs out"
  using assms
proof (induction d arbitrary: n)
  case (Cons c d)
  have c: "is_digit c" "0 \<le> digit_val c" using Cons.prems is_digit_range by auto
  have "n * 10 + digit_val c \<le> dec_fold (n * 10 + digit_val c) d"
    using dec_fold_bound [of d "n * 10 + digit_val c"] Cons.prems(1,2) c by auto
  then have b: "n * 10 + digit_val c < 2 ^ 31" using Cons.prems(3) by simp
  then have "int32 (n * 10) = Some (n * 10)" "int32 (n * 10 + digit_val c) = Some (n * 10 + digit_val c)"
    using Cons.prems(2) c by (auto simp: int32_def)
  with Cons c show ?case by simp
qed simp

lemma sep_loop_number:
  assumes "d \<noteq> []" "\<forall>c \<in> set d. is_digit c" "dec_fold 0 d < 2 ^ 31"
  shows "sep_loop room None (d @ cs) out = sep_loop room (Some (dec_fold 0 d)) cs out"
proof -
  obtain c d' where d: "d = c # d'" using assms(1) by (cases d) auto
  with assms sep_loop_digits [of d' "digit_val c" room cs out] is_digit_range [of c]
  show ?thesis by simp
qed

lemma sep_loop_numbers:
  assumes "ds \<noteq> []" "\<forall>d \<in> set ds. d \<noteq> [] \<and> (\<forall>c \<in> set d. is_digit c) \<and> dec_fold 0 d < 2 ^ 31"
    "\<not> is_digit c" "length out + length ds < room"
  shows "sep_loop room None (numbers c ds) out = Some (out @ map (dec_fold 0) ds @ [-1])"
  using assms
proof (induction ds arbitrary: out)
  case (Cons d ds)
  show ?case
  proof (cases ds)
    case Nil
    with Cons.prems sep_loop_number [of d room "[]" out] show ?thesis by (simp add: numbers_def)
  next
    case (Cons d' ds')
    have n: "numbers c (d # ds) = d @ c # numbers c ds" using Cons by (simp add: numbers_def)
    have "sep_loop room None (d @ c # numbers c ds) out
        = sep_loop room (Some (dec_fold 0 d)) (c # numbers c ds) out"
      using Cons.prems by (intro sep_loop_number) auto
    also have "\<dots> = sep_loop room None (numbers c ds) (out @ [dec_fold 0 d])"
      using Cons.prems by simp
    also have "\<dots> = Some ((out @ [dec_fold 0 d]) @ map (dec_fold 0) ds @ [-1])"
      using Cons.prems Cons by (intro Cons.IH) auto
    finally show ?thesis using n by simp
  qed
qed simp

lemma length_numbers: "ds \<noteq> [] \<Longrightarrow> \<forall>d \<in> set ds. d \<noteq> [] \<Longrightarrow> 2 * length ds \<le> length (numbers c ds) + 1"
proof (induction ds)
  case (Cons d ds)
  have d: "1 \<le> length d" using Cons.prems by (cases d) auto
  show ?case
  proof (cases ds)
    case Nil
    with d show ?thesis by (simp add: numbers_def)
  next
    case (Cons d' ds')
    then have "numbers c (d # ds) = d @ c # numbers c ds" by (simp add: numbers_def)
    with Cons.IH Cons.prems Cons d show ?thesis by auto
  qed
qed simp

text \<open>A list of decimal numbers with one separator between them is read back, closed by -1, inside
  of its block: half the length of the text and two are always enough.\<close>

theorem sep_list_arr_numbers:
  assumes "ds \<noteq> []" "\<forall>d \<in> set ds. d \<noteq> [] \<and> (\<forall>c \<in> set d. is_digit c) \<and> dec_fold 0 d < 2 ^ 31"
    "\<not> is_digit c"
  shows "sep_list_arr (numbers c ds) = Some (Some (map (dec_fold 0) ds @ [-1]))"
proof -
  have l: "2 * length ds \<le> length (numbers c ds) + 1" using length_numbers assms(1,2) by blast
  then have "length ds < length (numbers c ds) div 2 + 2" by linarith
  moreover have "numbers c ds \<noteq> []" using assms(1,2) by (auto simp: numbers_def)
  ultimately show ?thesis
    using sep_loop_numbers [OF assms, of "[]"] by (simp add: sep_list_arr_def)
qed

section \<open>Examples\<close>

definition ex_text :: "byte list" where
  "ex_text = bytes ''{\"profile\":{\"setvol\":50}}''"

definition ex_tts :: "byte list" where
  "ex_tts = bytes ''{\"msgText\":\"hi\",\"msgCata\":2}''"

definition ex_head :: cli_head where
  "ex_head = \<lparr>cmd = bswap16 0x05, htype = 1, hlen = 0, snd_id = replicate 10 0x31\<rparr>"

definition ex_cli :: "byte list \<Rightarrow> st_proto" where
  "ex_cli s = (ex_proto (bytes ''tcp_cli'') K_TCP_CLI)\<lparr>recv_buf :=
     \<lparr>payload = frame ex_head s @ 0 # replicate 9 0, max_len = 1024,
      blen = int (length (frame ex_head s)), bbegin = 0\<rparr>\<rparr>"

lemma ex_not_alarm: "\<not> check_is_alarm sim_platform sim_gateway"
  by (simp add: check_is_alarm_def sim_gateway_def sim_start_def)


lemma cli_loop_ends_witness:
  "cli_loop 9 sim_platform no_head [0] \<lparr>payload = [0x41, 0x7e], max_len = 2, blen = 2, bbegin = 0\<rparr> sim_gateway =
   cli_loop 3 sim_platform no_head [0] \<lparr>payload = [0x41, 0x7e], max_len = 2, blen = 2, bbegin = 0\<rparr> sim_gateway"
  by (rule cli_loop_ends) simp_all

lemma ctrl_cb_item_witness:
  "map_option (\<lambda>(r, g). (r, ps_volume (sim_status (ext g))))
     (ctrl_cb sim_platform (ex_text @ [0]) sim_gateway) = Some (0, 20)"
proof -
  have "cstr (ex_text @ [0]) = Some ex_text"
    by (rule cstr_append) (simp add: ex_text_def bytes_def)
  moreover have "cjson_parse sim_platform ex_text
      = Some (JObject [(bytes ''profile'', JObject [(bytes ''setvol'', JNumber 50)])])"
    by (simp add: sim_platform_def sim_parse_def sim_texts_def ex_text_def
      starts_with_append [where ys = "[]", simplified])
  moreover have "(bytes ''setvol'', cli_ctrl_setvol sim_platform) \<in> set (cli_ctrl_handle sim_platform)"
    by (simp add: cli_ctrl_handle_def)
  moreover have "map lower (bytes ''setvol'') = bytes ''setvol''" by (simp add: bytes_def lower_def)
  ultimately have "ctrl_cb sim_platform (ex_text @ [0]) sim_gateway
      = map_option (\<lambda>(_, g1). (0, g1)) (cli_ctrl_setvol sim_platform (item_val (JNumber 50)) sim_gateway)"
    using ctrl_cb_item [OF ex_not_alarm] by blast
  then show ?thesis
    by (simp add: cli_ctrl_setvol_def halo_vol_def item_val_def int32_def call_simp sim_platform_def
        sim_set_def sim_gateway_def sim_start_def)
qed

lemma tts_cmd_frees_twice_witness: "tts_cmd_cb sim_platform (ex_tts @ [0]) sim_gateway = None"
proof (rule tts_cmd_frees_twice)
  show "cstr (ex_tts @ [0]) = Some ex_tts"
    by (rule cstr_append) (simp add: ex_tts_def bytes_def)
  show "cjson_parse sim_platform ex_tts
      = Some (JObject [(bytes ''msgText'', JString (bytes ''hi'')), (bytes ''msgCata'', JNumber 2)])"
    by (simp add: sim_platform_def sim_parse_def sim_texts_def ex_tts_def bytes_def)
qed (simp_all add: bytes_def lower_def)

lemma sep_list_arr_numbers_witness: "sep_list_arr (bytes ''12,7'') = Some (Some [12, 7, -1])"
proof -
  have "sep_list_arr (numbers 0x2c [bytes ''12'', bytes ''7'']) =
      Some (Some (map (dec_fold 0) [bytes ''12'', bytes ''7''] @ [-1]))"
    by (rule sep_list_arr_numbers) (simp_all add: bytes_def is_digit_def digit_val_def)
  then show ?thesis by (simp add: numbers_def bytes_def digit_val_def)
qed

end
