(* ===== verification/Main_Loop.thy ===== *)
theory Main_Loop
  imports Registry
begin

text \<open>
  The event loop of \<open>app/main_loop.c\<close>: one call of the manager (\<open>_manager\<close>), which starts, closes
  and times out protocols and delivers the queued messages, and the select loop around it
  (\<open>halo_proc\<close>). The callbacks are those of the tables given as an argument. Loops over a
  container take a fuel argument; one more than the length of the container is enough while no
  callback adds a node.
\<close>

section \<open>The manager\<close>

definition halo_init :: "'e gateway \<Rightarrow> int \<times> 'e gateway" where
  "halo_init g =
     (if halo_up g then (-1, g)
      else (0, g\<lparr>halo_up := True, env_status := 0, mlist_fd := 0, main_disk := -1, local_list := None\<rparr>))"

definition env_now :: "'e platform \<Rightarrow> 'e gateway \<Rightarrow> 32 word" where
  "env_now pl g =
     (let e0 = 0;
          e1 = (if wifi_connected pl (ext g) then e0 OR LOOP_CFG_WIFI else e0);
          e2 = (if music_connected pl (ext g) > 0 then e1 OR LOOP_CFG_ALINK else e1)
      in if hope_regist_st g \<noteq> 0 then e2 OR LOOP_CFG_HOPE else e2)"

definition needs :: "st_proto \<Rightarrow> 32 word" where
  "needs p = config p AND NOT LOOP_CFG_RETRY"

definition met :: "32 word \<Rightarrow> st_proto \<Rightarrow> bool" where
  "met env p = (needs p = needs p AND env)"

text \<open>The three stages of the loop body of \<open>_manager\<close> for one protocol. Reading the protocol after
  one of its callbacks deleted it is undefined.\<close>

definition manage_init :: "'e platform \<Rightarrow> 'e tables \<Rightarrow> 32 word \<Rightarrow> addr \<Rightarrow> 'e gateway \<Rightarrow> 'e gateway option" where
  "manage_init pl tabs env a g =
     do { p \<leftarrow> pget a g;
          if met env p \<and> active p = 0
          then (case init_cb (table_of tabs p) of
              None \<Rightarrow> Some g
            | Some f \<Rightarrow> do {
                (r, g1) \<leftarrow> f a g;
                if r = 9 then map_option snd (delete_proto tabs a g1)
                else if r = 0 then pupd a (\<lambda>p. p\<lparr>timecount := get_now_ms pl g1\<rparr>) g1
                else Some g1 })
          else Some g }"

definition manage_change ::
  "'e tables \<Rightarrow> 32 word \<Rightarrow> bool \<Rightarrow> bool \<Rightarrow> addr \<Rightarrow> 'e gateway \<Rightarrow> 'e gateway option" where
  "manage_change tabs env changed is_met a g =
     (if changed \<and> \<not> is_met
      then do { p \<leftarrow> pget a g;
                if active p \<noteq> 0 then map_option snd (close_proto tabs a g) else Some g }
      else Some g)"

definition manage_timeout :: "'e tables \<Rightarrow> 64 word \<Rightarrow> addr \<Rightarrow> 'e gateway \<Rightarrow> 'e gateway option" where
  "manage_timeout tabs now a g =
     do { p \<leftarrow> pget a g;
          if active p = 0 then Some g
          else (case timeout_cb (table_of tabs p) of
              None \<Rightarrow> Some g
            | Some f \<Rightarrow>
                if timeout p \<le> now - timecount p
                then do { g1 \<leftarrow> pupd a (\<lambda>p. p\<lparr>timecount := now\<rparr>) g;
                          (r, g2) \<leftarrow> f a g1;
                          if r = 0 then Some g2
                          else if r = 9 then map_option snd (delete_proto tabs a g2)
                          else map_option snd (close_proto tabs a g2) }
                else Some g) }"

definition manage_proto ::
  "'e platform \<Rightarrow> 'e tables \<Rightarrow> 32 word \<Rightarrow> bool \<Rightarrow> 64 word \<Rightarrow> addr \<Rightarrow> 'e gateway \<Rightarrow>
     (unit option \<times> 'e gateway) option" where
  "manage_proto pl tabs env changed now a g =
     do { p \<leftarrow> pget a g;
          g1 \<leftarrow> manage_init pl tabs env a g;
          g2 \<leftarrow> manage_change tabs env changed (met env p) a g1;
          g3 \<leftarrow> manage_timeout tabs now a g2;
          Some (None, g3) }"

definition deliver :: "'e tables \<Rightarrow> addr \<Rightarrow> addr \<Rightarrow> 'e gateway \<Rightarrow> (unit option \<times> 'e gateway) option" where
  "deliver tabs m a g =
     do { p \<leftarrow> pget a g;
          case disproto_cb (table_of tabs p) of
            None \<Rightarrow> Some (None, g)
          | Some f \<Rightarrow>
              do { x \<leftarrow> mget m g;
                   if pname p = m_target x
                   then do { (r, g1) \<leftarrow> f m a g;
                             g2 \<leftarrow> (if r < 0 then map_option snd (close_proto tabs a g1) else Some g1);
                             Some (None, g2) }
                   else Some (None, g) } }"

definition dispatch_body :: "nat \<Rightarrow> 'e tables \<Rightarrow> addr \<Rightarrow> 'e gateway \<Rightarrow> (unit option \<times> 'e gateway) option" where
  "dispatch_body fuel tabs m g =
     do { (_, g1) \<leftarrow> list_for_each_safe fuel (\<lambda>g. il_next (protos g)) (deliver tabs m) 0 g;
          (_, g2) \<leftarrow> del_msg m g1;
          Some (None, g2) }"

definition dispatch_msgs :: "nat \<Rightarrow> 'e tables \<Rightarrow> 'e gateway \<Rightarrow> 'e gateway option" where
  "dispatch_msgs fuel tabs g =
     map_option snd (list_for_each_safe fuel (\<lambda>g. il_next (msgs g)) (dispatch_body fuel tabs) 0 g)"

definition manager :: "nat \<Rightarrow> 'e platform \<Rightarrow> 'e tables \<Rightarrow> 'e gateway \<Rightarrow> (int \<times> 'e gateway) option" where
  "manager fuel pl tabs g =
     (let now = get_now_ms pl g; env = env_now pl g;
          changed = (env \<noteq> env_status g);
          g0 = (if changed then g\<lparr>env_status := env\<rparr> else g)
      in do { (_, g1) \<leftarrow> list_for_each_safe fuel (\<lambda>g. il_next (protos g))
                (manage_proto pl tabs env changed now) 0 g0;
              g2 \<leftarrow> dispatch_msgs fuel tabs g1;
              Some (0, g2) })"

section \<open>The select loop\<close>

text \<open>\<open>_regist_proto\<close>: the descriptors to wait for and the largest one. \<open>FD_SET\<close> has 1024 bits.\<close>

definition regist_body :: "addr \<Rightarrow> (int list \<times> int) \<times> 'e gateway \<Rightarrow>
    (unit option \<times> (int list \<times> int) \<times> 'e gateway) option" where
  "regist_body a s =
     (case s of ((fds, max_fd), g) \<Rightarrow>
       do { p \<leftarrow> pget a g;
            if pfd p \<ge> 0 \<and> active p = 1
            then if pfd p < 1024 then Some (None, (fds @ [pfd p], max max_fd (pfd p)), g) else None
            else Some (None, (fds, max_fd), g) })"

definition regist_proto :: "nat \<Rightarrow> 'e gateway \<Rightarrow> (int list \<times> int) option" where
  "regist_proto fuel g =
     (if \<not> halo_up g then Some ([], -1)
      else do { (_, s, _) \<leftarrow> list_for_each_safe fuel (\<lambda>s. il_next (protos (snd s))) regist_body 0 (([], -1), g);
                Some s })"

definition fd_isset :: "int \<Rightarrow> int list \<Rightarrow> bool option" where
  "fd_isset fd fds = (if 0 \<le> fd \<and> fd < 1024 then Some (fd \<in> set fds) else None)"

definition active_proto :: "nat \<Rightarrow> int list \<Rightarrow> 'e gateway \<Rightarrow> addr option option" where
  "active_proto fuel fds g =
     (if \<not> halo_up g then Some None
      else do { (r, _) \<leftarrow> list_for_each_safe fuel (\<lambda>g. il_next (protos g))
                  (\<lambda>a g. do { p \<leftarrow> pget a g; b \<leftarrow> fd_isset (pfd p) fds;
                                 Some (if b then Some a else None, g) }) 0 g;
                Some r })"

text \<open>The loop over the ready descriptors, with the number of those not yet served.\<close>

definition serve :: "'e tables \<Rightarrow> addr \<Rightarrow> 'e gateway \<Rightarrow> 'e gateway option" where
  "serve tabs a g =
     do { p \<leftarrow> pget a g;
          f \<leftarrow> recv_cb (table_of tabs p);
          (r, g1) \<leftarrow> f a g;
          if r = 0
          then do { p1 \<leftarrow> pget a g1;
                    case reply_cb (table_of tabs p1) of
                      None \<Rightarrow> Some g1
                    | Some f \<Rightarrow> do { (q, g2) \<leftarrow> f a g1;
                                   if q \<noteq> 0 then map_option snd (close_proto tabs a g2) else Some g2 } }
          else if r < 0 then map_option snd (close_proto tabs a g1)
          else Some g1 }"

definition serve_body :: "'e tables \<Rightarrow> int list \<Rightarrow> addr \<Rightarrow> int \<times> 'e gateway \<Rightarrow>
    (unit option \<times> int \<times> 'e gateway) option" where
  "serve_body tabs ready a s =
     (case s of (left, g) \<Rightarrow>
       do { p \<leftarrow> pget a g;
            isset \<leftarrow> (if pfd p \<ge> 0 \<and> active p \<noteq> 0 then fd_isset (pfd p) ready else Some False);
            (left', g') \<leftarrow>
              (if isset
               then do { g' \<leftarrow> serve tabs a g; Some (left - 1, g') }
               else Some (left, g));
            Some (if left' = 0 then Some () else None, left', g') })"

text \<open>One round of \<open>halo_proc\<close>; the result says whether it goes on.\<close>

definition halo_round :: "nat \<Rightarrow> 'e platform \<Rightarrow> 'e tables \<Rightarrow> 'e gateway \<Rightarrow> (bool \<times> 'e gateway) option" where
  "halo_round fuel pl tabs g =
     do { _ \<leftarrow> (if halo_up g then Some () else None);
          (fds, max_fd) \<leftarrow> regist_proto fuel g;
          let ((sel_ret, ready), g1) = call (sock_select pl fds) g;
          if sel_ret > 0
          then do { (_, _, g2) \<leftarrow> list_for_each_safe fuel (\<lambda>s. il_next (protos (snd s)))
                      (serve_body tabs ready) 0 (sel_ret, g1);
                    (_, g3) \<leftarrow> manager fuel pl tabs g2;
                    Some (True, g3) }
          else if sel_ret < 0 \<and> \<not> errno_eintr pl (ext g1) then Some (False, g1)
          else do { (_, g3) \<leftarrow> manager fuel pl tabs g1; Some (True, g3) } }"

fun halo_proc :: "nat \<Rightarrow> nat \<Rightarrow> 'e platform \<Rightarrow> 'e tables \<Rightarrow> 'e gateway \<Rightarrow> (bool \<times> 'e gateway) option" where
  "halo_proc 0 fuel pl tabs g = Some (True, g)"
| "halo_proc (Suc n) fuel pl tabs g =
     do { (on, g1) \<leftarrow> halo_round fuel pl tabs g;
          if on then halo_proc n fuel pl tabs g1 else Some (False, g1) }"

definition update_body :: "'e tables \<Rightarrow> splayer_status \<Rightarrow> addr \<Rightarrow> 'e gateway \<Rightarrow>
    (unit option \<times> 'e gateway) option" where
  "update_body tabs st a g =
     do { p \<leftarrow> pget a g;
          if pfd p \<ge> 0 \<and> active p \<noteq> 0
          then (case active_send_cb (table_of tabs p) of
              None \<Rightarrow> Some (None, g)
            | Some f \<Rightarrow> do {
                g1 \<leftarrow> pupd a (\<lambda>p. p\<lparr>play_status := st\<rparr>) g;
                (r, g2) \<leftarrow> f a g1;
                g3 \<leftarrow> (if r \<noteq> 0 then map_option snd (close_proto tabs a g2) else Some g2);
                Some (None, g3) })
          else Some (None, g) }"

definition update_status :: "nat \<Rightarrow> 'e tables \<Rightarrow> splayer_status \<Rightarrow> 'e gateway \<Rightarrow> (int \<times> 'e gateway) option" where
  "update_status fuel tabs st g =
     (if \<not> halo_up g then Some (-1, g)
      else do { (_, g1) \<leftarrow> list_for_each_safe fuel (\<lambda>g. il_next (protos g)) (update_body tabs st) 0 g;
                Some (0, g1) })"

section \<open>Callbacks that keep the lists\<close>

text \<open>What the loops need of a callback: it returns, and it neither adds nor removes nodes nor changes
  what the loops look at (the name, the configuration and the table of a protocol). It may
  change everything else of a protocol, and the environment.\<close>

definition ident :: "addr \<Rightarrow> 'e gateway \<Rightarrow> (byte list \<times> 32 word \<times> proto_kind) option" where
  "ident b g = map_option (\<lambda>p. (pname p, config p, callbacks p)) (pget b g)"

definition same_nodes :: "'e gateway \<Rightarrow> 'e gateway \<Rightarrow> bool" where
  "same_nodes s s' = (order (protos s') = order (protos s) \<and> fresh (protos s') = fresh (protos s) \<and>
     msgs s' = msgs s \<and> (\<forall>b. ident b s' = ident b s))"

definition gone :: "addr \<Rightarrow> 'e gateway \<Rightarrow> 'e gateway \<Rightarrow> bool" where
  "gone a s s' = (gw_ok s' \<and> order (protos s') = remove1 a (order (protos s)) \<and> msgs s' = msgs s \<and>
     (\<forall>b. b \<noteq> a \<longrightarrow> ident b s' = ident b s))"

definition stepped :: "addr \<Rightarrow> 'e gateway \<Rightarrow> 'e gateway \<Rightarrow> bool" where
  "stepped a s s' = (gw_ok s' \<and> (same_nodes s s' \<or> gone a s s'))"

definition tame :: "'e cb \<Rightarrow> bool" where
  "tame f = (\<forall>a s. gw_ok s \<and> pget a s \<noteq> None \<longrightarrow> (\<exists>r s'. f a s = Some (r, s') \<and> same_nodes s s'))"

definition tame_dispatch :: "'e tables \<Rightarrow> bool" where
  "tame_dispatch tabs = (\<forall>k.
     (\<forall>f. close_cb (tabs k) = Some f \<longrightarrow> tame f) \<and>
     (\<forall>f m a s. disproto_cb (tabs k) = Some f \<and> gw_ok s \<and> pget a s \<noteq> None \<and> mget m s \<noteq> None \<longrightarrow>
        (\<exists>r s'. f m a s = Some (r, s') \<and> same_nodes s s')))"

definition tame_tables :: "'e tables \<Rightarrow> bool" where
  "tame_tables tabs = (tame_dispatch tabs \<and> (\<forall>k.
     (\<forall>f. timeout_cb (tabs k) = Some f \<longrightarrow> tame f) \<and>
     (\<forall>f. init_cb (tabs k) = Some f \<longrightarrow> tame f \<and> (\<forall>a s. map_option fst (f a s) \<noteq> Some 9))))"

lemma ident_pget: "ident b s = Some (n, c, k) \<longleftrightarrow>
    (\<exists>p. pget b s = Some p \<and> pname p = n \<and> config p = c \<and> callbacks p = k)"
  by (auto simp: ident_def)

lemma ident_None: "ident b s = None \<longleftrightarrow> pget b s = None"
  by (simp add: ident_def)

lemma same_nodes_refl [simp]: "same_nodes s s"
  by (simp add: same_nodes_def)

lemma same_nodes_trans [trans]: "same_nodes s t \<Longrightarrow> same_nodes t u \<Longrightarrow> same_nodes s u"
  by (simp add: same_nodes_def)

lemma same_nodes_live: "same_nodes s s' \<Longrightarrow> (pget b s' = None) = (pget b s = None)"
  by (simp add: same_nodes_def flip: ident_None)

lemma same_nodes_pget:
  assumes "same_nodes s s'" "pget b s = Some p"
  obtains p' where "pget b s' = Some p'" "pname p' = pname p" "config p' = config p"
    "callbacks p' = callbacks p"
proof -
  have "ident b s' = Some (pname p, config p, callbacks p)"
    using assms by (simp add: same_nodes_def) (simp add: ident_def)
  then show ?thesis using that by (auto simp: ident_pget)
qed

lemma same_nodes_ok:
  assumes "same_nodes s s'" "gw_ok s"
  shows "gw_ok s'"
proof -
  have "cell (protos s') a \<noteq> None \<longleftrightarrow> cell (protos s) a \<noteq> None" for a
    using same_nodes_live [OF assms(1), of a] by (simp add: pget_def)
  then show ?thesis using assms unfolding gw_ok_def il_ok_def same_nodes_def by auto
qed

lemma same_nodes_pset: "pget a s = Some p \<Longrightarrow> pname q = pname p \<Longrightarrow> config q = config p \<Longrightarrow>
    callbacks q = callbacks p \<Longrightarrow> same_nodes s (pset a q s)"
  by (auto simp: same_nodes_def pset_def ident_def pget_def)

lemma stepped_same: "same_nodes s s' \<Longrightarrow> gw_ok s \<Longrightarrow> stepped a s s'"
  by (simp add: stepped_def same_nodes_ok)

lemma stepped_msgs: "stepped a s s' \<Longrightarrow> msgs s' = msgs s"
  by (auto simp: stepped_def same_nodes_def gone_def)

lemma stepped_trans: "same_nodes s t \<Longrightarrow> stepped a t u \<Longrightarrow> stepped a s u"
  unfolding stepped_def by (auto simp: same_nodes_def gone_def)

lemma stepped_order: "stepped a s s' \<Longrightarrow>
    order (protos s') = order (protos s) \<or> order (protos s') = remove1 a (order (protos s))"
  by (auto simp: stepped_def same_nodes_def gone_def)

lemma stepped_length: "stepped a s s' \<Longrightarrow> length (order (protos s')) \<le> length (order (protos s))"
  by (drule stepped_order) (auto simp: length_remove1)

lemma stepped_ident:
  assumes "stepped a s s'" "gw_ok s" "b \<in> set (order (protos s'))"
  shows "ident b s' = ident b s \<and> b \<in> set (order (protos s))"
proof (cases "same_nodes s s'")
  case False
  then have g: "gone a s s'" using assms(1) by (simp add: stepped_def)
  have "a \<notin> set (remove1 a (order (protos s)))"
    using assms(2) by (simp add: gw_ok_def il_ok_def)
  then have "b \<noteq> a" using g assms(3) by (auto simp: gone_def)
  with g assms(3) show ?thesis by (auto simp: gone_def dest: notin_set_remove1)
qed (use assms(3) in \<open>simp add: same_nodes_def\<close>)

lemma tameD:
  assumes "tame f" "gw_ok s" "pget a s \<noteq> None"
  obtains r s' where "f a s = Some (r, s')" "same_nodes s s'" "gw_ok s'"
  using assms same_nodes_ok unfolding tame_def by blast

lemma tame_close: "tame_dispatch tabs \<Longrightarrow> close_cb (table_of tabs p) = Some f \<Longrightarrow> tame f"
  by (auto simp: tame_dispatch_def table_of_def)

lemma live_order: "gw_ok s \<Longrightarrow> a \<in> set (order (protos s)) \<Longrightarrow> a \<noteq> 0 \<and> pget a s \<noteq> None"
  by (cases "a = 0") (auto simp: gw_ok_def il_ok_def pget_def)

lemma delete_proto_gone:
  assumes "tame_dispatch tabs" "gw_ok g" "a \<in> set (order (protos g))"
  shows "\<exists>g'. delete_proto tabs a g = Some (0, g') \<and> gone a g g' \<and> pget a g' = None"
proof -
  obtain p where p: "a \<noteq> 0" "pget a g = Some p" using live_order [OF assms(2,3)] by auto
  let ?g1 = "g\<lparr>protos := il_unlink a (protos g)\<rparr>"
  have ok1: "gw_ok ?g1" using assms(2) by (simp add: gw_ok_def il_ok_unlink)
  have id1: "pget b ?g1 = pget b g" "ident b ?g1 = ident b g" for b
    by (simp_all add: ident_def pget_def il_unlink_def)
  obtain g2 where g2: "(case close_cb (table_of tabs p) of None \<Rightarrow> Some ?g1
      | Some f \<Rightarrow> map_option snd (f a ?g1)) = Some g2" "same_nodes ?g1 g2"
  proof (cases "close_cb (table_of tabs p)")
    case None
    then show ?thesis using that [of ?g1] by simp
  next
    case (Some f)
    have "pget a ?g1 \<noteq> None" using id1 p by simp
    then obtain r s' where "f a ?g1 = Some (r, s')" "same_nodes ?g1 s'"
      using tameD [OF tame_close [OF assms(1) Some] ok1] by metis
    with Some show ?thesis using that [of s'] by simp
  qed
  have ord: "order (protos g2) = remove1 a (order (protos g))" "msgs g2 = msgs g"
    "\<And>b. ident b g2 = ident b g"
    using g2(2) id1 by (simp_all add: same_nodes_def il_unlink_def)
  have "pget a g2 \<noteq> None" using same_nodes_live [OF g2(2), of a] id1(1) [of a] p(2) by simp
  then have del: "delete_proto tabs a g = Some (0, g2\<lparr>protos := il_free a (protos g2)\<rparr>)"
    using p assms(3) g2(1) by (auto simp: delete_proto_def Let_def)
  let ?g3 = "g2\<lparr>protos := il_free a (protos g2)\<rparr>"
  have a: "a \<notin> set (order (protos g2))" using assms(2) ord by (simp add: gw_ok_def il_ok_def)
  have "gw_ok ?g3"
    using same_nodes_ok [OF g2(2) ok1] a by (auto simp: gw_ok_def il_ok_def il_free_def)
  moreover have "b \<noteq> a \<Longrightarrow> ident b ?g3 = ident b g" for b
    using ord(3) [of b] by (simp add: ident_def pget_def il_free_def)
  moreover have "pget a ?g3 = None" by (simp add: pget_def il_free_def)
  ultimately show ?thesis using del ord by (simp add: gone_def) (simp add: il_free_def)
qed

lemma close_proto_stepped:
  assumes "tame_dispatch tabs" "gw_ok g" "a \<in> set (order (protos g))"
  shows "\<exists>r g'. close_proto tabs a g = Some (r, g') \<and> stepped a g g' \<and>
    (\<forall>p. pget a g = Some p \<and> config p AND LOOP_CFG_RETRY \<noteq> 0 \<longrightarrow> same_nodes g g')"
proof -
  obtain p where p: "pget a g = Some p" using live_order [OF assms(2,3)] by auto
  show ?thesis
  proof (cases "config p AND LOOP_CFG_RETRY = 0")
    case True
    then show ?thesis
      using delete_proto_gone [OF assms] p by (auto simp: close_proto_def stepped_def gone_def)
  next
    case retry: False
    show ?thesis
    proof (cases "close_cb (table_of tabs p)")
      case (Some f)
      obtain r s' where f: "f a g = Some (r, s')" "same_nodes g s'" "gw_ok s'"
        using tameD [OF tame_close [OF assms(1) Some] assms(2), of a] p by auto
      obtain p' where p': "pget a s' = Some p'" using same_nodes_pget [OF f(2) p] by metis
      have "same_nodes g (pset a (p'\<lparr>active := 0\<rparr>) s')"
        using f(2) same_nodes_pset [OF p', of "p'\<lparr>active := 0\<rparr>"] same_nodes_trans by fastforce
      then show ?thesis
        using Some retry p f p' assms(2)
        by (auto simp: close_proto_def pupd_def intro: stepped_same)
    qed (use retry p assms(2) in \<open>auto simp: close_proto_def intro: stepped_same\<close>)
  qed
qed

section \<open>The loops\<close>

text \<open>A loop over the protocols whose body steps.\<close>

lemma proto_loop:
  assumes body: "\<And>a s. I s \<Longrightarrow> gw_ok s \<Longrightarrow> a \<in> set (order (protos s)) \<Longrightarrow>
      \<exists>s'. body a s = Some (None :: 'r option, s') \<and> stepped a s s' \<and> I s'"
    and g: "I g" "gw_ok g" "length (order (protos g)) < fuel"
  shows "\<exists>g'. list_for_each_safe fuel (\<lambda>g. il_next (protos g)) body 0 g = Some (None, g') \<and>
    fold_body body (order (protos g)) g = Some (None, g') \<and>
    I g' \<and> gw_ok g' \<and> msgs g' = msgs g \<and> length (order (protos g')) \<le> length (order (protos g))"
proof -
  have after: "\<exists>xs'. order (protos s') = xs' @ ys"
    if "gw_ok s" "order (protos s) = xs @ p # ys" "stepped p s s'" for p xs ys s s'
    using stepped_order [OF that(3)] that(1,2)
    by (auto simp: gw_ok_def il_ok_def remove1_append intro: exI [of _ "xs @ [p]"])
  have run: "I s \<Longrightarrow> gw_ok s \<Longrightarrow> order (protos s) = xs @ ys \<Longrightarrow>
      \<exists>s'. fold_body body ys s = Some (None, s') \<and> I s' \<and> gw_ok s' \<and> msgs s' = msgs s \<and>
        length (order (protos s')) \<le> length (order (protos s))" for xs ys s
  proof (induction ys arbitrary: xs s)
    case (Cons y ys)
    obtain s1 where s1: "body y s = Some (None, s1)" "stepped y s s1" "I s1"
      using body [of s y] Cons.prems by auto
    obtain xs' where "order (protos s1) = xs' @ ys" using after [OF Cons.prems(2,3) s1(2)] by blast
    moreover have "gw_ok s1" using s1(2) by (simp add: stepped_def)
    ultimately show ?case
      using Cons.IH [OF s1(3)] s1 stepped_msgs [OF s1(2)] stepped_length [OF s1(2)] by fastforce
  qed simp
  have "list_for_each_safe (Suc (length (order (protos g)))) (\<lambda>g. il_next (protos g)) body 0 g
      = fold_body body (order (protos g)) g"
  proof (rule proto_list.list_for_each_safe_fold [where I = "\<lambda>s. I s \<and> gw_ok s"])
    fix p xs ys s s'
    assume I: "I s \<and> gw_ok s" "il_rep (protos s) 0 (xs @ p # ys)" "body p s = Some (None, s')"
    then have ord: "order (protos s) = xs @ p # ys" by (simp add: il_rep_def)
    then have s': "stepped p s s'" "I s'" using body [of s p] I by auto
    then have "gw_ok s'" by (simp add: stepped_def)
    with s' after [OF _ ord s'(1)] I(1) show "(I s' \<and> gw_ok s') \<and> (\<exists>xs'. il_rep (protos s') 0 (xs' @ ys))"
      by (auto simp: il_rep_def gw_ok_def)
  qed (use g in \<open>simp_all add: gw_ok_def il_rep_order\<close>)
  then have "list_for_each_safe fuel (\<lambda>g. il_next (protos g)) body 0 g
      = fold_body body (order (protos g)) g"
    using run [OF g(1,2), of "[]" "order (protos g)"] g(3)
    by (auto intro: list_for_each_safe_mono [OF _ Suc_leI])
  then show ?thesis using run [OF g(1,2), of "[]" "order (protos g)"] by auto
qed

lemma deliver_stepped:
  assumes "tame_dispatch tabs" "gw_ok g" "a \<in> set (order (protos g))" "mget m g \<noteq> None"
  shows "\<exists>g'. deliver tabs m a g = Some (None, g') \<and> stepped a g g'"
proof -
  obtain p x where p: "pget a g = Some p" and x: "mget m g = Some x"
    using live_order [OF assms(2,3)] assms(4) by auto
  show ?thesis
  proof (cases "disproto_cb (table_of tabs p)")
    case None
    then show ?thesis using p assms(2) by (simp add: deliver_def stepped_same)
  next
    case (Some f)
    have "\<exists>r s'. f m a g = Some (r, s') \<and> same_nodes g s'"
      using assms(1,2,4) p Some unfolding tame_dispatch_def table_of_def by blast
    then obtain r s' where f: "f m a g = Some (r, s')" "same_nodes g s'" by blast
    have s': "gw_ok s'" "a \<in> set (order (protos s'))"
      using f(2) same_nodes_ok [OF f(2) assms(2)] assms(3) by (simp_all add: same_nodes_def)
    from close_proto_stepped [OF assms(1) s'] obtain q g2 where
      c: "close_proto tabs a s' = Some (q, g2)" "stepped a s' g2" by blast
    show ?thesis
      using Some p x f c assms(2) stepped_trans [OF f(2) c(2)] stepped_same [OF f(2) assms(2)]
      by (simp add: deliver_def stepped_same)
  qed
qed

text \<open>One message: the fold of the delivery over the protocols there are, then the message goes.\<close>

definition deliver_round :: "'e tables \<Rightarrow> addr \<Rightarrow> 'e gateway \<Rightarrow> (unit option \<times> 'e gateway) option" where
  "deliver_round tabs m s =
     do { (_, s1) \<leftarrow> fold_body (deliver tabs m) (order (protos s)) s;
          Some (None, s1\<lparr>msgs := il_drop m (msgs s1)\<rparr>) }"

lemma dispatch_body_round:
  assumes "tame_dispatch tabs" "gw_ok g" "m \<in> set (order (msgs g))"
    "length (order (protos g)) < fuel"
  shows "dispatch_body fuel tabs m g = deliver_round tabs m g \<and>
    (\<exists>g'. deliver_round tabs m g = Some (None, g') \<and> gw_ok g' \<and>
       msgs g' = il_drop m (msgs g) \<and> length (order (protos g')) < fuel)"
proof -
  have m: "m \<in> set (order (msgs g)) \<and> mget m g \<noteq> None"
    using assms(2,3) by (auto simp: gw_ok_def il_ok_def mget_def)
  have step: "\<exists>s'. deliver tabs m a s = Some (None, s') \<and> stepped a s s' \<and>
      (m \<in> set (order (msgs s')) \<and> mget m s' \<noteq> None)"
    if s: "m \<in> set (order (msgs s)) \<and> mget m s \<noteq> None" "gw_ok s" "a \<in> set (order (protos s))" for a s
  proof -
    obtain s' where "deliver tabs m a s = Some (None, s')" "stepped a s s'"
      using deliver_stepped [OF assms(1) s(2,3)] s(1) by blast
    then show ?thesis using s(1) stepped_msgs [of a s s'] by (simp add: mget_def)
  qed
  from proto_loop [where I = "\<lambda>s. m \<in> set (order (msgs s)) \<and> mget m s \<noteq> None", OF step m assms(2,4)]
  obtain g1 where g1:
    "list_for_each_safe fuel (\<lambda>g. il_next (protos g)) (deliver tabs m) 0 g = Some (None, g1)"
    "fold_body (deliver tabs m) (order (protos g)) g = Some (None, g1)" "m \<in> set (order (msgs g1))"
    "gw_ok g1" "msgs g1 = msgs g" "length (order (protos g1)) \<le> length (order (protos g))"
    by blast
  have "del_msg m g1 = Some (0, g1\<lparr>msgs := il_drop m (msgs g1)\<rparr>)"
    using g1(3,4) del_msg_live by (auto simp: gw_ok_def)
  then show ?thesis
    using g1 assms(4) by (simp add: dispatch_body_def deliver_round_def gw_ok_def il_ok_drop)
qed

lemma dispatch_msgs_ends:
  assumes "tame_dispatch tabs" "gw_ok g"
    "length (order (protos g)) < fuel" "length (order (msgs g)) < fuel"
  shows "\<exists>g'. dispatch_msgs fuel tabs g = Some g' \<and>
    fold_body (deliver_round tabs) (order (msgs g)) g = Some (None, g') \<and>
    gw_ok g' \<and> order (msgs g') = []"
proof -
  have run: "gw_ok s \<Longrightarrow> order (msgs s) = ys \<Longrightarrow> length (order (protos s)) < fuel \<Longrightarrow>
      fold_body (dispatch_body fuel tabs) ys s = fold_body (deliver_round tabs) ys s \<and>
      (\<exists>s'. fold_body (deliver_round tabs) ys s = Some (None, s') \<and> gw_ok s' \<and> order (msgs s') = [])"
    for ys s
  proof (induction ys arbitrary: s)
    case (Cons y ys)
    obtain s1 where s1: "dispatch_body fuel tabs y s = deliver_round tabs y s"
      "deliver_round tabs y s = Some (None, s1)" "gw_ok s1"
      "msgs s1 = il_drop y (msgs s)" "length (order (protos s1)) < fuel"
      using dispatch_body_round [OF assms(1) Cons.prems(1), of y] Cons.prems(2,3) by auto
    have "order (msgs s1) = ys"
      using s1(4) Cons.prems(1,2) il_drop_order [of "msgs s" "[]" y ys] by (simp add: gw_ok_def)
    from Cons.IH [OF s1(3) this s1(5)] s1 show ?case by simp
  qed simp
  have "list_for_each_safe (Suc (length (order (msgs g)))) (\<lambda>g. il_next (msgs g)) (dispatch_body fuel tabs) 0 g
      = fold_body (dispatch_body fuel tabs) (order (msgs g)) g"
  proof (rule msg_list.list_for_each_safe_fold [where I = "\<lambda>s. gw_ok s \<and> length (order (protos s)) < fuel"])
    fix p xs ys s s'
    assume a: "gw_ok s \<and> length (order (protos s)) < fuel" "il_rep (msgs s) 0 (xs @ p # ys)"
      "dispatch_body fuel tabs p s = Some (None, s')"
    have ord: "order (msgs s) = xs @ p # ys" using a(2) by (simp add: il_rep_def)
    have s': "gw_ok s'" "msgs s' = il_drop p (msgs s)" "length (order (protos s')) < fuel"
      using dispatch_body_round [OF assms(1), of s p fuel] a ord by auto
    then show "(gw_ok s' \<and> length (order (protos s')) < fuel) \<and> (\<exists>xs'. il_rep (msgs s') 0 (xs' @ ys))"
      using a il_drop_order [OF _ ord] by (auto simp: gw_ok_def il_rep_def)
  qed (use assms in \<open>simp_all add: gw_ok_def il_rep_order\<close>)
  then have "list_for_each_safe fuel (\<lambda>g. il_next (msgs g)) (dispatch_body fuel tabs) 0 g
      = fold_body (deliver_round tabs) (order (msgs g)) g"
    using run [OF assms(2) refl assms(3)] assms(4) by (auto intro: list_for_each_safe_mono [OF _ Suc_leI])
  then show ?thesis using run [OF assms(2) refl assms(3)] by (auto simp: dispatch_msgs_def)
qed


section \<open>The manager\<close>

lemma manage_init_same:
  assumes "tame_tables tabs" "gw_ok g" "a \<in> set (order (protos g))"
  shows "\<exists>g'. manage_init pl tabs env a g = Some g' \<and> same_nodes g g'"
proof -
  obtain p where p: "pget a g = Some p" using live_order [OF assms(2,3)] by auto
  show ?thesis
  proof (cases "init_cb (table_of tabs p)")
    case (Some f)
    have t: "tame f" "\<forall>a s. map_option fst (f a s) \<noteq> Some 9"
      using assms(1) Some unfolding tame_tables_def table_of_def by blast+
    have "pget a g \<noteq> None" using p by simp
    then obtain r s' where f: "f a g = Some (r, s')" "same_nodes g s'"
      using tameD [OF t(1) assms(2)] by metis
    then have r: "r \<noteq> 9" using t(2) by force
    obtain p' where p': "pget a s' = Some p'" using same_nodes_pget [OF f(2) p] by metis
    have "same_nodes g (pset a (p'\<lparr>timecount := get_now_ms pl s'\<rparr>) s')"
      using f(2) same_nodes_pset [OF p', of "p'\<lparr>timecount := get_now_ms pl s'\<rparr>"]
        same_nodes_trans by fastforce
    then show ?thesis using Some p f r p' by (auto simp: manage_init_def pupd_def)
  qed (use p in \<open>simp add: manage_init_def\<close>)
qed

lemma manage_change_same:
  assumes "tame_dispatch tabs" "gw_ok g" "a \<in> set (order (protos g))"
    "\<forall>p. pget a g = Some p \<longrightarrow> config p AND LOOP_CFG_RETRY \<noteq> 0"
  shows "\<exists>g'. manage_change tabs env changed is_met a g = Some g' \<and> same_nodes g g'"
  using close_proto_stepped [OF assms(1-3)] live_order [OF assms(2,3)] assms(4)
  by (auto simp: manage_change_def)

lemma manage_timeout_stepped:
  assumes "tame_tables tabs" "gw_ok g" "a \<in> set (order (protos g))"
  shows "\<exists>g'. manage_timeout tabs now a g = Some g' \<and> stepped a g g'"
proof -
  obtain p where p: "pget a g = Some p" using live_order [OF assms(2,3)] by auto
  have t: "tame_dispatch tabs" using assms(1) by (simp add: tame_tables_def)
  show ?thesis
  proof (cases "timeout_cb (table_of tabs p)")
    case (Some f)
    let ?g1 = "pset a (p\<lparr>timecount := now\<rparr>) g"
    have s1: "same_nodes g ?g1" using p by (intro same_nodes_pset) auto
    have "tame f" using assms(1) Some unfolding tame_tables_def table_of_def by blast
    moreover have "pget a ?g1 \<noteq> None" using same_nodes_live [OF s1] p by simp
    ultimately obtain r g2 where f: "f a ?g1 = Some (r, g2)" "same_nodes ?g1 g2" "gw_ok g2"
      using tameD [OF _ same_nodes_ok [OF s1 assms(2)]] by metis
    have s2: "same_nodes g g2" using s1 f(2) same_nodes_trans by blast
    then have "a \<in> set (order (protos g2))" using assms(3) by (simp add: same_nodes_def)
    then obtain q g3 g4 where c: "close_proto tabs a g2 = Some (q, g3)" "stepped a g2 g3"
      "delete_proto tabs a g2 = Some (0, g4)" "stepped a g2 g4"
      using close_proto_stepped [OF t f(3)] delete_proto_gone [OF t f(3)]
      by (auto simp: stepped_def gone_def) blast
    then show ?thesis
      using p Some f assms(2) s2 stepped_trans [OF s2]
      by (auto simp: manage_timeout_def pupd_def intro: stepped_same)
  qed (use p assms(2) in \<open>simp add: manage_timeout_def stepped_same\<close>)
qed

lemma manage_proto_stepped:
  assumes "tame_tables tabs" "gw_ok g" "a \<in> set (order (protos g))"
    "\<forall>p. pget a g = Some p \<longrightarrow> config p AND LOOP_CFG_RETRY \<noteq> 0"
  shows "\<exists>g'. manage_proto pl tabs env changed now a g = Some (None, g') \<and> stepped a g g'"
proof -
  obtain p where p: "pget a g = Some p" using live_order [OF assms(2,3)] by auto
  have t: "tame_dispatch tabs" using assms(1) by (simp add: tame_tables_def)
  obtain g1 where g1: "manage_init pl tabs env a g = Some g1" "same_nodes g g1"
    using manage_init_same [OF assms(1-3)] by blast
  have k1: "gw_ok g1" "a \<in> set (order (protos g1))"
    using same_nodes_ok [OF g1(2) assms(2)] g1(2) assms(3) by (simp_all add: same_nodes_def)
  have "\<forall>q. pget a g1 = Some q \<longrightarrow> config q AND LOOP_CFG_RETRY \<noteq> 0"
    using same_nodes_pget [OF g1(2) p] assms(4) p by (metis option.inject)
  then obtain g2 where g2: "manage_change tabs env changed (met env p) a g1 = Some g2" "same_nodes g1 g2"
    using manage_change_same [OF t k1] by blast
  have k2: "gw_ok g2" "a \<in> set (order (protos g2))"
    using same_nodes_ok [OF g2(2) k1(1)] g2(2) k1(2) by (simp_all add: same_nodes_def)
  obtain g3 where g3: "manage_timeout tabs now a g2 = Some g3" "stepped a g2 g3"
    using manage_timeout_stepped [OF assms(1) k2] by blast
  show ?thesis
    using p g1 g2 g3 stepped_trans [OF same_nodes_trans [OF g1(2) g2(2)] g3(2)]
    by (simp add: manage_proto_def)
qed

definition all_retry :: "'e gateway \<Rightarrow> bool" where
  "all_retry g = (\<forall>a \<in> set (order (protos g)). \<forall>n c k. ident a g = Some (n, c, k) \<longrightarrow>
     c AND LOOP_CFG_RETRY \<noteq> 0)"


section \<open>Single protocols\<close>

text \<open>A protocol whose requirements the environment does not meet is left alone while it is
  closed, whatever its table: the manager neither starts it nor times it out.\<close>

theorem unmet_left_alone:
  assumes "pget a g = Some p" "\<not> met env p" "active p = 0"
  shows "manage_proto pl tabs env changed now a g = Some (None, g)"
  using assms by (simp add: manage_proto_def manage_init_def manage_change_def manage_timeout_def)

lemma delete_frees: "delete_proto tabs a g = Some (r, g') \<Longrightarrow> a \<noteq> 0 \<Longrightarrow> pget a g' = None"
  by (auto simp: delete_proto_def pget_def il_free_def Let_def split: if_splits bind_splits option.splits)

lemma manage_rest_freed: "pget a g = None \<Longrightarrow>
    (do { g2 \<leftarrow> manage_change tabs env changed b a g; manage_timeout tabs now a g2 }) = None"
  by (simp add: manage_change_def manage_timeout_def)

lemma init_freed:
  assumes "a \<noteq> 0" "pget a g = Some p" "met env p" "active p = 0" "init_cb (table_of tabs p) = Some f" "f a g = Some (9, g1)"
  shows "manage_proto pl tabs env changed now a g = None"
proof -
  have i: "manage_init pl tabs env a g = map_option snd (delete_proto tabs a g1)"
    using assms(2-6) by (simp add: manage_init_def)
  show ?thesis
  proof (cases "delete_proto tabs a g1")
    case (Some rg)
    then have "pget a (snd rg) = None" using delete_frees [of tabs a g1 "fst rg" "snd rg"] assms(1) by simp
    with Some i assms(2) manage_rest_freed [of a "snd rg"] show ?thesis
      by (simp add: manage_proto_def manage_change_def manage_timeout_def)
  qed (simp add: manage_proto_def i)
qed

text \<open>The manager reads a protocol it has just freed in two cases: an \<open>init_cb\<close> that asks for its
  deletion by returning 9, and an active protocol without \<open>LOOP_CFG_RETRY\<close> whose requirements
  are lost at a change of the environment.\<close>

theorem manager_uses_freed:
  assumes "a \<noteq> 0" "pget a g = Some p"
    and "met env p \<and> active p = 0 \<and> (\<exists>f g1. init_cb (table_of tabs p) = Some f \<and> f a g = Some (9, g1)) \<or>
      changed \<and> \<not> met env p \<and> active p \<noteq> 0 \<and> config p AND LOOP_CFG_RETRY = 0"
  shows "manage_proto pl tabs env changed now a g = None"
proof -
  consider (init) "met env p" "active p = 0" "\<exists>f g1. init_cb (table_of tabs p) = Some f \<and> f a g = Some (9, g1)"
    | (lost) "changed" "\<not> met env p" "active p \<noteq> 0" "config p AND LOOP_CFG_RETRY = 0"
    using assms(3) by blast
  then show ?thesis
  proof cases
    case init
    then show ?thesis using init_freed [OF assms(1,2)] by blast
  next
    case lost
    have c: "manage_change tabs env changed (met env p) a g = map_option snd (delete_proto tabs a g)"
      using lost assms(2) by (simp add: manage_change_def close_proto_def)
    show ?thesis
    proof (cases "delete_proto tabs a g")
      case (Some rg)
      then have "pget a (snd rg) = None" using delete_frees [of tabs a g "fst rg" "snd rg"] assms(1) by simp
      with Some c lost assms(2) show ?thesis
        by (simp add: manage_proto_def manage_init_def manage_timeout_def)
    qed (use lost c assms(2) in \<open>simp add: manage_proto_def manage_init_def\<close>)
  qed
qed

lemma now_ms_bound: "unat (get_now_ms pl g) < 2 ^ 54"
proof -
  have "unat (now_us pl (ext g)) < 2 ^ 54 * 2 ^ 10" using unsigned_less [of "now_us pl (ext g)"] by simp
  then have "unat (now_us pl (ext g)) div 2 ^ 10 < 2 ^ 54" by (rule less_mult_imp_div_less)
  then show ?thesis
    unfolding get_now_ms_def get_now_us_def unat_drop_bit_eq by (simp only: drop_bit_eq_div)
qed

lemma pget_pset [simp]: "pget b (pset a p g) = (if b = a then Some p else pget b g)"
  by (simp add: pget_def pset_def)

lemma pget_ext [simp]: "pget b (g\<lparr>ext := e\<rparr>) = pget b g"
  by (simp add: pget_def)

lemma ext_pset [simp]: "ext (pset a p g) = ext g"
  by (simp add: pset_def)

lemma pset_pset [simp]: "pset a p (pset a q g) = pset a p g"
  by (simp add: pset_def)

lemma late_wraps:
  fixes x y :: "64 word"
  assumes "x < y" "unat y < 2 ^ 54" "z \<le> 2 ^ 63"
  shows "z \<le> x - y"
proof -
  have "unat (x - y) = unat x + 2 ^ 64 - unat y"
    using assms(1) by (subst unat_sub_if') (simp add: word_less_nat_alt)
  moreover have "unat z \<le> 2 ^ 63" using assms(3) by (simp add: word_le_nat_alt)
  ultimately have "unat z \<le> unat (x - y)" using assms(2) by simp
  then show ?thesis by (simp add: word_le_nat_alt)
qed

text \<open>The clock of a manager run is read before the callbacks: a protocol whose \<open>init_cb\<close> succeeds
  and takes long enough for the millisecond clock to move on has its timeout callback called in
  the same run, since the elapsed time wraps around, whatever its timeout up to \<open>2 ^ 63\<close>.\<close>

theorem fresh_init_times_out:
  assumes p: "pget a g = Some p" "met env p" "active p = 0"
    and i: "init_cb (table_of tabs p) = Some f" "f a g = Some (0, g1)"
    and p1: "pget a g1 = Some p1" "callbacks p1 = callbacks p" "active p1 \<noteq> 0" "timeout p1 \<le> 2 ^ 63"
    and t: "timeout_cb (table_of tabs p) = Some h"
    and late: "now < get_now_ms pl g1"
  shows "manage_proto pl tabs env changed now a g =
    do { (r, g2) \<leftarrow> h a (pset a (p1\<lparr>timecount := now\<rparr>) g1);
         g3 \<leftarrow> (if r = 0 then Some g2
               else if r = 9 then map_option snd (delete_proto tabs a g2)
               else map_option snd (close_proto tabs a g2));
         Some (None, g3) }"
proof -
  have w: "timeout p1 \<le> now - get_now_ms pl g1"
    using late_wraps [OF late now_ms_bound p1(4)] .
  have "manage_init pl tabs env a g = Some (pset a (p1\<lparr>timecount := get_now_ms pl g1\<rparr>) g1)"
    using p i p1(1) by (simp add: manage_init_def pupd_def)
  with p w t p1 show ?thesis
    by (simp add: manage_proto_def manage_change_def manage_timeout_def pupd_def table_of_def
        split: Option.bind_split)
qed

section \<open>Waiting\<close>

lemma fold_regist:
  assumes "\<forall>a \<in> set ys. \<exists>p. pget a g = Some p \<and> pfd p < 1024"
  shows "fold_body regist_body ys ((fds, m), g) =
    Some (None, (fds @ [pfd (the (pget a g)). a \<leftarrow> ys, pfd (the (pget a g)) \<ge> 0 \<and> active (the (pget a g)) = 1],
       fold max [pfd (the (pget a g)). a \<leftarrow> ys, pfd (the (pget a g)) \<ge> 0 \<and> active (the (pget a g)) = 1] m), g)"
  using assms
proof (induction ys arbitrary: fds m)
  case (Cons a ys)
  then obtain p where "pget a g = Some p" "pfd p < 1024" by auto
  with Cons show ?case by (simp add: regist_body_def max.commute)
qed simp

interpretation paired_list: intrusive_list
  "\<lambda>(s :: 'x \<times> 'e gateway) h xs. il_rep (protos (snd s)) h xs" "\<lambda>s. il_next (protos (snd s))"
  "\<lambda>a s. (fst s, (snd s)\<lparr>protos := il_drop a (protos (snd s))\<rparr>)"
  by unfold_locales
    (use node_list.rep_distinct node_list.rep_first node_list.rep_next node_list.rep_del in auto)

lemma il_rep_skip: "il_rep l h (xs @ p # ys) \<Longrightarrow> \<exists>xs'. il_rep l h (xs' @ ys)"
  by (rule exI [of _ "xs @ [p]"]) simp

text \<open>\<open>_regist_proto\<close> waits for the descriptors of the open protocols, in registration order, and
  hands \<open>select\<close> the largest of them.\<close>

theorem regist_proto_spec:
  assumes "halo_up g" "gw_ok g" "length (order (protos g)) < fuel"
    "\<forall>a \<in> set (order (protos g)). \<forall>p. pget a g = Some p \<longrightarrow> pfd p < 1024"
  shows "\<exists>fds. regist_proto fuel g = Some (fds, fold max fds (-1)) \<and>
    fds = [pfd (the (pget a g)). a \<leftarrow> order (protos g),
             pfd (the (pget a g)) \<ge> 0 \<and> active (the (pget a g)) = 1]"
proof -
  have "list_for_each_safe (Suc (length (order (protos g)))) (\<lambda>s. il_next (protos (snd s))) regist_body 0 (([], -1), g)
      = fold_body regist_body (order (protos g)) (([], -1), g)"
    by (rule paired_list.list_for_each_safe_fold [where I = "\<lambda>_. True"])
      (use assms(2) in \<open>auto simp: gw_ok_def il_rep_order regist_body_def split: bind_splits if_splits
        dest: il_rep_skip\<close>)
  moreover have live: "\<forall>a \<in> set (order (protos g)). \<exists>p. pget a g = Some p \<and> pfd p < 1024"
    using live_order [OF assms(2)] assms(4) by fastforce
  ultimately have "list_for_each_safe fuel (\<lambda>s. il_next (protos (snd s))) regist_body 0 (([], -1), g)
      = fold_body regist_body (order (protos g)) (([], -1), g)"
    using assms(3) by (auto simp: fold_regist intro: list_for_each_safe_mono [OF _ Suc_leI])
  with fold_regist [OF live, of "[]" "-1"] assms(1)
  show ?thesis by (simp add: regist_proto_def)
qed

section \<open>Examples\<close>

definition touch :: "(st_proto \<Rightarrow> st_proto) \<Rightarrow> int \<Rightarrow> sim cb" where
  "touch f r a g = do { g1 \<leftarrow> pupd a f g; Some (r, g1\<lparr>ext := (ext g1)\<lparr>sim_clock := sim_clock (ext g1) + 1024\<rparr>\<rparr>) }"

definition ex_tables :: "int \<Rightarrow> sim tables" where
  "ex_tables r k = \<lparr>init_cb = Some (touch (\<lambda>p. p\<lparr>active := 1, pfd := 5\<rparr>) r), recv_cb = Some (touch id 0),
     reply_cb = None, active_send_cb = None,
     disproto_cb = Some (\<lambda>m. touch (\<lambda>p. p\<lparr>timeout := timeout p + 1\<rparr>) 0),
     timeout_cb = Some (touch (\<lambda>p. p\<lparr>timeout := 7\<rparr>) 0),
     close_cb = Some (touch (\<lambda>p. p\<lparr>pfd := -1\<rparr>) 0)\<rparr>"

lemma touch_tame:
  assumes "\<And>p. pname (f p) = pname p \<and> config (f p) = config p \<and> callbacks (f p) = callbacks p"
  shows "tame (touch f r)"
  unfolding tame_def
proof (intro allI impI)
  fix a and s :: "sim gateway"
  assume "gw_ok s \<and> pget a s \<noteq> None"
  then obtain p where "pget a s = Some p" by auto
  with same_nodes_pset [OF this, of "f p"] assms
  show "\<exists>q s'. touch f r a s = Some (q, s') \<and> same_nodes s s'"
    by (auto simp: touch_def pupd_def same_nodes_def ident_def pget_def)
qed

lemma ex_tables_tame: "tame_tables (ex_tables 0)"
  using touch_tame [of _ 0]
  by (auto simp: tame_tables_def tame_dispatch_def ex_tables_def touch_def pupd_def tame_def split: bind_splits)

lemma ex_gw_proto: "pget 1 ex_gw = Some (ex_proto [0x61] K_TCP_CLI)"
  by (simp add: pget_def ex_gw_def add_msg_def bget_def bput_def ex_msg_def il_add_def
      add_proto_def sim_gateway_def no_nodes_def ex_proto_def)



lemma unmet_left_alone_witness:
  "manage_proto sim_platform (ex_tables 0) 0 True 9 1
     (pset 1 ((ex_proto [0x61] K_TCP_CLI)\<lparr>config := LOOP_CFG_HOPE\<rparr>) ex_gw) =
   Some (None, pset 1 ((ex_proto [0x61] K_TCP_CLI)\<lparr>config := LOOP_CFG_HOPE\<rparr>) ex_gw)"
  by (rule unmet_left_alone [where p = "(ex_proto [0x61] K_TCP_CLI)\<lparr>config := LOOP_CFG_HOPE\<rparr>"])
    (simp_all add: met_def needs_def ex_proto_def LOOP_CFG_HOPE_def LOOP_CFG_RETRY_def)

lemma manager_uses_freed_witness:
  "manage_proto sim_platform (ex_tables 9) 0 False 9 1 ex_gw = None"
  using manager_uses_freed [OF _ ex_gw_proto, of 0 "ex_tables 9" False sim_platform 9]
  by (simp add: ex_tables_def table_of_def touch_def pupd_def ex_gw_proto ex_proto_def met_def
      needs_def LOOP_CFG_RETRY_def del: One_nat_def)

lemma fresh_init_times_out_witness:
  "map_option (\<lambda>(_, g). map_option timeout (pget 1 g))
     (manage_proto sim_platform (ex_tables 0) 0 False (get_now_ms sim_platform ex_gw) 1 ex_gw) = Some (Some 7)"
proof -
  let ?p = "ex_proto [0x61] K_TCP_CLI"
  let ?tick = "\<lambda>g. g\<lparr>ext := (ext g)\<lparr>sim_clock := sim_clock (ext g) + 1024\<rparr>\<rparr>"
  let ?g1 = "?tick (pset 1 (?p\<lparr>active := 1, pfd := 5\<rparr>) ex_gw)"
  have c: "sim_clock (ext ex_gw) = 5000000"
    by (simp add: ex_gw_def add_msg_def bget_def bput_def ex_msg_def add_proto_def sim_gateway_def sim_start_def)
  have "(1024 :: 64 word) \<le> 2 ^ 63" by code_simp
  then have tmo: "timeout (?p\<lparr>active := 1, pfd := 5\<rparr>) \<le> 2 ^ 63"
    unfolding ex_proto_def by (simp only: st_proto.simps)
  have ck: "sim_clock (ext ?g1) = 5001024" using c by simp
  have "drop_bit 10 (5000000 :: 64 word) < drop_bit 10 5001024" by code_simp
  then have late: "get_now_ms sim_platform ex_gw < get_now_ms sim_platform ?g1"
    unfolding get_now_ms_def get_now_us_def sim_platform_def
    by (simp only: c ck platform.simps)
  have "manage_proto sim_platform (ex_tables 0) 0 False (get_now_ms sim_platform ex_gw) 1 ex_gw =
    do { (r, g2) \<leftarrow> touch (\<lambda>p. p\<lparr>timeout := 7\<rparr>) 0 1
           (pset 1 (?p\<lparr>active := 1, pfd := 5, timecount := get_now_ms sim_platform ex_gw\<rparr>) ?g1);
         g3 \<leftarrow> (if r = 0 then Some g2
               else if r = 9 then map_option snd (delete_proto (ex_tables 0) 1 g2)
               else map_option snd (close_proto (ex_tables 0) 1 g2));
         Some (None, g3) }"
    by (rule fresh_init_times_out [OF ex_gw_proto _ _ _ _ _ _ _ tmo _ late,
          where f = "touch (\<lambda>p. p\<lparr>active := 1, pfd := 5\<rparr>) 0" and h = "touch (\<lambda>p. p\<lparr>timeout := 7\<rparr>) 0"])
      (simp_all add: met_def needs_def ex_proto_def LOOP_CFG_RETRY_def ex_tables_def table_of_def
          touch_def pupd_def ex_gw_proto del: One_nat_def)
  then show ?thesis by (simp add: touch_def pupd_def)
qed

lemma regist_proto_spec_witness: "regist_proto 2 (pset 1 ((ex_proto [0x61] K_TCP_CLI)\<lparr>active := 1, pfd := 5\<rparr>) ex_gw) = Some ([5], 5)"
proof -
  let ?g = "pset 1 ((ex_proto [0x61] K_TCP_CLI)\<lparr>active := 1, pfd := 5\<rparr>) ex_gw"
  have "same_nodes ex_gw ?g" by (rule same_nodes_pset [OF ex_gw_proto]) simp_all
  then have "gw_ok ?g" using ex_gw_ok same_nodes_ok by blast
  moreover have "halo_up ?g" "order (protos ?g) = [1]"
    using ex_gw_queue(2) by (simp_all add: pset_def)
      (simp add: ex_gw_def add_msg_def bget_def bput_def ex_msg_def add_proto_def sim_gateway_def)
  ultimately show ?thesis using regist_proto_spec [of ?g 2] by auto
qed

end
