(* ===== verification/Media.thy ===== *)
theory Media
  imports Halo_Types Halo_Text
begin

text \<open>
  Opening the music directory of the main disk, \<open>get_items\<close> of \<open>app/halo_http_mlist.c\<close>, and the call of
  the device list script, \<open>lua_call_device\<close> of \<open>app/common.c\<close>.
\<close>

section \<open>Arrays on the stack\<close>

text \<open>A byte of an array that was not written yet is None, and reading it is undefined.\<close>

type_synonym stack = "byte option list"

fun stack_text :: "stack \<Rightarrow> byte list option" where
  "stack_text [] = None"
| "stack_text (None # s) = None"
| "stack_text (Some c # s) = (if c = 0 then Some [] else map_option (Cons c) (stack_text s))"

definition stack_put :: "stack \<Rightarrow> byte list \<Rightarrow> stack option" where
  "stack_put s b = (if length b \<le> length s then Some (map Some b @ drop (length b) s) else None)"

definition config_text :: "'e platform \<Rightarrow> cfg_key \<Rightarrow> stack \<Rightarrow> 'e gateway \<Rightarrow> stack option" where
  "config_text pl key s g =
     (case get_config_mem pl key (ext g) of
        None \<Rightarrow> Some s
      | Some b \<Rightarrow> stack_put s (take (cfg_max_len pl) b))"

section \<open>The music directory\<close>

definition play_path :: "'e platform \<Rightarrow> int \<Rightarrow> byte list" where
  "play_path pl disk =
     (if disk = disk_local pl then bytes ''/mnt/udisk''
      else if disk = disk_card pl then bytes ''/mnt/sdcard''
      else if disk = disk_uhost pl then bytes ''/mnt/external''
      else [])"

text \<open>One directory that the list leaves out: its name is read and printed behind the path into
  \<open>dir_tmp[50]\<close>. The six of them share the array \<open>dir_filter\<close>.\<close>

definition filter_dir :: "'e platform \<Rightarrow> byte list \<Rightarrow> cfg_key \<Rightarrow> stack \<Rightarrow> 'e gateway \<Rightarrow> (stack \<times> 'e gateway) option" where
  "filter_dir pl path key dir g =
     do { d \<leftarrow> config_text pl key dir g;
          t \<leftarrow> stack_text d;
          let full = path @ [0x2f] @ t;
          _ \<leftarrow> stack_put (replicate 50 None) (full @ [0]);
          Some (d, snd (call (media_dir_filter pl (mlist_fd g) full) g)) }"

fun filter_dirs :: "'e platform \<Rightarrow> byte list \<Rightarrow> cfg_key list \<Rightarrow> stack \<Rightarrow> 'e gateway \<Rightarrow> 'e gateway option" where
  "filter_dirs pl path [] dir g = Some g"
| "filter_dirs pl path (k # ks) dir g =
     do { (d, g1) \<leftarrow> filter_dir pl path k dir g; filter_dirs pl path ks d g1 }"

definition hidden_dirs :: "cfg_key list" where
  "hidden_dirs = [CFG_SIFANGYUEKU_PATH, CFG_LANMANZHIYU_PATH, CFG_WENXINSHIKE_PATH, CFG_JIZHIHAIFAN_PATH,
     CFG_JINGMISHIGUANG_PATH, CFG_HUIYIJINGDIAN_PATH]"

definition get_items :: "'e platform \<Rightarrow> 'e gateway \<Rightarrow> (int \<times> 'e gateway) option" where
  "get_items pl g =
     (if get_now_us pl g - items_now g < 500000 then Some (-1, g)
      else do {
        let g1 = g\<lparr>items_now := get_now_us pl g\<rparr>;
        let g2 = (if main_disk g1 < 0
                  then g1\<lparr>main_disk := (case get_config pl CFG_MAIN_DISK (ext g1) of None \<Rightarrow> main_disk g1 | Some d \<Rightarrow> d)\<rparr>
                  else g1);
        let path = play_path pl (main_disk g2);
        fb \<leftarrow> config_text pl CFG_APP_SUPPORT_EXT_MUSIC (replicate 100 None) g2;
        let g3 = (if mlist_fd g2 \<noteq> 0 then (snd (call (media_dir_close pl (mlist_fd g2)) g2))\<lparr>mlist_fd := 0\<rparr> else g2);
        ft \<leftarrow> stack_text fb;
        let (fd, g4) = call (media_dir_open pl path ft) g3;
        let g5 = g4\<lparr>mlist_fd := fd\<rparr>;
        if fd = 0 then Some (-1, g5)
        else do { g6 \<leftarrow> filter_dirs pl path hidden_dirs (replicate 50 None) g5; Some (0, g6) } })"

definition lua_call_device :: "'e platform \<Rightarrow> 'e gateway \<Rightarrow> 'e gateway" where
  "lua_call_device pl g = snd (call (lua_fun pl (bytes ''hope_http_get_device'') []) g)"

section \<open>What is opened\<close>

text \<open>The store holds the extensions and the names of the hidden directories, and the media service leaves
  the store alone.\<close>

definition names_stored :: "'e platform \<Rightarrow> byte list \<Rightarrow> (cfg_key \<Rightarrow> byte list) \<Rightarrow> 'e \<Rightarrow> bool" where
  "names_stored pl exts name e =
     (get_config_mem pl CFG_APP_SUPPORT_EXT_MUSIC e = Some (exts @ [0]) \<and> 0 \<notin> set exts \<and> length exts < 100 \<and>
      length exts < cfg_max_len pl \<and>
      (\<forall>k \<in> set hidden_dirs. get_config_mem pl k e = Some (name k @ [0]) \<and> 0 \<notin> set (name k) \<and> length (name k) < 50 \<and>
         length (name k) < cfg_max_len pl))"

definition media_laws :: "'e platform \<Rightarrow> bool" where
  "media_laws pl =
     ((\<forall>k f d e. get_config_mem pl k (snd (media_dir_filter pl f d e)) = get_config_mem pl k e) \<and>
      (\<forall>k p x e. get_config_mem pl k (snd (media_dir_open pl p x e)) = get_config_mem pl k e) \<and>
      (\<forall>k f e. get_config_mem pl k (snd (media_dir_close pl f e)) = get_config_mem pl k e))"

lemma stack_text_put: "0 \<notin> set t \<Longrightarrow> stack_text (map Some (t @ [0]) @ s) = Some t"
  by (induction t) auto

lemma config_text_stored:
  assumes "get_config_mem pl k (ext g) = Some (t @ [0])" "0 \<notin> set t" "length t < length s" "length t < cfg_max_len pl"
  shows "\<exists>s'. config_text pl k s g = Some s' \<and> stack_text s' = Some t \<and> length s' = length s"
proof -
  have "stack_text (map Some t @ Some 0 # drop (Suc (length t)) s) = Some t"
    using stack_text_put [OF assms(2), of "drop (Suc (length t)) s"] by simp
  then show ?thesis using assms by (simp add: config_text_def stack_put_def)
qed

text \<open>A directory is hidden when its path fits the array.\<close>

definition hide :: "'e platform \<Rightarrow> int \<Rightarrow> byte list \<Rightarrow> byte list \<Rightarrow> 'e \<Rightarrow> 'e" where
  "hide pl fd path d e = snd (media_dir_filter pl fd (path @ [0x2f] @ d) e)"

lemma filter_dirs_run:
  assumes "media_laws pl" "length s = 50"
    and "\<forall>k \<in> set ks. get_config_mem pl k (ext g) = Some (name k @ [0]) \<and> 0 \<notin> set (name k) \<and> length (name k) < 50 \<and>
         length (name k) < cfg_max_len pl"
  shows "filter_dirs pl path ks s g =
    (if \<forall>k \<in> set ks. length path + length (name k) \<le> 48
     then Some (g\<lparr>ext := fold (\<lambda>k. hide pl (mlist_fd g) path (name k)) ks (ext g)\<rparr>) else None)"
  using assms(2,3)
proof (induction ks arbitrary: s g)
  case (Cons k ks)
  obtain s' where s': "config_text pl k s g = Some s'" "stack_text s' = Some (name k)" "length s' = 50"
    using config_text_stored [of pl k g "name k" s] Cons.prems by auto
  let ?g1 = "g\<lparr>ext := hide pl (mlist_fd g) path (name k) (ext g)\<rparr>"
  show ?case
  proof (cases "length path + length (name k) \<le> 48")
    case True
    then have step: "filter_dir pl path k s g = Some (s', ?g1)"
      using s' by (simp add: filter_dir_def stack_put_def call_simp hide_def)
    have "filter_dirs pl path ks s' ?g1 =
      (if \<forall>k \<in> set ks. length path + length (name k) \<le> 48
       then Some (?g1\<lparr>ext := fold (\<lambda>k. hide pl (mlist_fd ?g1) path (name k)) ks (ext ?g1)\<rparr>) else None)"
      using Cons.prems assms(1) by (intro Cons.IH s'(3)) (simp add: hide_def media_laws_def)
    then show ?thesis using step True by simp
  next
    case False
    then have "filter_dir pl path k s g = None" using s' by (simp add: filter_dir_def stack_put_def)
    then show ?thesis using False by simp
  qed
qed simp

text \<open>Opening the music directory: the disk that is configured is opened with the stored extensions and
  the six directories of the store are hidden, in their order; a second request within half a second
  is refused. A name that makes the path longer than 48 characters writes behind its array.\<close>

theorem get_items_opens:
  assumes "media_laws pl" "names_stored pl exts name (ext g)" "500000 \<le> get_now_us pl g - items_now g"
    and "0 \<le> main_disk g" "mlist_fd g = 0" "path = play_path pl (main_disk g)"
    and "media_dir_open pl path exts (ext g) = (fd, e)" "fd \<noteq> 0"
  shows "get_items pl g =
    (if \<forall>k \<in> set hidden_dirs. length path + length (name k) \<le> 48
     then Some (0, g\<lparr>items_now := get_now_us pl g, mlist_fd := fd,
       ext := fold (\<lambda>k. hide pl fd path (name k)) hidden_dirs e\<rparr>) else None) \<and>
    (\<forall>g'. get_now_us pl g' - items_now g' < 500000 \<longrightarrow> get_items pl g' = Some (-1, g'))"
proof -
  let ?g1 = "g\<lparr>items_now := get_now_us pl g\<rparr>"
  let ?g5 = "?g1\<lparr>ext := e, mlist_fd := fd\<rparr>"
  obtain fb where fb: "config_text pl CFG_APP_SUPPORT_EXT_MUSIC (replicate 100 None) ?g1 = Some fb" "stack_text fb = Some exts"
    using config_text_stored [of pl CFG_APP_SUPPORT_EXT_MUSIC ?g1 exts "replicate 100 None"] assms(2)
    by (auto simp: names_stored_def)
  have e: "get_config_mem pl k e = get_config_mem pl k (ext g)" for k
    using assms(1,7) unfolding media_laws_def by (metis snd_conv)
  have "filter_dirs pl path hidden_dirs (replicate 50 None) ?g5 =
    (if \<forall>k \<in> set hidden_dirs. length path + length (name k) \<le> 48
     then Some (?g5\<lparr>ext := fold (\<lambda>k. hide pl (mlist_fd ?g5) path (name k)) hidden_dirs (ext ?g5)\<rparr>) else None)"
    using assms(1,2) e by (intro filter_dirs_run) (simp_all add: names_stored_def)
  moreover have "\<not> get_now_us pl g - items_now g < 500000" using assms(3) by simp
  ultimately have "get_items pl g =
    (if \<forall>k \<in> set hidden_dirs. length path + length (name k) \<le> 48
     then Some (0, g\<lparr>items_now := get_now_us pl g, mlist_fd := fd,
       ext := fold (\<lambda>k. hide pl fd path (name k)) hidden_dirs e\<rparr>) else None)"
    using assms(4-8) fb by (simp add: get_items_def Let_def call_simp)
  then show ?thesis by (simp add: get_items_def)
qed

lemma get_items_opens_witness:
  "get_items (sim_platform\<lparr>media_dir_filter := \<lambda>_ d e. (0, e\<lparr>sim_sent := sim_sent e @ [d]\<rparr>)\<rparr>)
     (sim_gateway\<lparr>main_disk := 1, ext := sim_start\<lparr>sim_mem := \<lambda>_. Some (bytes ''ab'' @ [0])\<rparr>\<rparr>) =
   Some (0, sim_gateway\<lparr>main_disk := 1, items_now := 5000000, mlist_fd := 3,
     ext := sim_start\<lparr>sim_mem := \<lambda>_. Some (bytes ''ab'' @ [0]), sim_sent := replicate 6 (bytes ''/mnt/sdcard/ab'')\<rparr>\<rparr>)"
proof -
  let ?pl = "sim_platform\<lparr>media_dir_filter := \<lambda>_ d e. (0, e\<lparr>sim_sent := sim_sent e @ [d]\<rparr>)\<rparr>"
  let ?e = "sim_start\<lparr>sim_mem := \<lambda>_. Some (bytes ''ab'' @ [0])\<rparr>"
  let ?g = "sim_gateway\<lparr>main_disk := 1, ext := ?e\<rparr>"
  have laws: "media_laws ?pl" by (simp add: media_laws_def sim_platform_def)
  have names: "names_stored ?pl (bytes ''ab'') (\<lambda>_. bytes ''ab'') (ext ?g)"
    by (simp add: names_stored_def sim_platform_def bytes_def)
  have path: "play_path ?pl (main_disk ?g) = bytes ''/mnt/sdcard''" by (simp add: play_path_def sim_platform_def)
  have now: "get_now_us ?pl ?g - items_now ?g = 5000000" "get_now_us ?pl ?g = 5000000"
    by (simp_all add: get_now_us_def sim_platform_def sim_gateway_def sim_start_def)
  have six: "fold (\<lambda>k. hide ?pl 3 (bytes ''/mnt/sdcard'') (bytes ''ab'')) hidden_dirs ?e
      = ?e\<lparr>sim_sent := replicate 6 (bytes ''/mnt/sdcard/ab'')\<rparr>"
    by (simp add: hide_def hidden_dirs_def sim_start_def bytes_def numeral_eq_Suc)
  have "500000 \<le> get_now_us ?pl ?g - items_now ?g" unfolding now(1) by simp
  from get_items_opens [OF laws names this _ _ refl, of 3 ?e] show ?thesis
    unfolding path now six by (simp add: sim_platform_def sim_gateway_def bytes_def)
qed

end
