(* ===== verification/Tcp_Client.thy ===== *)
theory Tcp_Client
  imports Cli_Dispatch Main_Loop Media
begin

text \<open>
  The callbacks of the cloud link, from \<open>app/tcp_client.c\<close>: connecting and identifying, receiving,
  answering, reporting, forwarding queued messages and closing, and the protocol that
  \<open>add_tcp_cli\<close> registers. A callback takes the protocol and the gateway and returns both.
\<close>

section \<open>Opening and closing\<close>

fun try_addrs :: "nat \<Rightarrow> 'e platform \<Rightarrow> byte list list \<Rightarrow> st_proto \<Rightarrow> 'e gateway \<Rightarrow>
    (bool \<times> st_proto \<times> 'e gateway) option" where
  "try_addrs fuel pl [] pro g = Some (False, pro, g)"
| "try_addrs fuel pl (addr # addrs) pro g =
     (let (fd, g1) = call (sock_open pl True) g; pro1 = pro\<lparr>pfd := fd\<rparr> in
      if fd < 0 then try_addrs fuel pl addrs pro1 g1
      else do {
        (r, g2) \<leftarrow> tcp_connect fuel pl fd addr (port (client g1)) 0 g1;
        if r \<ge> 0 then Some (True, pro1, g2)
        else try_addrs fuel pl addrs (pro1\<lparr>pfd := -1\<rparr>) (snd (call (sock_close pl fd) g2)) })"

definition cli_init_fail :: "'e platform \<Rightarrow> 'e pcb" where
  "cli_init_fail pl pro g =
     (let g1 = (if pfd pro \<ge> 0 then snd (call (sock_close pl (pfd pro)) g) else g)
      in Some (-1, pro\<lparr>pfd := -1, active := 0\<rparr>, g1))"

definition tcp_cli_init :: "nat \<Rightarrow> 'e platform \<Rightarrow> 'e pcb" where
  "tcp_cli_init fuel pl pro g =
     (case sock_addrs pl (host (client g)) (ext g) of
        None \<Rightarrow> cli_init_fail pl pro g
      | Some addrs \<Rightarrow> do {
          (ok, pro1, g1) \<leftarrow> try_addrs fuel pl addrs pro g;
          if \<not> ok then cli_init_fail pl pro1 g1
          else do {
            let pro2 = pro1\<lparr>active := 1\<rparr>;
            let th = client g1;
            let g2 = g1\<lparr>client := th\<lparr>head := (head th)\<lparr>snd_id := take 10 (h_ref_hex g1)\<rparr>\<rparr>\<rparr>;
            (_, g3) \<leftarrow> identify fuel pl pro2 g2;
            (_, g4) \<leftarrow> get_items pl g3;
            Some (0, pro2, lua_call_device pl g4) } })"

definition tcp_cli_close :: "'e platform \<Rightarrow> 'e pcb" where
  "tcp_cli_close pl pro g =
     (if pfd pro \<ge> 0
      then do {
        let g1 = snd (call (sock_close pl (pfd pro)) g);
        rb \<leftarrow> wipe (recv_buf pro);
        Some (0, pro\<lparr>active := 0, pfd := -1, recv_buf := rb\<lparr>blen := 0\<rparr>\<rparr>, g1) }
      else Some (-1, pro, g))"

section \<open>Receiving and sending\<close>

definition cli_dispatch_all :: "'e platform \<Rightarrow> 'e pcb" where
  "cli_dispatch_all pl pro g =
     do { (_, pro1, g1) \<leftarrow> cli_dispatch pl pro g;
          rb \<leftarrow> wipe (recv_buf pro1);
          Some (0, pro1\<lparr>recv_buf := rb\<lparr>blen := 0\<rparr>\<rparr>, g1) }"

definition tcp_cli_recv :: "'e platform \<Rightarrow> 'e pcb" where
  "tcp_cli_recv pl pro g =
     (let rb = recv_buf pro;
          (d, g1) = call (sock_recv pl (pfd pro) (nat (max_len rb))) g
      in case d of
           Some (b # bs) \<Rightarrow> do {
             _ \<leftarrow> (if blen rb < 0 then None else Some ());
             p1 \<leftarrow> bput (payload rb) (nat (blen rb)) (b # bs);
             let n = blen rb + int (length (b # bs));
             p2 \<leftarrow> wr p1 (nat n) 0;
             (_, pro1, g2) \<leftarrow> cli_dispatch_all pl (pro\<lparr>recv_buf := rb\<lparr>payload := p2, blen := n\<rparr>\<rparr>) g1;
             Some (0, pro1, g2) }
         | _ \<Rightarrow> Some (if errno_again pl (ext g1) then 0 else -1, pro, g1))"

definition tcp_cli_reply :: "'e platform \<Rightarrow> 'e pcb" where
  "tcp_cli_reply pl pro g =
     (if pfd pro \<ge> 0 \<and> active pro \<noteq> 0
      then do { b \<leftarrow> bget (payload (recv_buf pro)) 0 (nat (blen (recv_buf pro)));
                let (r, g1) = call (sock_send pl (pfd pro) b) g;
                Some (if r < 0 then -1 else 0, pro, g1) }
      else Some (-1, pro, g))"

definition tcp_cli_to :: "nat \<Rightarrow> 'e platform \<Rightarrow> 'e pcb" where
  "tcp_cli_to fuel pl pro g = do { (r, g1) \<leftarrow> heart_beat fuel pl pro g; Some (r, pro, g1) }"

definition tcp_cli_act :: "'e platform \<Rightarrow> 'e pcb" where
  "tcp_cli_act pl pro g =
     (if pfd pro \<ge> 0 \<and> active pro \<noteq> 0
      then do { (r, g1) \<leftarrow> hope_update_status pl 0 g; Some (r, pro, g1) }
      else Some (-1, pro, g))"

definition tcp_cli_dispro :: "'e platform \<Rightarrow> st_msg \<Rightarrow> 'e pcb" where
  "tcp_cli_dispro pl msg pro g =
     (if pfd pro \<ge> 0 \<and> active pro \<noteq> 0
      then do { b \<leftarrow> bget (m_content msg) 0 (nat (m_length msg));
                let (r, g1) = call (sock_send pl (pfd pro) b) g;
                Some (if r < 0 then -1 else 0, pro, g1) }
      else Some (-1, pro, g))"

definition cli_cbs :: "nat \<Rightarrow> 'e platform \<Rightarrow> 'e callback_table" where
  "cli_cbs fuel pl = \<lparr>
     init_cb = Some (on_proto (tcp_cli_init fuel pl)),
     recv_cb = Some (on_proto (tcp_cli_recv pl)),
     reply_cb = Some (on_proto (tcp_cli_reply pl)),
     active_send_cb = Some (on_proto (tcp_cli_act pl)),
     disproto_cb = Some (on_msg (tcp_cli_dispro pl)),
     timeout_cb = Some (on_proto (tcp_cli_to fuel pl)),
     close_cb = Some (on_proto (tcp_cli_close pl))\<rparr>"

text \<open>\<open>add_tcp_cli\<close>: the protocol starts as zeroed memory, so its descriptor is 0; the contents of
  its block and the player status a zeroed struct stands for are arguments.\<close>

definition cli_proto :: "cbuf \<Rightarrow> splayer_status \<Rightarrow> st_proto" where
  "cli_proto junk st0 = \<lparr>pname = bytes ''tcp_cli'',
     config = LOOP_CFG_RETRY OR LOOP_CFG_ALINK OR LOOP_CFG_HOPE OR LOOP_CFG_WIFI,
     timecount = 0, timeout = push_bit 10 20, pfd = 0,
     recv_buf = \<lparr>payload = junk, max_len = int (length junk), blen = 0, bbegin = 0\<rparr>,
     play_status = st0, callbacks = K_TCP_CLI, active = 0, private_buf = None\<rparr>"

definition add_tcp_cli :: "'e platform \<Rightarrow> cbuf \<Rightarrow> splayer_status \<Rightarrow> 'e gateway \<Rightarrow> int \<times> 'e gateway" where
  "add_tcp_cli pl junk st0 g =
     (let th = client g;
          ver = (case get_config pl CFG_HALO_SERVER_VERSION (ext g) of None \<Rightarrow> 0 | Some v \<Rightarrow> v);
          th1 = (if ver \<noteq> 0 then th\<lparr>host := bytes ''open.nbhope.cn'', port := 6666\<rparr> else th)
      in add_proto (cli_proto junk st0) (g\<lparr>client := th1\<rparr>))"

section \<open>Properties of the link\<close>

text \<open>A read that fills the whole receive buffer makes the terminator land behind the block.\<close>

theorem full_read_overflows:
  assumes "recv_buf pro = rb" "blen rb = 0" "max_len rb = int (length (payload rb))"
    "fst (sock_recv pl (pfd pro) (length (payload rb)) (ext g)) = Some d" "length d = length (payload rb)"
    "d \<noteq> []"
  shows "tcp_cli_recv pl pro g = None"
  using assms by (cases d) (auto simp: tcp_cli_recv_def call_simp Let_def bput_def wr_def split: bind_splits)

text \<open>Nothing of a read survives the callback: when it returns, the collected length is 0 and the
  buffer is zeroed, so the rest of a frame that arrives in a later read is lost.\<close>

theorem read_is_forgotten:
  assumes "tcp_cli_recv pl pro g = Some (r, pro', g')" "blen (recv_buf pro) = 0"
  shows "blen (recv_buf pro') = 0 \<and>
    (fst (sock_recv pl (pfd pro) (nat (max_len (recv_buf pro))) (ext g)) \<notin> {None, Some []} \<longrightarrow>
      (\<exists>n. take n (payload (recv_buf pro')) = replicate n 0 \<and> int n = max (max_len (recv_buf pro')) 0))"
proof -
  have w: "take (nat (max_len rb)) (payload rb') = replicate (nat (max_len rb)) 0 \<and> max_len rb' = max_len rb"
    if "wipe rb = Some rb'" for rb rb'
    using that by (auto simp: wipe_def bset_def split: if_splits bind_splits)
  show ?thesis
    using assms w
    by (auto simp: tcp_cli_recv_def cli_dispatch_all_def call_simp Let_def split: option.splits list.splits bind_splits)
      (force intro: exI [of _ "nat (max_len _)"])
qed

text \<open>The first connection attempt that fails closes descriptor 0: the protocol is registered with
  the descriptor of zeroed memory.\<close>

theorem failed_start_closes_stdin:
  assumes "sock_addrs pl (host (client g)) (ext g) = None"
  shows "tcp_cli_init fuel pl (cli_proto junk st0) g =
    Some (-1, (cli_proto junk st0)\<lparr>pfd := -1, active := 0\<rparr>, g\<lparr>ext := snd (sock_close pl 0 (ext g))\<rparr>)"
  using assms by (simp add: tcp_cli_init_def cli_init_fail_def cli_proto_def call_simp)

section \<open>From the queue to the socket\<close>

lemma one_node_loop:
  assumes "next s h = Some a" "next s a = Some h" "a \<noteq> h" "body a s = Some (None, s')"
    "next s' h \<noteq> None"
  shows "list_for_each_safe (Suc (Suc fuel)) next body h s = Some (None, s')"
  using assms by (auto simp: list_for_each_safe_def)

lemma il_next_one: "il_ok l \<Longrightarrow> order l = [a] \<Longrightarrow> il_next l 0 = Some a \<and> il_next l a = Some 0 \<and> a \<noteq> 0"
  by (auto simp: il_next_def il_ok_def)

lemma il_next_head: "il_next l 0 \<noteq> None"
  by (simp add: il_next_def)


section \<open>Examples\<close>

definition ex_link :: st_proto where
  "ex_link = (ex_proto (bytes ''tcp_cli'') K_TCP_CLI)\<lparr>active := 1, pfd := 5\<rparr>"

definition ex_online :: "sim gateway" where
  "ex_online = sim_gateway\<lparr>
     protos := \<lparr>order = [1], cell = (\<lambda>_. None)(1 := Some ex_link), fresh = 2\<rparr>,
     msgs := \<lparr>order = [1], cell = (\<lambda>_. None)(1 := Some \<lparr>m_type = 2, m_content = [0x41, 0x42, 0],
         m_target = bytes ''tcp_cli'', m_length = 2\<rparr>), fresh = 2\<rparr>\<rparr>"


lemma sim_recv [simp]: "sock_recv sim_platform fd n e
    = (Some (take n (sim_input e)), e\<lparr>sim_input := drop n (sim_input e)\<rparr>)"
  by (simp add: sim_platform_def)

lemma full_read_overflows_witness:
  "tcp_cli_recv sim_platform (ex_proto [0x61] K_TCP_CLI)
     (sim_gateway\<lparr>ext := sim_start\<lparr>sim_input := replicate 16 0x41\<rparr>\<rparr>) = None"
  by (rule full_read_overflows [where d = "replicate 16 0x41", OF refl])
    (simp_all add: ex_proto_def)

lemma read_is_forgotten_witness:
  "\<exists>pro'. tcp_cli_recv sim_platform (ex_proto [0x61] K_TCP_CLI)
     (sim_gateway\<lparr>ext := sim_start\<lparr>sim_input := [0x7e]\<rparr>\<rparr>) = Some (0, pro', sim_gateway\<lparr>ext := sim_start\<rparr>) \<and>
     blen (recv_buf pro') = 0"
proof -
  let ?p = "ex_proto [0x61] K_TCP_CLI" and ?g = "sim_gateway\<lparr>ext := sim_start\<lparr>sim_input := [0x7e]\<rparr>\<rparr>"
  have "\<not> check_is_alarm sim_platform (sim_gateway\<lparr>ext := sim_start\<rparr>)"
    by (simp add: check_is_alarm_def sim_start_def)
  moreover have "sim_start\<lparr>sim_input := []\<rparr> = sim_start" by (simp add: sim_start_def)
  ultimately have "\<exists>pro'. tcp_cli_recv sim_platform ?p ?g = Some (0, pro', sim_gateway\<lparr>ext := sim_start\<rparr>)"
    by (simp add: tcp_cli_recv_def ex_proto_def call_simp bput_def wr_def
        cli_dispatch_all_def cli_dispatch_def seperate_buf_def wipe_def bset_def Let_def)
  moreover have "blen (recv_buf ?p) = 0" by (simp add: ex_proto_def)
  ultimately show ?thesis using read_is_forgotten by blast
qed

lemma failed_start_closes_stdin_witness:
  "tcp_cli_init 1 (sim_platform\<lparr>sock_addrs := \<lambda>_ _. None\<rparr>) (cli_proto [0] (sim_status sim_start)) sim_gateway =
    Some (-1, (cli_proto [0] (sim_status sim_start))\<lparr>pfd := -1, active := 0\<rparr>, sim_gateway)"
proof -
  have "sim_gateway\<lparr>ext := snd (sock_close (sim_platform\<lparr>sock_addrs := \<lambda>_ _. None\<rparr>) 0 (ext sim_gateway))\<rparr>
      = sim_gateway"
    by (simp add: sim_platform_def sim_gateway_def)
  then show ?thesis
    using failed_start_closes_stdin [of "sim_platform\<lparr>sock_addrs := \<lambda>_ _. None\<rparr>" sim_gateway] by simp
qed

end
