(* ===== verification/Tcp_Server.thy ===== *)
theory Tcp_Server
  imports Tcp_Client
begin

text \<open>
  The server for the phones of the house: the listening protocol (\<open>app/tcp_ser.c\<close>), the protocol of
  one connection (\<open>app/tcp_ser_cli.c\<close>) and the control commands (\<open>app/tcp_ser_dispatch.c\<close>). A
  connection receives JSON objects in lines, runs them through the Lua parser and queues the
  answers, which go to every connection as lines.
\<close>

section \<open>The control commands\<close>

type_synonym 'e ser_cb = "json \<Rightarrow> 'e gateway \<Rightarrow> (int \<times> 'e gateway) option"

definition effect_str :: "byte list list" where
  "effect_str = [bytes ''classical'', bytes ''modern'', bytes ''rockroll'', bytes ''pop'', bytes ''dance'', bytes ''original'']"

definition source_str :: "byte list list" where
  "source_str = [bytes ''local'', bytes ''bluetooth'', bytes ''linein'']"

definition mode_str :: "byte list list" where
  "mode_str = [bytes ''null'', bytes ''random'', bytes ''cycle'', bytes ''single'', bytes ''list'']"

definition playstate_str :: "byte list list" where
  "playstate_str = [bytes ''pause'', bytes ''play'', bytes ''prev'', bytes ''next'']"

text \<open>The search loops: the index of a string in a table. A value without a string is a null pointer,
  which \<open>strcmp\<close> reads.\<close>

fun str_index :: "byte list list \<Rightarrow> byte list \<Rightarrow> nat option" where
  "str_index [] s = None"
| "str_index (t # ts) s = (if t = s then Some 0 else map_option Suc (str_index ts s))"

definition ctrl_effect_cb :: "'e ser_cb" where
  "ctrl_effect_cb item g =
     do { s \<leftarrow> valuestring item;
          (case str_index effect_str s of Some i \<Rightarrow> Some (0, g) | None \<Rightarrow> Some (0, g)) }"

definition ctrl_source_cb :: "'e ser_cb" where
  "ctrl_source_cb item g =
     do { s \<leftarrow> valuestring item;
          (case str_index source_str s of Some i \<Rightarrow> Some (0, g) | None \<Rightarrow> Some (0, g)) }"

definition inc_vol :: "'e platform \<Rightarrow> 'e gateway \<Rightarrow> int \<times> 'e gateway" where
  "inc_vol pl g = halo_vol_ctrl pl 1 g"

definition dec_vol :: "'e platform \<Rightarrow> 'e gateway \<Rightarrow> int \<times> 'e gateway" where
  "dec_vol pl g = halo_vol_ctrl pl 0 g"

definition ser_mute_vol :: "'e platform \<Rightarrow> 'e gateway \<Rightarrow> int \<times> 'e gateway" where
  "ser_mute_vol pl g = halo_mute pl 1 g"

definition demute_vol :: "'e platform \<Rightarrow> 'e gateway \<Rightarrow> int \<times> 'e gateway" where
  "demute_vol pl g = halo_mute pl 0 g"

definition ser_vol :: "'e platform \<Rightarrow> (byte list \<times> ('e gateway \<Rightarrow> int \<times> 'e gateway)) list" where
  "ser_vol pl = [(bytes ''inc'', inc_vol pl), (bytes ''dec'', dec_vol pl), (bytes ''mute'', ser_mute_vol pl),
     (bytes ''unmute'', demute_vol pl)]"

definition ctrl_volume_cb :: "'e platform \<Rightarrow> 'e ser_cb" where
  "ctrl_volume_cb pl item g =
     (case item of
        JString s \<Rightarrow>
          (case map_of (ser_vol pl) s of
             Some f \<Rightarrow> Some (f g)
           | None \<Rightarrow> do { v \<leftarrow> atoi s; w \<leftarrow> int32 (v * 8); halo_vol pl (w sdiv 3) 0 g })
      | _ \<Rightarrow> Some (-1, g))"

definition ctrl_mode_cb :: "'e platform \<Rightarrow> 'e ser_cb" where
  "ctrl_mode_cb pl item g =
     do { s \<leftarrow> valuestring item;
          (case str_index mode_str s of
             Some i \<Rightarrow> Some (halo_loop_set pl (int i) g) | None \<Rightarrow> Some (-1, g)) }"

definition ctrl_playstate_cb :: "'e platform \<Rightarrow> 'e ser_cb" where
  "ctrl_playstate_cb pl item g =
     do { s \<leftarrow> valuestring item;
          (case str_index playstate_str s of
             Some i \<Rightarrow> Some (if i < 2 then halo_play pl (int i) g else halo_cut pl (int i - 2) g)
           | None \<Rightarrow> Some (-1, g)) }"

definition ctrl_progress_cb :: "'e platform \<Rightarrow> 'e ser_cb" where
  "ctrl_progress_cb pl item g =
     do { v \<leftarrow> (case item of JString s \<Rightarrow> atoi s | _ \<Rightarrow> Some (valueint item));
          Some (if v \<ge> 0 then halo_seek pl v g else (-1, g)) }"

definition ctrl_songid_cb :: "'e platform \<Rightarrow> 'e ser_cb" where
  "ctrl_songid_cb pl item g =
     do { v \<leftarrow> (case item of
            JString s \<Rightarrow> (if s \<noteq> [] \<and> s ! 0 \<le> 0x39 \<and> s ! 0 \<ge> 0x30 then atoi s else Some (-1))
          | _ \<Rightarrow> Some (valueint item));
          Some (if v \<ge> 0 then hope_music_play_index pl v g else (-1, g)) }"

definition ctrl_currsong_cb :: "'e ser_cb" where
  "ctrl_currsong_cb item g = Some (0, g)"

definition ser_ctrl :: "'e platform \<Rightarrow> (byte list \<times> 'e ser_cb) list" where
  "ser_ctrl pl = [(bytes ''effect'', ctrl_effect_cb), (bytes ''source'', ctrl_source_cb),
     (bytes ''volume'', ctrl_volume_cb pl), (bytes ''mode'', ctrl_mode_cb pl),
     (bytes ''playstate'', ctrl_playstate_cb pl), (bytes ''progress'', ctrl_progress_cb pl),
     (bytes ''songid'', ctrl_songid_cb pl), (bytes ''currsong'', ctrl_currsong_cb)]"

text \<open>The loop of \<open>tcp_ser_control_cb\<close>: every row whose name is among the parameters runs, in the order
  of the table, and its result is ignored.\<close>

fun run_ser_ctrl :: "(byte list \<times> 'e ser_cb) list \<Rightarrow> json \<Rightarrow> 'e gateway \<Rightarrow> 'e gateway option" where
  "run_ser_ctrl [] params g = Some g"
| "run_ser_ctrl ((c, f) # rows) params g =
     (case GetObjectItem params c of
        None \<Rightarrow> run_ser_ctrl rows params g
      | Some item \<Rightarrow> do { (_, g1) \<leftarrow> f item g; run_ser_ctrl rows params g1 })"

definition tcp_ser_control_cb :: "'e platform \<Rightarrow> 'e ser_cb" where
  "tcp_ser_control_cb pl root g =
     (case GetObjectItem root (bytes ''params'') of
        None \<Rightarrow> Some (-1, g)
      | Some params \<Rightarrow> do { g1 \<leftarrow> run_ser_ctrl (ser_ctrl pl) params g; Some (0, g1) })"

definition tcp_ser_info_cb :: "'e ser_cb" where "tcp_ser_info_cb root g = Some (0, g)"
definition tcp_ser_getsonglist_cb :: "'e ser_cb" where "tcp_ser_getsonglist_cb root g = Some (0, g)"
definition tcp_ser_getplaylist_cb :: "'e ser_cb" where "tcp_ser_getplaylist_cb root g = Some (0, g)"
definition tcp_ser_querysonginfo_cb :: "'e ser_cb" where "tcp_ser_querysonginfo_cb root g = Some (0, g)"
definition tcp_ser_operlist_cb :: "'e ser_cb" where "tcp_ser_operlist_cb root g = Some (0, g)"
definition tcp_ser_exit_cb :: "'e ser_cb" where "tcp_ser_exit_cb root g = Some (9, g)"
definition tcp_ser_opertunnel_cb :: "'e ser_cb" where "tcp_ser_opertunnel_cb root g = Some (0, g)"
definition tcp_ser_deviceinfo_cb :: "'e ser_cb" where "tcp_ser_deviceinfo_cb root g = Some (0, g)"
definition tcp_ser_hopediscover_cb :: "'e ser_cb" where "tcp_ser_hopediscover_cb root g = Some (0, g)"

definition tcp_ser_dis :: "'e platform \<Rightarrow> (byte list \<times> 'e ser_cb) list" where
  "tcp_ser_dis pl = [(bytes ''info'', tcp_ser_info_cb), (bytes ''control'', tcp_ser_control_cb pl),
     (bytes ''getsonglist'', tcp_ser_getsonglist_cb), (bytes ''getplaylist'', tcp_ser_getplaylist_cb),
     (bytes ''querysonginfo'', tcp_ser_querysonginfo_cb), (bytes ''operlist'', tcp_ser_operlist_cb),
     (bytes ''exit'', tcp_ser_exit_cb), (bytes ''opertunnel'', tcp_ser_opertunnel_cb),
     (bytes ''deviceinfo'', tcp_ser_deviceinfo_cb), (bytes ''hopediscover'', tcp_ser_hopediscover_cb)]"

text \<open>The argument stands for \<open>pro->private\<close>. The names are shorter than the 128 characters that
  \<open>strncmp\<close> compares.\<close>

definition tcp_ser_dispatch :: "'e platform \<Rightarrow> json option \<Rightarrow> 'e gateway \<Rightarrow> (int \<times> 'e gateway) option" where
  "tcp_ser_dispatch pl private g =
     (case private of
        None \<Rightarrow> Some (-1, g)
      | Some root \<Rightarrow>
          (case GetObjectItem root (bytes ''cmd'') of
             None \<Rightarrow> Some (-1, g)
           | Some c \<Rightarrow> do {
               s \<leftarrow> valuestring c;
               (case map_of (tcp_ser_dis pl) s of
                  None \<Rightarrow> Some (-1, g) | Some f \<Rightarrow> f root g) }))"

text \<open>\<open>_dispatch\<close> of a connection: the objects of a text until one asks to leave.\<close>

fun ser_dispatch_list :: "'e platform \<Rightarrow> json list \<Rightarrow> 'e gateway \<Rightarrow> (int \<times> 'e gateway) option" where
  "ser_dispatch_list pl [] g = Some (0, g)"
| "ser_dispatch_list pl (v # vs) g =
     do { (r, g1) \<leftarrow> tcp_ser_dispatch pl (Some v) g;
          if r = 9 then Some (9, g1) else ser_dispatch_list pl vs g1 }"

definition ser_dispatch_all :: "'e platform \<Rightarrow> st_proto \<Rightarrow> 'e gateway \<Rightarrow> (int \<times> 'e gateway) option" where
  "ser_dispatch_all pl pro g =
     do { s \<leftarrow> cstr (payload (recv_buf pro));
          ser_dispatch_list pl (snd (get_json_list (cjson_parse pl) s)) g }"

section \<open>The status report\<close>

definition mode_names :: "(play_loop \<times> byte list) list" where
  "mode_names = [(LOOP_ALL, bytes ''cycle''), (LOOP_ONE, bytes ''single''), (LOOP_SHUFFLE, bytes ''random''),
     (LOOP_SEQ, bytes ''list'')]"

definition effect_names :: "(play_eq \<times> byte list) list" where
  "effect_names = [(EQ_CLASSIC, bytes ''classical''), (EQ_POP, bytes ''modern''), (EQ_DANCE, bytes ''dance''),
     (EQ_HIPHOP, bytes ''pop''), (EQ_NORMAL, bytes ''original''), (EQ_ROCK, bytes ''rockroll'')]"

definition playstate_names :: "(play_state \<times> byte list) list" where
  "playstate_names = [(STATUS_PLAYING, bytes ''play''), (STATUS_PAUSE, bytes ''pause''), (STATUS_STOP, bytes ''stop'')]"

definition source_names :: "(play_mode \<times> byte list) list" where
  "source_names = [(MODE_AIMUSIC, bytes ''alink''), (MODE_CLOUDMUSIC, bytes ''speech''), (MODE_BT, bytes ''bluetooth''),
     (MODE_LOCAL, bytes ''local''), (MODE_PLAYLIST, bytes ''local''), (MODE_SAIR, bytes ''tts''),
     (MODE_LINEIN, bytes ''linein'')]"

text \<open>\<open>HALO_ADD_TO_JSON\<close>\<close>

definition add_name :: "byte list \<Rightarrow> ('m \<times> byte list) list \<Rightarrow> 'm \<Rightarrow> json \<Rightarrow> json" where
  "add_name k names n j =
     (case map_of names n of None \<Rightarrow> j | Some s \<Rightarrow> AddItemToObject k (JString s) j)"

text \<open>\<open>_halo_status\<close>: a failing player call leaves the function without a result, which the caller
  uses. The printer leaves the room that the line feed takes.\<close>

definition halo_status :: "'e platform \<Rightarrow> splayer_status \<Rightarrow> 'e gateway \<Rightarrow> byte list option" where
  "halo_status pl status g =
     do { v \<leftarrow> int32 (ps_volume status * 3 + 2);
          let p0 = add_name (bytes ''source'') source_names (ps_mode status)
                (add_name (bytes ''playstate'') playstate_names (ps_status status)
                (add_name (bytes ''effect'') effect_names (ps_eq status)
                (add_name (bytes ''mode'') mode_names (ps_loop status) (JObject []))));
          let p = AddItemToObject (bytes ''songid'') (JNumber (ps_index status))
                (AddItemToObject (bytes ''process'') (JNumber (ps_time status))
                (AddItemToObject (bytes ''volume'') (JNumber (v div 8)) p0));
          let (r, info) = splayer_get_info pl (ext g);
          _ \<leftarrow> (if r < 0 then None else Some ());
          song \<leftarrow>
            (if si_uri info \<noteq> []
             then do {
               let s0 = (if si_album info \<noteq> [] then AddItemToObject (bytes ''album'') (JString (si_album info)) (JObject [])
                         else JObject []);
               let s1 = (if si_author info \<noteq> [] then AddItemToObject (bytes ''artist'') (JString (si_author info)) s0 else s0);
               t \<leftarrow> (if si_title info \<noteq> [] then Some (si_title info)
                     else do { (_, b) \<leftarrow> get_music_name (si_uri info @ [0]) (replicate 128 0) 127; cstr b });
               Some (AddItemToObject (bytes ''id'') (JNumber (ps_index status))
                 (AddItemToObject (bytes ''duration'') (JNumber (si_total info))
                 (AddItemToObject (bytes ''title'') (JString t) s1))) }
             else Some (JObject []));
          Some (cjson_print pl
            (AddItemToObject (bytes ''currSong'') song
            (AddItemToObject (bytes ''params'') p
            (AddItemToObject (bytes ''cmd'') (JString (bytes ''info'')) (JObject [])))) @ [0x0a]) }"

section \<open>A connection\<close>

definition msg_to_ser_cli :: "int \<Rightarrow> byte list \<Rightarrow> 'e gateway \<Rightarrow> (int \<times> 'e gateway) option" where
  "msg_to_ser_cli ty s g =
     do { c \<leftarrow> strncpy (replicate 1024 0) s 1024;
          add_msg (bytes ''tcp_ser_cli'')
            \<lparr>pm_type = ty, pm_content = c, pm_length = (if length s > 1024 then 1024 else int (length s))\<rparr> g }"

definition dispatch_lua :: "'e platform \<Rightarrow> byte list \<Rightarrow> 'e gateway \<Rightarrow> ((int \<times> byte list) \<times> 'e gateway) option" where
  "dispatch_lua pl text g =
     (let ((ret, body), g1) = call (halo_parse pl text) g
      in if length body < 1024 then Some ((ret, body), g1) else None)"

text \<open>The pages of a play list, the next one being \<open>i\<close> with \<open>n\<close> to go.\<close>

fun page_loop :: "'e platform \<Rightarrow> json \<Rightarrow> nat \<Rightarrow> int \<Rightarrow> 'e gateway \<Rightarrow> 'e gateway option" where
  "page_loop pl c 0 i g = Some g"
| "page_loop pl c (Suc n) i g =
     do { s \<leftarrow> valuestring c;
          let (buff, g1) = call (songs_of_page pl i s) g;
          _ \<leftarrow> (if length buff < 1024 then Some () else None);
          (_, g2) \<leftarrow> msg_to_ser_cli 0 buff g1;
          page_loop pl c n (i + 1) g2 }"

definition parse_playlist :: "'e platform \<Rightarrow> byte list \<Rightarrow> 'e gateway \<Rightarrow> (int \<times> 'e gateway) option" where
  "parse_playlist pl str g =
     (let root = cjson_parse pl str; item = (\<lambda>k. Option.bind root (\<lambda>r. GetObjectItem r k)) in
      case (item (bytes ''total''), item (bytes ''page''), item (bytes ''cmd'')) of
        (Some _, Some page, Some c) \<Rightarrow>
          do { g1 \<leftarrow> page_loop pl c (nat (valueint page)) 1 g; Some (0, g1) }
      | _ \<Rightarrow> Some (-1, g))"

text \<open>The objects of a line; the result tells whether the connection goes on.\<close>

fun ser_items :: "'e platform \<Rightarrow> json list \<Rightarrow> 'e gateway \<Rightarrow> (bool \<times> 'e gateway) option" where
  "ser_items pl [] g = Some (True, g)"
| "ser_items pl (v # vs) g =
     do { ((ret, body), g1) \<leftarrow> dispatch_lua pl (cjson_print pl v) g;
          if ret = 9 then Some (False, g1)
          else do {
            g2 \<leftarrow> (if ret = 1 then map_option snd (msg_to_ser_cli 0 body g1)
                  else if ret = 2 then map_option snd (parse_playlist pl body g1)
                  else if ret = 3 then Some (snd (call (sair_text_search pl body) g1))
                  else if ret = 4 then Some (snd (call (sair_tts_call pl body) g1))
                  else Some g1);
            ser_items pl vs g2 } }"

text \<open>The loop over the lines of the receive buffer.\<close>

function ser_lines :: "'e platform \<Rightarrow> cbuf \<Rightarrow> int \<Rightarrow> 'e gateway \<Rightarrow> (bool \<times> cbuf \<times> int \<times> 'e gateway) option" where
  "ser_lines pl buf len g =
     do { (tmp, b1) \<leftarrow> key_to_zero buf 0x0a;
          if tmp = 0 then Some (True, b1, len, g)
          else do {
            line \<leftarrow> cstr b1;
            (on, g1) \<leftarrow> ser_items pl (snd (get_json_list (cjson_parse pl) line)) g;
            if \<not> on then Some (False, b1, len, g1)
            else do { b2 \<leftarrow> mvforward b1 len tmp; ser_lines pl b2 (len - tmp) g1 } } }"
  by pat_completeness auto

termination
proof (relation "measure (\<lambda>(pl, b, len, g). count_list b 0x0a)")
  fix pl :: "'e platform" and buf len g t b1 l b2 p q on g1
  assume key: "key_to_zero buf 0x0a = Some p" and p: "(t, b1) = p" and t: "t \<noteq> 0"
    and mv: "mvforward b1 len t = Some b2"
  from key p have "key_to_zero buf 0x0a = Some (t, b1)" by simp
  then have "count_list b1 0x0a < count_list buf 0x0a"
    by (rule key_to_zero_cases) (use t in auto)
  with count_mvforward [OF mv, of "0x0a"]
  show "((pl, b2, len - t, g1), pl, buf, len, g) \<in> measure (\<lambda>(pl, b, len, g). count_list b 0x0a)"
    by simp
qed simp

declare ser_lines.simps [simp del]

text \<open>What \<open>tcp_ser_cli_recv\<close> does with the bytes it got.\<close>

definition ser_feed :: "'e platform \<Rightarrow> byte list \<Rightarrow> 'e pcb" where
  "ser_feed pl d pro g =
     do { let rb = recv_buf pro;
          _ \<leftarrow> (if blen rb < 0 then None else Some ());
          p1 \<leftarrow> bput (payload rb) (nat (blen rb)) d;
          let n = blen rb + int (length d);
          p2 \<leftarrow> wr p1 (nat n) 0;
          (on, p3, n3, g1) \<leftarrow> ser_lines pl p2 n g;
          let pro1 = pro\<lparr>recv_buf := rb\<lparr>payload := p3, blen := n3\<rparr>\<rparr>;
          if on then Some (0, reset_timer pl pro1 g1, g1) else Some (-1, pro1, g1) }"

definition tcp_ser_cli_recv :: "'e platform \<Rightarrow> 'e pcb" where
  "tcp_ser_cli_recv pl pro g =
     (let (d, g1) = call (sock_recv pl (pfd pro) (nat (max_len (recv_buf pro)))) g
      in case d of
           Some (b # bs) \<Rightarrow> ser_feed pl (b # bs) pro g1
         | _ \<Rightarrow> Some (if errno_again pl (ext g1) then 0 else -1, pro, g1))"

definition tcp_ser_cli_reply :: "'e pcb" where
  "tcp_ser_cli_reply pro g = Some (0, pro, g)"

definition tcp_ser_cli_act :: "'e platform \<Rightarrow> 'e pcb" where
  "tcp_ser_cli_act pl pro g =
     do { out \<leftarrow> halo_status pl (play_status pro) g;
          let (n, g1) = call (sock_send pl (pfd pro) out) g;
          Some (if n > 0 then 0 else -1, pro, g1) }"

text \<open>A message is one line; the line feed is put behind it in the message's own array. A second
  connection finds it there and sends the same bytes.\<close>

fun ser_send :: "nat \<Rightarrow> 'e platform \<Rightarrow> int \<Rightarrow> byte list \<Rightarrow> 'e gateway \<Rightarrow> (int \<times> 'e gateway) option" where
  "ser_send 0 pl fd b g = None"
| "ser_send (Suc fuel) pl fd b g =
     (let (n, g1) = call (sock_send pl fd b) g in
      if n = int (length b) then Some (0, g1)
      else if errno_again pl (ext g1) then ser_send fuel pl fd b g1 else Some (-1, g1))"

definition tcp_ser_cli_dispro :: "nat \<Rightarrow> 'e platform \<Rightarrow> st_msg \<Rightarrow> 'e pcb" where
  "tcp_ser_cli_dispro fuel pl msg pro g =
     do { s \<leftarrow> cstr (m_content msg);
          c \<leftarrow> (if 0x0a \<notin> set s then bput (m_content msg) (length s) [0x0a, 0] else Some (m_content msg));
          if pfd pro < 0 \<or> active pro = 0 then Some (-1, pro, g)
          else do {
            t \<leftarrow> cstr c;
            if t \<noteq> [] then do { (r, g1) \<leftarrow> ser_send fuel pl (pfd pro) t g; Some (r, pro, g1) }
            else Some (-1, pro, g) } }"

definition tcp_ser_cli_to :: "'e pcb" where
  "tcp_ser_cli_to pro g = Some (-1, pro, g)"

text \<open>Closing frees the block; no byte of it can be used after that.\<close>

definition tcp_ser_cli_close :: "'e platform \<Rightarrow> 'e pcb" where
  "tcp_ser_cli_close pl pro g =
     (if pfd pro \<ge> 0
      then Some (0, pro\<lparr>pfd := -1, active := 0, recv_buf := (recv_buf pro)\<lparr>payload := [], blen := 0\<rparr>\<rparr>,
                 snd (call (sock_close pl (pfd pro)) (g\<lparr>client_num := client_num g - 1\<rparr>)))
      else Some (-1, pro, g))"

definition ser_cli_cbs :: "nat \<Rightarrow> 'e platform \<Rightarrow> 'e callback_table" where
  "ser_cli_cbs fuel pl = \<lparr>
     init_cb = None, recv_cb = Some (on_proto (tcp_ser_cli_recv pl)), reply_cb = Some (on_proto tcp_ser_cli_reply),
     active_send_cb = Some (on_proto (tcp_ser_cli_act pl)), disproto_cb = Some (on_msg (tcp_ser_cli_dispro fuel pl)),
     timeout_cb = Some (on_proto tcp_ser_cli_to), close_cb = Some (on_proto (tcp_ser_cli_close pl))\<rparr>"

definition ser_cli_proto :: "'e platform \<Rightarrow> int \<Rightarrow> byte list \<Rightarrow> cbuf \<Rightarrow> splayer_status \<Rightarrow> 'e gateway \<Rightarrow> st_proto" where
  "ser_cli_proto pl fd name junk st0 g = \<lparr>
     pname = (if name \<noteq> [] then name else bytes ''tcp_ser_cli''), config = LOOP_CFG_WIFI,
     timecount = get_now_ms pl g, timeout = push_bit 10 45, pfd = fd,
     recv_buf = \<lparr>payload = junk, max_len = int (length junk), blen = 0, bbegin = 0\<rparr>,
     play_status = st0, callbacks = K_SER_CLI, active = 1, private_buf = None\<rparr>"

text \<open>\<open>junk\<close> is the fresh block of 4096 bytes. No caller passes a name of 128 bytes or more.\<close>

definition add_tcp_ser_cli ::
  "'e platform \<Rightarrow> int \<Rightarrow> byte list \<Rightarrow> cbuf \<Rightarrow> splayer_status \<Rightarrow> 'e gateway \<Rightarrow> int \<times> 'e gateway" where
  "add_tcp_ser_cli pl fd name junk st0 g =
     (let g1 = g\<lparr>client_num := client_num g + 1\<rparr> in add_proto (ser_cli_proto pl fd name junk st0 g1) g1)"

definition tsc_active_num :: "'e gateway \<Rightarrow> int" where
  "tsc_active_num g = client_num g"

section \<open>The listening protocol\<close>

definition tcp_ser_init :: "'e platform \<Rightarrow> 'e pcb" where
  "tcp_ser_init pl pro g =
     (let (fd, g1) = call (sock_open pl True) g in
      if fd < 0 then Some (-1, pro\<lparr>pfd := -1, active := 0\<rparr>, g1)
      else let (r, g2) = call (sock_listen pl fd) g1 in
        if r < 0 then Some (-1, pro\<lparr>pfd := -1, active := 0\<rparr>, snd (call (sock_close pl fd) g2))
        else Some (0, pro\<lparr>pfd := fd, active := 1\<rparr>, g2\<lparr>ser_port := sock_port pl fd (ext g2)\<rparr>))"

definition tcp_ser_accept :: "'e platform \<Rightarrow> cbuf \<Rightarrow> splayer_status \<Rightarrow> 'e pcb" where
  "tcp_ser_accept pl junk st0 pro g =
     (let (fd, g1) = call (sock_accept pl (pfd pro)) g in
      if fd \<ge> 0 then Some (0, pro, snd (add_tcp_ser_cli pl fd [] junk st0 g1)) else Some (0, pro, g1))"

definition tcp_ser_close :: "'e platform \<Rightarrow> 'e pcb" where
  "tcp_ser_close pl pro g =
     (if pfd pro \<ge> 0
      then Some (0, pro\<lparr>pfd := -1, active := 0\<rparr>, snd (call (sock_close pl (pfd pro)) g))
      else Some (0, pro, g))"

definition tcp_ser_cbs :: "'e platform \<Rightarrow> cbuf \<Rightarrow> splayer_status \<Rightarrow> 'e callback_table" where
  "tcp_ser_cbs pl junk st0 = \<lparr>
     init_cb = Some (on_proto (tcp_ser_init pl)), recv_cb = Some (on_proto (tcp_ser_accept pl junk st0)),
     reply_cb = None, active_send_cb = None, disproto_cb = None, timeout_cb = None,
     close_cb = Some (on_proto (tcp_ser_close pl))\<rparr>"

definition tcp_ser_proto :: "splayer_status \<Rightarrow> st_proto" where
  "tcp_ser_proto st0 = \<lparr>pname = bytes ''tcp_ser'', config = LOOP_CFG_RETRY OR LOOP_CFG_WIFI,
     timecount = 0, timeout = 0, pfd = 0,
     recv_buf = \<lparr>payload = [], max_len = 0, blen = 0, bbegin = 0\<rparr>,
     play_status = st0, callbacks = K_TCP_SER, active = 0, private_buf = None\<rparr>"

definition add_tcp_ser :: "splayer_status \<Rightarrow> 'e gateway \<Rightarrow> int \<times> 'e gateway" where
  "add_tcp_ser st0 g = add_proto (tcp_ser_proto st0) g"

definition tcp_ser_port :: "'e gateway \<Rightarrow> int" where
  "tcp_ser_port g = ser_port g"

section \<open>Lines out\<close>

lemma msg_to_ser_cli_queues:
  "msg_to_ser_cli ty s g = Some (0, g\<lparr>msgs := il_add \<lparr>m_type = ty, m_content = strncpy_bytes s 1024,
     m_target = bytes ''tcp_ser_cli'', m_length = (if length s > 1024 then 1024 else int (length s))\<rparr> (msgs g)\<rparr>)"
proof -
  have c: "strncpy (replicate 1024 0) s 1024 = Some (strncpy_bytes s 1024)"
    by (simp add: strncpy_def bput_def)
  have t: "take 127 (bytes ''tcp_ser_cli'') = bytes ''tcp_ser_cli''" by (simp add: bytes_def)
  show ?thesis
  proof (cases "length s > 1024")
    case True
    then show ?thesis
      by (simp add: msg_to_ser_cli_def c add_msg_def t bget_def bput_def)
  next
    case False
    then have "take (length s) (strncpy_bytes s 1024) @ replicate (1024 - length s) 0 = strncpy_bytes s 1024"
      by (simp add: strncpy_bytes_def)
    then show ?thesis using False by (simp add: msg_to_ser_cli_def c add_msg_def t bget_def bput_def)
  qed
qed

lemma cstr_strncpy:
  assumes "0 \<notin> set s" "0 < n"
  shows "cstr (strncpy_bytes s n) = (if length s < n then Some s else None)"
proof (cases "length s < n")
  case True
  then obtain k where "n - length s = Suc k" by (metis Suc_diff_Suc)
  then show ?thesis using True assms(1) by (simp add: strncpy_bytes_def cstr_append)
next
  case False
  then have "0 \<notin> set (strncpy_bytes s n)" using assms(1) by (auto simp: strncpy_bytes_def dest: in_set_takeD)
  then have "find_byte 0 (strncpy_bytes s n) = None" by simp
  then show ?thesis using False by (simp add: cstr_def)
qed

text \<open>A text queued for the phones is sent as one line: every open connection puts the text and a
  line feed on its socket. The array of a message has no room for the line feed from 1023
  bytes on: then the function writes or reads behind it.\<close>

theorem ser_message_line:
  assumes "0 \<notin> set s" "0x0a \<notin> set s" "s \<noteq> []"
    and "\<forall>e. fst (sock_send pl fd (s @ [0x0a]) e) = int (length s + 1)"
  shows "\<exists>m. msg_to_ser_cli ty s g = Some (0, g\<lparr>msgs := il_add m (msgs g)\<rparr>) \<and>
    m_target m = bytes ''tcp_ser_cli'' \<and>
    (\<forall>fuel pro g'. pfd pro = fd \<and> 0 \<le> fd \<and> active pro \<noteq> 0 \<longrightarrow>
      tcp_ser_cli_dispro (Suc fuel) pl m pro g' =
        (if length s \<le> 1022 then Some (0, pro, snd (call (sock_send pl fd (s @ [0x0a])) g')) else None))"
proof -
  let ?m = "\<lparr>m_type = ty, m_content = strncpy_bytes s 1024, m_target = bytes ''tcp_ser_cli'',
      m_length = (if length s > 1024 then 1024 else int (length s))\<rparr>"
  have "tcp_ser_cli_dispro (Suc fuel) pl ?m pro g' =
      (if length s \<le> 1022 then Some (0, pro, snd (call (sock_send pl fd (s @ [0x0a])) g')) else None)"
    if pro: "pfd pro = fd" "0 \<le> fd" "active pro \<noteq> 0" for fuel pro g'
  proof (cases "length s < 1024")
    case False
    then show ?thesis using cstr_strncpy [OF assms(1), of 1024] by (simp add: tcp_ser_cli_dispro_def)
  next
    case True
    then have cs: "cstr (strncpy_bytes s 1024) = Some s" using cstr_strncpy [OF assms(1), of 1024] by simp
    show ?thesis
    proof (cases "length s \<le> 1022")
      case False
      then show ?thesis using cs assms(2) True by (simp add: tcp_ser_cli_dispro_def bput_def)
    next
      case fit: True
      then have "bput (strncpy_bytes s 1024) (length s) [0x0a, 0] = Some (s @ [0x0a] @ 0 # replicate (1022 - length s) 0)"
        by (simp add: bput_def strncpy_bytes_def)
      moreover have "cstr ((s @ [0x0a]) @ 0 # replicate (1022 - length s) 0) = Some (s @ [0x0a])"
        using assms(1) by (intro cstr_append) simp
      ultimately show ?thesis
        using cs assms(2,4) pro fit by (simp add: tcp_ser_cli_dispro_def call_simp)
    qed
  qed
  then show ?thesis using msg_to_ser_cli_queues [of ty s g] by (intro exI [of _ ?m]) simp
qed

section \<open>Lines in\<close>

lemma no_line:
  assumes "0x0a \<notin> set xs"
  shows "key_to_zero (xs @ 0 # post) 0x0a = Some (0, xs @ 0 # post)"
proof -
  have "\<exists>ys post'. xs @ 0 # post = ys @ 0 # post' \<and> 0 \<notin> set ys \<and> 0x0a \<notin> set ys"
  proof (cases "0 \<in> set xs")
    case True
    then obtain ys zs where "xs = ys @ 0 # zs" "0 \<notin> set ys" by (meson split_list_first)
    then show ?thesis using assms by (intro exI [of _ ys] exI [of _ "zs @ 0 # post"]) auto
  next
    case False
    then show ?thesis using assms by blast
  qed
  then show ?thesis using key_to_zero_miss [of "0x0a"] by force
qed

lemma feed_stored:
  assumes "payload (recv_buf pro) = pre @ rest" "blen (recv_buf pro) = int (length pre)" "length d < length rest"
  shows "ser_feed pl d pro g =
    do { (on, p3, n3, g1) \<leftarrow> ser_lines pl (pre @ d @ 0 # drop (Suc (length d)) rest) (int (length pre + length d)) g;
         let pro1 = pro\<lparr>recv_buf := (recv_buf pro)\<lparr>payload := p3, blen := n3\<rparr>\<rparr>;
         if on then Some (0, reset_timer pl pro1 g1, g1) else Some (-1, pro1, g1) }"
proof -
  obtain x where x: "drop (length d) rest = x # drop (Suc (length d)) rest"
    using assms(3) by (metis Cons_nth_drop_Suc)
  have p1: "bput (payload (recv_buf pro)) (nat (blen (recv_buf pro))) d
      = Some (pre @ d @ x # drop (Suc (length d)) rest)"
    using assms x by (simp add: bput_def)
  have n: "nat (int (length pre) + int (length d)) = length (pre @ d)" by simp
  have "wr ((pre @ d) @ x # drop (Suc (length d)) rest) (length (pre @ d)) 0
      = Some ((pre @ d) @ 0 # drop (Suc (length d)) rest)"
    by (rule wr_append)
  then have p2: "wr (pre @ d @ x # drop (Suc (length d)) rest) (nat (int (length pre) + int (length d))) 0
      = Some (pre @ d @ 0 # drop (Suc (length d)) rest)"
    unfolding n by simp
  have pos: "(int (length pre) < 0) = False" by simp
  show ?thesis
    unfolding ser_feed_def Let_def p1 unfolding assms(2) pos if_False Option.bind.bind_lunit p2 by simp
qed


section \<open>Counting the phones\<close>

definition is_phone :: "'e gateway \<Rightarrow> addr \<Rightarrow> bool" where
  "is_phone g a = (case pget a g of None \<Rightarrow> False | Some p \<Rightarrow> callbacks p = K_SER_CLI)"

definition phones :: "'e gateway \<Rightarrow> addr list" where
  "phones g = filter (is_phone g) (order (protos g))"

text \<open>What the event loop does with the listener and with its connections.\<close>

inductive ser_reach :: "nat \<Rightarrow> 'e platform \<Rightarrow> 'e tables \<Rightarrow> 'e gateway \<Rightarrow> bool"
  for fuel pl tabs where
  boot: "il_ok (protos g) \<Longrightarrow> phones g = [] \<Longrightarrow> client_num g = 0 \<Longrightarrow> ser_reach fuel pl tabs g"
| accept: "ser_reach fuel pl tabs g \<Longrightarrow> tcp_ser_accept pl junk st0 pro g = Some (r, pro', g') \<Longrightarrow>
    ser_reach fuel pl tabs g'"
| recv: "ser_reach fuel pl tabs g \<Longrightarrow> a \<in> set (phones g) \<Longrightarrow> on_proto (tcp_ser_cli_recv pl) a g = Some (r, g') \<Longrightarrow>
    ser_reach fuel pl tabs g'"
| act: "ser_reach fuel pl tabs g \<Longrightarrow> a \<in> set (phones g) \<Longrightarrow> on_proto (tcp_ser_cli_act pl) a g = Some (r, g') \<Longrightarrow>
    ser_reach fuel pl tabs g'"
| send: "ser_reach fuel pl tabs g \<Longrightarrow> a \<in> set (phones g) \<Longrightarrow> on_msg (tcp_ser_cli_dispro fuel pl) m a g = Some (r, g') \<Longrightarrow>
    ser_reach fuel pl tabs g'"
| close: "ser_reach fuel pl tabs g \<Longrightarrow> a \<in> set (phones g) \<Longrightarrow> close_proto tabs a g = Some (r, g') \<Longrightarrow>
    ser_reach fuel pl tabs g'"
| close_fd: "ser_reach fuel pl tabs g \<Longrightarrow> a \<in> set (phones g) \<Longrightarrow> close_fd_body tabs fd a g = Some (v, g') \<Longrightarrow>
    ser_reach fuel pl tabs g'"

definition phones_ok :: "'e gateway \<Rightarrow> bool" where
  "phones_ok g = (il_ok (protos g) \<and> client_num g = int (length (phones g)) \<and>
     (\<forall>a \<in> set (phones g). \<exists>p. pget a g = Some p \<and> 0 \<le> pfd p \<and> config p = LOOP_CFG_WIFI))"

text \<open>The count depends on the protocols only.\<close>

definition keeps_phones :: "'e gateway \<Rightarrow> 'e gateway \<Rightarrow> bool" where
  "keeps_phones g g' = (protos g' = protos g \<and> client_num g' = client_num g)"

lemma keeps_refl [simp]: "keeps_phones g g"
  by (simp add: keeps_phones_def)

lemma keeps_trans: "keeps_phones g h \<Longrightarrow> keeps_phones h k \<Longrightarrow> keeps_phones g k"
  by (simp add: keeps_phones_def)

lemma keeps_call: "call f g = (x, g') \<Longrightarrow> keeps_phones g g'"
  by (auto simp: call_simp keeps_phones_def)

lemma keeps_msg: "msg_to_ser_cli ty s g = Some (r, g') \<Longrightarrow> keeps_phones g g'"
  by (auto simp: msg_to_ser_cli_queues keeps_phones_def)

lemma keeps_dispatch_lua: "dispatch_lua pl t g = Some (rb, g') \<Longrightarrow> keeps_phones g g'"
  by (auto simp: dispatch_lua_def Let_def dest: keeps_call split: prod.splits if_splits)

lemma keeps_pages: "page_loop pl c n i g = Some g' \<Longrightarrow> keeps_phones g g'"
proof (induction n arbitrary: i g)
  case (Suc n)
  obtain buff g1 where b: "call (songs_of_page pl i (case c of JString s \<Rightarrow> s | _ \<Rightarrow> [])) g = (buff, g1)"
    by fastforce
  with Suc.prems obtain r g2 where m: "msg_to_ser_cli 0 buff g1 = Some (r, g2)" "page_loop pl c n (i + 1) g2 = Some g'"
    by (cases c) (auto simp: Let_def split: bind_splits if_splits)
  show ?case
    using keeps_trans [OF keeps_trans [OF keeps_call [OF b] keeps_msg [OF m(1)]] Suc.IH [OF m(2)]] .
qed simp

lemma keeps_playlist: "parse_playlist pl s g = Some (r, g') \<Longrightarrow> keeps_phones g g'"
  by (auto simp: parse_playlist_def Let_def dest: keeps_pages split: option.splits bind_splits)

lemma keeps_items: "ser_items pl vs g = Some (on, g') \<Longrightarrow> keeps_phones g g'"
proof (induction vs arbitrary: g)
  case (Cons v vs)
  from Cons.prems obtain ret body g1 where d: "dispatch_lua pl (cjson_print pl v) g = Some ((ret, body), g1)"
    by (auto split: bind_splits)
  show ?case
  proof (cases "ret = 9")
    case True
    then show ?thesis using Cons.prems d by (auto dest: keeps_dispatch_lua)
  next
    case False
    with Cons.prems d obtain g2 where g2: "(if ret = 1 then map_option snd (msg_to_ser_cli 0 body g1)
        else if ret = 2 then map_option snd (parse_playlist pl body g1)
        else if ret = 3 then Some (snd (call (sair_text_search pl body) g1))
        else if ret = 4 then Some (snd (call (sair_tts_call pl body) g1))
        else Some g1) = Some g2" and rest: "ser_items pl vs g2 = Some (on, g')"
      by (auto split: bind_splits simp del: map_option_eq_Some)
    have "keeps_phones g1 g2"
      using g2 by (auto dest: keeps_msg keeps_playlist simp: call_simp keeps_phones_def split: if_splits)
    then show ?thesis
      using keeps_trans [OF keeps_trans [OF keeps_dispatch_lua [OF d]] Cons.IH [OF rest]] by blast
  qed
qed simp

lemma keeps_lines: "ser_lines pl buf n g = Some (on, b, m, g') \<Longrightarrow> keeps_phones g g'"
proof (induction pl buf n g arbitrary: on b m g' rule: ser_lines.induct)
  case (1 pl buf n g)
  obtain tmp b1 where k: "key_to_zero buf 0x0a = Some (tmp, b1)"
    using "1.prems" by (subst (asm) ser_lines.simps) (auto split: bind_splits)
  show ?case
  proof (cases "tmp = 0")
    case True
    then show ?thesis using "1.prems" k by (subst (asm) ser_lines.simps) simp
  next
    case False
    from "1.prems" k False obtain line on1 g1 where l: "cstr b1 = Some line"
      "ser_items pl (snd (get_json_list (cjson_parse pl) line)) g = Some (on1, g1)"
      "\<not> on1 \<and> g' = g1 \<or> on1 \<and> (\<exists>b2. mvforward b1 n tmp = Some b2 \<and> ser_lines pl b2 (n - tmp) g1 = Some (on, b, m, g'))"
      by (subst (asm) ser_lines.simps) (auto split: bind_splits if_splits)
    show ?thesis
    proof (cases on1)
      case True
      with l obtain b2 where b2: "mvforward b1 n tmp = Some b2" "ser_lines pl b2 (n - tmp) g1 = Some (on, b, m, g')"
        by blast
      have "keeps_phones g1 g'"
        using "1.IH" [OF k refl False l(1,2) refl _ b2(1) b2(2)] True by blast
      then show ?thesis using keeps_trans [OF keeps_items [OF l(2)]] by blast
    next
      case False
      then show ?thesis using l keeps_items by blast
    qed
  qed
qed

lemma keeps_feed: "ser_feed pl d pro g = Some (r, pro', g') \<Longrightarrow> keeps_phones g g' \<and>
    callbacks pro' = callbacks pro \<and> config pro' = config pro \<and> pfd pro' = pfd pro"
  by (auto simp: ser_feed_def Let_def reset_timer_def dest: keeps_lines split: bind_splits if_splits)

lemma keeps_recv: "tcp_ser_cli_recv pl pro g = Some (r, pro', g') \<Longrightarrow> keeps_phones g g' \<and>
    callbacks pro' = callbacks pro \<and> config pro' = config pro \<and> pfd pro' = pfd pro"
  unfolding tcp_ser_cli_recv_def Let_def
  by (auto split: prod.splits option.splits list.splits dest: keeps_call keeps_feed intro: keeps_trans)

lemma keeps_act: "tcp_ser_cli_act pl pro g = Some (r, pro', g') \<Longrightarrow> keeps_phones g g' \<and> pro' = pro"
  by (auto simp: tcp_ser_cli_act_def Let_def split: prod.splits bind_splits dest: keeps_call)

lemma keeps_send: "ser_send fuel pl fd b g = Some (r, g') \<Longrightarrow> keeps_phones g g'"
proof (induction fuel arbitrary: g)
  case (Suc fuel)
  obtain n g1 where c: "call (sock_send pl fd b) g = (n, g1)" by fastforce
  then show ?case
    using Suc keeps_call [OF c] by (auto split: if_splits intro: keeps_trans)
qed simp

lemma keeps_dispro: "tcp_ser_cli_dispro fuel pl msg pro g = Some (r, pro', g') \<Longrightarrow> keeps_phones g g' \<and> pro' = pro"
  by (auto simp: tcp_ser_cli_dispro_def dest: keeps_send split: bind_splits if_splits)

lemma phones_cong: "protos g' = protos g \<Longrightarrow> phones g' = phones g"
  by (simp add: phones_def is_phone_def [abs_def] pget_def)

lemma keeps_ok: "phones_ok g \<Longrightarrow> keeps_phones g g' \<Longrightarrow> phones_ok g'"
  using phones_cong [of g' g] by (simp add: phones_ok_def keeps_phones_def pget_def)

lemma on_proto_ok:
  assumes "phones_ok g" "pget a g = Some p" "keeps_phones g g'"
    and "callbacks p' = callbacks p" "config p' = config p" "pfd p' = pfd p"
  shows "phones_ok (pset a p' g')"
proof -
  have same: "protos g' = protos g" using assms(3) by (simp add: keeps_phones_def)
  have "is_phone (pset a p' g') b = is_phone g b" for b
    using assms(2,4) same by (simp add: is_phone_def pget_def pset_def)
  then have "is_phone (pset a p' g') = is_phone g" by blast
  moreover have "order (protos (pset a p' g')) = order (protos g)" using same by (simp add: pset_def)
  ultimately have ph: "phones (pset a p' g') = phones g" by (simp add: phones_def)
  have "il_ok (protos (pset a p' g'))"
    using assms(1) same by (auto simp: phones_ok_def il_ok_def pset_def)
  moreover have "\<exists>q. pget b (pset a p' g') = Some q \<and> 0 \<le> pfd q \<and> config q = LOOP_CFG_WIFI"
    if "b \<in> set (phones g)" for b
    using that assms same by (auto simp: phones_ok_def pget_def pset_def)
  ultimately show ?thesis
    using ph assms(1,3) by (simp add: phones_ok_def keeps_phones_def pset_def)
qed

lemma phone_on_proto:
  assumes "phones_ok g" "on_proto f a g = Some (r, g')"
    and "\<And>p r p' g'. f p g = Some (r, p', g') \<Longrightarrow> keeps_phones g g' \<and>
      callbacks p' = callbacks p \<and> config p' = config p \<and> pfd p' = pfd p"
  shows "phones_ok g'"
proof -
  from assms(2) obtain p p1 g1 where "pget a g = Some p" "f p g = Some (r, p1, g1)" "g' = pset a p1 g1"
    by (auto simp: on_proto_def split: bind_splits)
  then show ?thesis using assms(1,3) on_proto_ok by blast
qed

lemma phone_on_msg:
  assumes "phones_ok g" "on_msg (tcp_ser_cli_dispro fuel pl) m a g = Some (r, g')"
  shows "phones_ok g'"
proof -
  from assms(2) obtain p x p1 g1 where p: "pget a g = Some p"
    and d: "tcp_ser_cli_dispro fuel pl x p g = Some (r, p1, g1)" and g': "g' = pset a p1 g1"
    by (auto simp: on_msg_def split: bind_splits)
  show ?thesis unfolding g' using keeps_dispro [OF d] on_proto_ok [OF assms(1) p] by simp
qed

lemma accept_ok:
  assumes "phones_ok g" "tcp_ser_accept pl junk st0 pro g = Some (r, pro', g')"
  shows "phones_ok g'"
proof -
  obtain fd g1 where c: "call (sock_accept pl (pfd pro)) g = (fd, g1)" by fastforce
  then have ok: "phones_ok g1" by (rule keeps_ok [OF assms(1) keeps_call])
  show ?thesis
  proof (cases "0 \<le> fd")
    case False
    then show ?thesis using assms(2) c ok by (simp add: tcp_ser_accept_def)
  next
    case True
    let ?l = "protos g1" and ?p = "(ser_cli_proto pl fd [] junk st0 (g1\<lparr>client_num := client_num g1 + 1\<rparr>))
      \<lparr>active := (if fd > 0 then 1 else 0)\<rparr>"
    have g': "g' = g1\<lparr>client_num := client_num g1 + 1, protos := il_add ?p ?l\<rparr>"
      using assms(2) c True by (simp add: tcp_ser_accept_def add_tcp_ser_cli_def add_proto_def Let_def ser_cli_proto_def)
    have il: "il_ok ?l" using ok by (simp add: phones_ok_def)
    then have old: "b \<noteq> fresh ?l" if "b \<in> set (order ?l)" for b using that by (auto simp: il_ok_def)
    have same: "is_phone g' b = is_phone g1 b" if "b \<noteq> fresh ?l" for b
      using that by (simp add: g' is_phone_def pget_def il_add_def)
    have "is_phone g' (fresh ?l)"
      by (simp add: g' is_phone_def pget_def il_add_def ser_cli_proto_def)
    moreover have "filter (is_phone g') (order ?l) = phones g1"
      unfolding phones_def using old same by (intro filter_cong) auto
    moreover have "order (protos g') = order ?l @ [fresh ?l]" by (simp add: g' il_add_def)
    ultimately have ph: "phones g' = phones g1 @ [fresh ?l]" by (simp add: phones_def [of g'])
    have "\<exists>p. pget b g' = Some p \<and> 0 \<le> pfd p \<and> config p = LOOP_CFG_WIFI" if "b \<in> set (phones g')" for b
    proof (cases "b = fresh ?l")
      case True
      then show ?thesis using \<open>0 \<le> fd\<close> by (simp add: g' pget_def il_add_def ser_cli_proto_def)
    next
      case False
      then have "b \<in> set (phones g1)" "pget b g' = pget b g1"
        using that by (simp_all add: ph) (simp add: g' pget_def il_add_def)
      then show ?thesis using ok by (simp add: phones_ok_def)
    qed
    moreover have "client_num g' = int (length (phones g'))"
      unfolding ph using ok by (simp add: g' phones_ok_def)
    moreover have "il_ok (protos g')" using il_ok_add [OF il] by (simp add: g')
    ultimately show ?thesis by (simp add: phones_ok_def)
  qed
qed

lemma hangup_ok:
  assumes "phones_ok g" "is_phone g a" "a \<in> set (order (protos g))" "tabs K_SER_CLI = ser_cli_cbs fuel pl"
    and "delete_proto tabs a g = Some (r, g')"
  shows "phones_ok g'"
proof -
  have il: "il_ok (protos g)" using assms(1) by (simp add: phones_ok_def)
  have a: "a \<in> set (phones g)" using assms(2,3) by (simp add: phones_def)
  with assms(1) obtain p where p: "pget a g = Some p" "0 \<le> pfd p" "config p = LOOP_CFG_WIFI"
    by (auto simp: phones_ok_def)
  have k: "callbacks p = K_SER_CLI" using assms(2) p(1) by (simp add: is_phone_def)
  have a0: "a \<noteq> 0" using il assms(3) by (metis distinct.simps(2) il_ok_def)
  let ?g1 = "g\<lparr>protos := il_unlink a (protos g)\<rparr>"
  have pg: "pget a ?g1 = Some p" using p(1) by (simp add: pget_def il_unlink_def)
  let ?e = "snd (sock_close pl (pfd p) (ext g))"
  let ?q = "p\<lparr>pfd := -1, active := 0, recv_buf := (recv_buf p)\<lparr>payload := [], blen := 0\<rparr>\<rparr>"
  have close: "on_proto (tcp_ser_cli_close pl) a ?g1
      = Some (0, pset a ?q (?g1\<lparr>client_num := client_num g - 1, ext := ?e\<rparr>))"
    using p(2) by (simp add: on_proto_def pg tcp_ser_cli_close_def call_simp)
  have g': "g' = (let h = pset a ?q (?g1\<lparr>client_num := client_num g - 1, ext := ?e\<rparr>) in
      h\<lparr>protos := il_free a (protos h)\<rparr>)"
    using assms(3,5) a0 p(1)
    by (simp add: delete_proto_def table_of_def k assms(4) ser_cli_cbs_def close Let_def split: bind_splits)
  have num: "client_num g' = client_num g - 1" and pr: "order (protos g') = remove1 a (order (protos g))"
      "cell (protos g') = (cell (protos g))(a := None)" "fresh (protos g') = fresh (protos g)"
    by (simp_all add: g' pset_def il_unlink_def il_free_def)
  have "protos g' = il_drop a (protos g)"
    by (rule ilist.equality) (simp_all add: pr il_drop_def il_free_def il_unlink_def)
  then have il': "il_ok (protos g')" using il by (simp add: il_ok_drop)
  have same: "is_phone g' b = is_phone g b" if "b \<noteq> a" for b
    using that by (simp add: is_phone_def pget_def pr)
  have ph: "phones g' = remove1 a (phones g)"
  proof -
    have "distinct (order (protos g))" using il by (simp add: il_ok_def)
    then have "filter (is_phone g') (remove1 a (order (protos g))) = filter (is_phone g) (remove1 a (order (protos g)))"
      using same by (intro filter_cong) auto
    then show ?thesis by (simp add: phones_def pr filter_remove1)
  qed
  have d: "distinct (phones g)" using il by (simp add: phones_def il_ok_def)
  have "length (phones g) = Suc (length (phones g'))"
    using a by (simp add: ph length_remove1) (metis One_nat_def Suc_pred length_pos_if_in_set)
  moreover have "\<exists>q. pget b g' = Some q \<and> 0 \<le> pfd q \<and> config q = LOOP_CFG_WIFI" if "b \<in> set (phones g')" for b
  proof -
    have "b \<in> set (phones g)" "b \<noteq> a" using that d by (auto simp: ph)
    then show ?thesis using assms(1) by (auto simp: phones_ok_def pget_def pr)
  qed
  ultimately show ?thesis using assms(1) il' num by (auto simp: phones_ok_def)
qed

lemma phone_split: "a \<in> set (phones g) \<longleftrightarrow> a \<in> set (order (protos g)) \<and> is_phone g a"
  by (auto simp: phones_def)

lemma phone_config:
  assumes "phones_ok g" "a \<in> set (phones g)" "pget a g = Some p"
  shows "config p AND LOOP_CFG_RETRY = 0"
proof -
  have "config p = LOOP_CFG_WIFI" using assms by (auto simp: phones_ok_def)
  then show ?thesis by (simp add: LOOP_CFG_WIFI_def LOOP_CFG_RETRY_def)
qed

text \<open>C12: In every state that the event loop reaches with the listener and its connections, the number
  of phones that \<open>tsc_active_num\<close> reports is the number of connections in the registry, and each
  of them has an open socket: it is never closed and yet kept.\<close>

theorem phones_counted:
  assumes "ser_reach fuel pl tabs g" "tabs K_SER_CLI = ser_cli_cbs fuel pl"
  shows "tsc_active_num g = int (length (phones g)) \<and>
    (\<forall>a \<in> set (phones g). \<exists>p. pget a g = Some p \<and> 0 \<le> pfd p)"
proof -
  from assms(1) have "phones_ok g"
  proof induction
    case (boot g)
    then show ?case by (simp add: phones_ok_def)
  next
    case (accept g junk st0 pro r pro' g')
    then show ?case by (blast intro: accept_ok)
  next
    case (recv g a r g')
    show ?case by (rule phone_on_proto [OF recv.IH recv.hyps(3)]) (simp add: keeps_recv)
  next
    case (act g a r g')
    show ?case by (rule phone_on_proto [OF act.IH act.hyps(3)]) (use keeps_act in blast)
  next
    case (send g a m r g')
    then show ?case by (blast intro: phone_on_msg)
  next
    case (close g a r g')
    then have "delete_proto tabs a g = Some (r, g')"
      using phone_config [OF close.IH close.hyps(2)] by (auto simp: close_proto_def split: bind_splits)
    then show ?case using hangup_ok close.IH close.hyps(2) assms(2) phone_split by blast
  next
    case (close_fd g a fd v g')
    then have "g' = g \<or> (\<exists>r. delete_proto tabs a g = Some (r, g'))"
      using phone_config [OF close_fd.IH close_fd.hyps(2)]
      by (auto simp: close_fd_body_def split: bind_splits if_splits)
    then show ?case using hangup_ok close_fd.IH close_fd.hyps(2) assms(2) phone_split by blast
  qed
  then show ?thesis by (auto simp: phones_ok_def tsc_active_num_def)
qed

section \<open>Witnesses\<close>

lemma sim_send [simp]: "sock_send sim_platform fd b e = (int (length b), e\<lparr>sim_sent := b # sim_sent e\<rparr>)"
  by (simp add: sim_platform_def)

lemma ser_message_line_witness:
  "\<exists>m. msg_to_ser_cli 0 [0x68, 0x69] sim_gateway = Some (0, sim_gateway\<lparr>msgs := il_add m (msgs sim_gateway)\<rparr>) \<and>
    tcp_ser_cli_dispro 1 sim_platform m ((ex_proto [0x61] K_SER_CLI)\<lparr>pfd := 6, active := 1\<rparr>) sim_gateway =
      Some (0, (ex_proto [0x61] K_SER_CLI)\<lparr>pfd := 6, active := 1\<rparr>,
        snd (call (sock_send sim_platform 6 [0x68, 0x69, 0x0a]) sim_gateway))"
proof -
  let ?p = "(ex_proto [0x61] K_SER_CLI)\<lparr>pfd := 6, active := 1\<rparr>"
  obtain m where "msg_to_ser_cli 0 [0x68, 0x69] sim_gateway = Some (0, sim_gateway\<lparr>msgs := il_add m (msgs sim_gateway)\<rparr>)"
    and "\<forall>fuel pro g'. pfd pro = 6 \<and> 0 \<le> (6 :: int) \<and> active pro \<noteq> 0 \<longrightarrow>
      tcp_ser_cli_dispro (Suc fuel) sim_platform m pro g' =
        (if length [0x68, 0x69 :: byte] \<le> 1022
         then Some (0, pro, snd (call (sock_send sim_platform 6 ([0x68, 0x69] @ [0x0a])) g')) else None)"
    using ser_message_line [of "[0x68, 0x69]" sim_platform 6 0 sim_gateway] by auto
  moreover from this(2) have "tcp_ser_cli_dispro (Suc 0) sim_platform m ?p sim_gateway =
      Some (0, ?p, snd (call (sock_send sim_platform 6 [0x68, 0x69, 0x0a]) sim_gateway))"
    by (auto dest: spec [of _ 0] spec [of _ ?p])
  ultimately show ?thesis by (intro exI [of _ m]) simp
qed

definition ex_ser :: st_proto where
  "ex_ser = (ex_proto [0x61] K_SER_CLI)\<lparr>recv_buf := \<lparr>payload = [0x7b] @ replicate 9 0x55, max_len = 4096, blen = 1, bbegin = 0\<rparr>\<rparr>"


definition ex_ser_tables :: "sim tables" where
  "ex_ser_tables k = ser_cli_cbs 1 sim_platform"

lemma phones_counted_witness:
  "\<exists>g. tcp_ser_accept sim_platform (replicate 4096 0) (sim_status sim_start) (ex_proto [0x61] K_TCP_SER) sim_gateway
      = Some (0, ex_proto [0x61] K_TCP_SER, g) \<and>
    phones g = [1] \<and> tsc_active_num g = int (length (phones g))"
proof -
  let ?pl = sim_platform and ?p = "ex_proto [0x61] K_TCP_SER" and ?st = "sim_status sim_start"
  obtain g where g: "tcp_ser_accept ?pl (replicate 4096 0) ?st ?p sim_gateway = Some (0, ?p, g)"
    by (simp add: tcp_ser_accept_def call_simp sim_platform_def)
  have "phones sim_gateway = []" "client_num sim_gateway = 0" "il_ok (protos sim_gateway)"
    by (simp_all add: phones_def sim_gateway_def no_nodes_def il_ok_def)
  then have "ser_reach 1 ?pl ex_ser_tables sim_gateway" by (intro ser_reach.boot)
  from ser_reach.accept [OF this g] have "ser_reach 1 ?pl ex_ser_tables g" .
  from phones_counted [OF this] have "tsc_active_num g = int (length (phones g))" by (simp add: ex_ser_tables_def)
  moreover have "phones g = [1]"
    using g by (auto simp: tcp_ser_accept_def call_simp add_tcp_ser_cli_def add_proto_def ser_cli_proto_def Let_def
        phones_def il_add_def is_phone_def pget_def sim_platform_def sim_gateway_def no_nodes_def)
  ultimately show ?thesis using g by blast
qed

end
