(* ===== verification/Speech.thy ===== *)
theory Speech
  imports Tcp_Server
begin

text \<open>
  Spoken commands, \<open>app/hp_speech.c\<close>: a script turns a command into an answer to speak and a text for
  the devices, another one turns that text into the lines that go to the phones. A text of a script
  comes back in an array of 1024 bytes.
\<close>

section \<open>The commands\<close>

definition dispatch_speech_villa :: "'e platform \<Rightarrow> byte list \<Rightarrow> 'e gateway \<Rightarrow> int \<times> 'e gateway" where
  "dispatch_speech_villa pl jstr g = (0, snd (call (lua_fun pl (bytes ''speech_to_villa'') jstr) g))"

fun speech_lines :: "byte list list \<Rightarrow> 'e gateway \<Rightarrow> 'e gateway option" where
  "speech_lines [] g = Some g"
| "speech_lines (l # ls) g =
     do { g1 \<leftarrow> (if check_json_string l \<noteq> 0 then map_option snd (msg_to_ser_cli 0 l g) else Some g);
          speech_lines ls g1 }"

definition dispatch_speech_halo :: "'e platform \<Rightarrow> int \<Rightarrow> byte list \<Rightarrow> 'e gateway \<Rightarrow> (int \<times> 'e gateway) option" where
  "dispatch_speech_halo pl cmd_no jstr g =
     do { let (body, g1) = call (speech_to_halo pl cmd_no jstr) g;
          buf \<leftarrow> strncpy (replicate 1024 0) body 1024;
          s \<leftarrow> cstr buf;
          (lines, _, _) \<leftarrow> foreach_line buf (int (length s));
          g2 \<leftarrow> speech_lines lines g1;
          Some (0, g2) }"

definition parse_speech_cmd :: "'e platform \<Rightarrow> byte list \<Rightarrow> 'e gateway \<Rightarrow> (int \<times> 'e gateway) option" where
  "parse_speech_cmd pl text g =
     do { let ((cmd_no, bd, tt), g1) = call (speech_dispatch pl text) g;
          bb \<leftarrow> strncpy (replicate 1024 0) bd 1024;
          tb \<leftarrow> strncpy (replicate 1024 0) tt 1024;
          body \<leftarrow> cstr bb;
          tts \<leftarrow> cstr tb;
          let g2 = (if tts \<noteq> []
            then snd (call (sair_tts_call pl tts) (snd (call (splayer_set_loop_mode pl LOOP_ONLY_ONE) g1)))
            else g1);
          let g3 = snd (dispatch_speech_villa pl body g2);
          (_, g4) \<leftarrow> dispatch_speech_halo pl cmd_no body g3;
          Some (0, g4) }"

section \<open>From a command to the phones\<close>

definition phone_msg :: "byte list \<Rightarrow> st_msg" where
  "phone_msg s = \<lparr>m_type = 0, m_content = strncpy_bytes s 1024, m_target = bytes ''tcp_ser_cli'',
     m_length = (if length s > 1024 then 1024 else int (length s))\<rparr>"

lemma speech_lines_queue:
  "speech_lines ls g = Some (g\<lparr>msgs := fold (\<lambda>l q. il_add (phone_msg l) q) (filter (\<lambda>l. check_json_string l \<noteq> 0) ls) (msgs g)\<rparr>)"
proof (induction ls arbitrary: g)
  case (Cons l ls)
  then show ?case by (simp add: msg_to_ser_cli_queues phone_msg_def)
qed simp

text \<open>What a spoken command does to the outside: it speaks the answer, tells the villa script and asks for
  the lines.\<close>

definition spoken :: "'e platform \<Rightarrow> int \<Rightarrow> byte list \<Rightarrow> byte list \<Rightarrow> 'e \<Rightarrow> byte list \<times> 'e" where
  "spoken pl n body tts e =
     (let e1 = (if tts \<noteq> [] then snd (sair_tts_call pl tts (snd (splayer_set_loop_mode pl LOOP_ONLY_ONE e))) else e)
      in speech_to_halo pl n body (snd (lua_fun pl (bytes ''speech_to_villa'') body e1)))"

text \<open>C33: A spoken command reaches the phones: the lines of the script that hold a closed object are queued
  for them in their order, the others are dropped, and nothing else of the gateway changes. An
  answer of 1024 bytes or more has no terminator and is read behind its array.\<close>

theorem speech_reaches_phones:
  assumes "speech_dispatch pl text (ext g) = ((n, body, tts), e)" "0 \<notin> set body" "0 \<notin> set tts"
    and "spoken pl n body tts e = (text_of ls @ rest, e2)"
    and "\<forall>l \<in> set ls. 0 \<notin> set l \<and> 0x0a \<notin> set l" "0 \<notin> set rest" "0x0a \<notin> set rest"
  shows "parse_speech_cmd pl text g =
    (if length body < 1024 \<and> length tts < 1024 \<and> length (text_of ls @ rest) < 1024
     then Some (0, g\<lparr>ext := e2, msgs := fold (\<lambda>l q. il_add (phone_msg l) q) (filter (\<lambda>l. check_json_string l \<noteq> 0) ls) (msgs g)\<rparr>)
     else None)"
proof -
  have cp: "strncpy (replicate 1024 0) s 1024 = Some (strncpy_bytes s 1024)" for s
    by (simp add: strncpy_def bput_def)
  let ?out = "text_of ls @ rest"
  have z: "0 \<notin> set ?out" using assms(5,6) zero_text_of [of ls] by auto
  show ?thesis
  proof (cases "length body < 1024 \<and> length tts < 1024")
    case True
    let ?g1 = "g\<lparr>ext := e\<rparr>"
    let ?g2 = "if tts \<noteq> [] then snd (call (sair_tts_call pl tts) (snd (call (splayer_set_loop_mode pl LOOP_ONLY_ONE) ?g1))) else ?g1"
    let ?g3 = "snd (dispatch_speech_villa pl body ?g2)"
    have g3: "?g3 = g\<lparr>ext := ext ?g3\<rparr>" "speech_to_halo pl n body (ext ?g3) = (?out, e2)"
      using assms(4) by (auto simp: dispatch_speech_villa_def call_simp spoken_def Let_def)
    have run: "parse_speech_cmd pl text g = map_option (\<lambda>(_, g4). (0, g4)) (dispatch_speech_halo pl n body ?g3)"
      using True assms(1-3) by (simp add: parse_speech_cmd_def call_def cp cstr_strncpy Let_def split: bind_splits)
    show ?thesis
    proof (cases "length ?out < 1024")
      case short: True
      obtain m where m: "1024 - length ?out = Suc m" using short by (metis Suc_diff_Suc)
      have buf: "strncpy_bytes ?out 1024 = text_of ls @ rest @ 0 # replicate m 0"
        using short m by (simp add: strncpy_bytes_def)
      have "foreach_line (strncpy_bytes ?out 1024) (int (length ?out))
          = Some (ls, rest @ 0 # replicate (length (text_of ls)) 0 @ replicate m 0, int (length rest))"
        unfolding buf by (rule foreach_line_text [OF assms(5-7)])
      then have "dispatch_speech_halo pl n body ?g3
          = Some (0, ?g3\<lparr>ext := e2, msgs := fold (\<lambda>l q. il_add (phone_msg l) q) (filter (\<lambda>l. check_json_string l \<noteq> 0) ls) (msgs ?g3)\<rparr>)"
        using g3(2) short cstr_strncpy [OF z, of 1024] by (simp add: dispatch_speech_halo_def call_def cp speech_lines_queue)
      then show ?thesis using True short run by (subst (asm) (1 2) g3(1)) simp
    next
      case False
      then have "dispatch_speech_halo pl n body ?g3 = None"
        using g3(2) cstr_strncpy [OF z, of 1024] by (simp add: dispatch_speech_halo_def call_def cp)
      then show ?thesis using False run by simp
    qed
  next
    case False
    then have "parse_speech_cmd pl text g = None"
      using assms(1-3) by (auto simp: parse_speech_cmd_def call_def cp cstr_strncpy split: bind_splits)
    then show ?thesis using False by auto
  qed
qed

lemma speech_reaches_phones_witness:
  "parse_speech_cmd sim_platform (bytes ''{}'' @ [0x0a] @ bytes ''?'' @ [0x0a]) sim_gateway =
    Some (0, sim_gateway\<lparr>msgs := il_add (phone_msg (bytes ''{}'')) no_nodes\<rparr>)"
proof -
  let ?t = "bytes ''{}'' @ [0x0a] @ bytes ''?'' @ [0x0a]"
  have t: "?t = text_of [bytes ''{}'', bytes ''?''] @ []" "0 \<notin> set ?t" by code_simp+
  have l: "\<forall>l \<in> set [bytes ''{}'', bytes ''?'']. 0 \<notin> set l \<and> 0x0a \<notin> set l" by code_simp
  have d: "speech_dispatch sim_platform ?t (ext sim_gateway) = ((0, ?t, []), sim_start)"
    by (simp add: sim_platform_def sim_gateway_def)
  have s: "spoken sim_platform 0 ?t [] sim_start = (text_of [bytes ''{}'', bytes ''?''] @ [], sim_start)"
    unfolding t(1) [symmetric] by (simp add: spoken_def sim_platform_def)
  have f: "filter (\<lambda>l. check_json_string l \<noteq> 0) [bytes ''{}'', bytes ''?''] = [bytes ''{}'']" by code_simp
  have e: "sim_gateway\<lparr>ext := sim_start\<rparr> = sim_gateway" "msgs sim_gateway = no_nodes" by (simp_all add: sim_gateway_def)
  show ?thesis
    using speech_reaches_phones [OF d t(2) _ s l] unfolding f by (simp add: e bytes_def)
qed

end
