(* ===== verification/Http_Post.thy ===== *)
theory Http_Post
  imports Utf8 Registry
begin

text \<open>
  The HTTP requests of the gateway, \<open>app/halo_http.c\<close>: lists of headers and form fields, the list of
  requests, the form body, and the thread that sends the requests one after the other, each until
  its callback is satisfied. A list is the sequence of its nodes, without the head. Sending one
  request through the ghttp library is one call of the platform: None where a step of the library
  failed, otherwise the status code and the body of the answer. The caller that starts the thread
  only polls it, so the thread runs as one function.
\<close>

section \<open>Headers and form fields\<close>

text \<open>The search of \<open>__add_hash\<close>; comparing with a freed key is undefined.\<close>

fun has_key :: "st_hash list \<Rightarrow> byte list \<Rightarrow> bool option" where
  "has_key [] k = Some False"
| "has_key (h # hs) k = do { t \<leftarrow> hs_key h; if k = t then Some True else has_key hs k }"

definition add_hash_node :: "st_hash list option \<Rightarrow> st_hash \<Rightarrow> (int \<times> st_hash list option) option" where
  "add_hash_node heads h =
     (case heads of
        None \<Rightarrow> Some (-1, None)
      | Some hs \<Rightarrow> do {
          k \<leftarrow> hs_key h;
          found \<leftarrow> has_key hs k;
          Some (0, Some (if found then hs else hs @ [h])) })"

definition add_hash :: "st_hash list option \<Rightarrow> byte list \<Rightarrow> byte list \<Rightarrow> (int \<times> st_hash list option) option" where
  "add_hash heads key val = add_hash_node heads \<lparr>hs_key = Some key, hs_val = Some val\<rparr>"

text \<open>\<open>del_hash\<close> of the node at a place of its list; None is the null pointer.\<close>

definition del_hash :: "nat option \<Rightarrow> st_hash list \<Rightarrow> int \<times> st_hash list" where
  "del_hash i hs = (case i of None \<Rightarrow> (0, hs) | Some i \<Rightarrow> (0, take i hs @ drop (Suc i) hs))"

text \<open>\<open>free_hash\<close> always finds its current node in front.\<close>

fun free_hash_loop :: "nat \<Rightarrow> st_hash list \<Rightarrow> st_hash list" where
  "free_hash_loop 0 hs = hs"
| "free_hash_loop (Suc n) hs = free_hash_loop n (snd (del_hash (Some 0) hs))"

definition free_hash :: "st_hash list option \<Rightarrow> int \<times> st_hash list option" where
  "free_hash heads = (case heads of None \<Rightarrow> (0, None) | Some hs \<Rightarrow> (0, Some (free_hash_loop (length hs) hs)))"

section \<open>Requests\<close>

definition MAX_URL_LEN :: nat where "MAX_URL_LEN = 1024"

definition add_post_node :: "st_post list \<Rightarrow> st_post \<Rightarrow> int \<times> st_post list" where
  "add_post_node posts post =
     (0, if \<exists>p \<in> set posts. take MAX_URL_LEN (po_uri p) = take MAX_URL_LEN (po_uri post) \<and>
              po_payload post = po_payload p
         then posts else posts @ [post])"

text \<open>A null text is None.\<close>

definition add_post :: "st_post list \<Rightarrow> byte list option \<Rightarrow> st_hash list option \<Rightarrow> byte list option \<Rightarrow> post_cb \<Rightarrow>
    int \<times> st_post list" where
  "add_post posts url heads pay cb =
     (case (pay, url) of
        (Some b, Some u) \<Rightarrow> add_post_node posts \<lparr>po_uri = u, po_heads = heads, po_payload = b, po_cb = cb\<rparr>
      | _ \<Rightarrow> (-1, posts))"

text \<open>\<open>later\<close> are the requests behind the given one, which the new request comes to stand in front of.\<close>

definition add_post_dynamic :: "st_post list \<Rightarrow> byte list option \<Rightarrow> st_hash list option \<Rightarrow> byte list option \<Rightarrow>
    post_cb \<Rightarrow> int \<times> st_post list" where
  "add_post_dynamic later url heads pay cb =
     (case (pay, url) of
        (Some b, Some u) \<Rightarrow> (0, \<lparr>po_uri = u, po_heads = heads, po_payload = b, po_cb = cb\<rparr> # later)
      | _ \<Rightarrow> (-1, later))"

text \<open>\<open>__bodies_to_payload\<close> ignores a couple that does not fit, and frees the texts.\<close>

fun bodies_to_payload :: "cbuf \<Rightarrow> st_hash list \<Rightarrow> int \<Rightarrow> (cbuf \<times> st_hash list) option" where
  "bodies_to_payload pay [] len = Some (pay, [])"
| "bodies_to_payload pay (h # hs) len =
     do { k \<leftarrow> hs_key h;
          v \<leftarrow> hs_val h;
          (_, p) \<leftarrow> add_x_www_couple pay (k @ [0]) (v @ [0]) len;
          (q, rest) \<leftarrow> bodies_to_payload p hs len;
          Some (q, h\<lparr>hs_key := None, hs_val := None\<rparr> # rest) }"

fun bodies_size :: "st_hash list \<Rightarrow> nat option" where
  "bodies_size [] = Some 0"
| "bodies_size (h # hs) =
     do { k \<leftarrow> hs_key h;
          v \<leftarrow> hs_val h;
          m \<leftarrow> sizeof_x_www_format (k @ [0]);
          n \<leftarrow> sizeof_x_www_format (v @ [0]);
          r \<leftarrow> bodies_size hs;
          Some (m + n + 1 + r) }"

text \<open>The body of a form, which both \<open>add_post_hash_bodies\<close> and \<open>add_post_hash_bodies_dy\<close> build: its
  text and the fields that are left. The size is passed on as an \<open>int\<close>.\<close>

definition form_body :: "st_hash list \<Rightarrow> (byte list \<times> st_hash list) option" where
  "form_body bodies =
     do { len \<leftarrow> bodies_size bodies;
          l \<leftarrow> int32 (int len);
          (b, left) \<leftarrow> bodies_to_payload (replicate len 0) bodies l;
          s \<leftarrow> cstr b;
          Some (s, left) }"

definition add_post_hash_bodies :: "st_post list \<Rightarrow> byte list option \<Rightarrow> st_hash list option \<Rightarrow> st_hash list \<Rightarrow>
    post_cb \<Rightarrow> ((int \<times> st_post list) \<times> st_hash list) option" where
  "add_post_hash_bodies posts url heads bodies cb =
     do { (s, left) \<leftarrow> form_body bodies; Some (add_post posts url heads (Some s) cb, left) }"

definition add_post_hash_bodies_dy :: "st_post list \<Rightarrow> byte list option \<Rightarrow> st_hash list option \<Rightarrow> st_hash list \<Rightarrow>
    post_cb \<Rightarrow> ((int \<times> st_post list) \<times> st_hash list) option" where
  "add_post_hash_bodies_dy later url heads bodies cb =
     do { (s, left) \<leftarrow> form_body bodies; Some (add_post_dynamic later url heads (Some s) cb, left) }"

section \<open>The thread\<close>

definition init_http :: "st_post list option \<Rightarrow> int \<Rightarrow> int \<Rightarrow> addr option \<Rightarrow> 'e gateway \<Rightarrow> int \<times> 'e gateway" where
  "init_http posts retry detach end_cb g =
     (0, g\<lparr>http_handle := Some \<lparr>ht_posts = posts, ht_retry = retry, ht_detach = detach, ht_end_cb = end_cb,
        ht_busy = 1\<rparr>\<rparr>)"

fun wifi_wait :: "nat \<Rightarrow> 'e platform \<Rightarrow> 'e gateway \<Rightarrow> 'e gateway option" where
  "wifi_wait 0 pl g = None"
| "wifi_wait (Suc n) pl g =
     (let g1 = snd (call (wait_us pl 1000000) g) in
      if wifi_connected pl (ext g1) then Some g1 else wifi_wait n pl g1)"

text \<open>A request callback: it gets the status code, the answer in its block of \<open>MAX_BODY_LEN\<close> bytes and
  the requests behind its own, which it may extend.\<close>

type_synonym 'e post_fn = "int \<Rightarrow> cbuf \<Rightarrow> st_post list \<Rightarrow> 'e gateway \<Rightarrow> (int \<times> st_post list \<times> 'e gateway) option"

definition MAX_BODY_LEN :: nat where "MAX_BODY_LEN = 1024"

definition http_headers :: "st_hash list option \<Rightarrow> (byte list \<times> byte list) list option" where
  "http_headers heads =
     (case heads of
        None \<Rightarrow> Some [(bytes ''Content-Type'', bytes ''application/x-www-form-urlencoded'')]
      | Some hs \<Rightarrow> those (map (\<lambda>h. do { k \<leftarrow> hs_key h; v \<leftarrow> hs_val h; Some (k, v) }) hs))"

text \<open>The attempts for one request; the first result tells whether the thread goes on, \<open>tries\<close> counts
  from zero.\<close>

fun post_tries :: "nat \<Rightarrow> 'e platform \<Rightarrow> (post_cb \<Rightarrow> 'e post_fn) \<Rightarrow> int \<Rightarrow> st_post \<Rightarrow> int \<Rightarrow> st_post list \<Rightarrow>
    'e gateway \<Rightarrow> (bool \<times> st_post list \<times> 'e gateway) option" where
  "post_tries 0 pl fns retry p tries later g = None"
| "post_tries (Suc n) pl fns retry p tries later g =
     (if \<not> wifi_connected pl (ext g) then Some (False, later, g)
      else if retry > 0 \<and> tries + 1 > retry then Some (False, later, g)
      else do {
        let tries1 = (if retry > 0 then tries + 1 else tries);
        let g1 = snd (call (wait_us pl 100000) g);
        hdr \<leftarrow> http_headers (po_heads p);
        let (r, g2) = call (http_post pl (po_uri p) hdr (po_payload p)) g1;
        (case r of
           None \<Rightarrow> post_tries n pl fns retry p tries1 later g2
         | Some (code, answer) \<Rightarrow>
             if code \<noteq> 200 then post_tries n pl fns retry p tries1 later g2
             else do {
               (ret, later1, g3) \<leftarrow> fns (po_cb p) code (strncpy_bytes answer MAX_BODY_LEN) later g2;
               if ret \<noteq> 0 then post_tries n pl fns retry p tries1 later1 g3
               else Some (True, later1, g3) }) })"

text \<open>The loop over the requests: \<open>n\<close> bounds their number, \<open>k\<close> the attempts.\<close>

fun http_loop :: "nat \<Rightarrow> nat \<Rightarrow> 'e platform \<Rightarrow> (post_cb \<Rightarrow> 'e post_fn) \<Rightarrow> int \<Rightarrow> st_post list \<Rightarrow> st_post list \<Rightarrow>
    'e gateway \<Rightarrow> (bool \<times> st_post list \<times> 'e gateway) option" where
  "http_loop n k pl fns retry sent [] g = Some (True, sent, g)"
| "http_loop 0 k pl fns retry sent (p # later) g = None"
| "http_loop (Suc n) k pl fns retry sent (p # later) g =
     do { (ok, later1, g1) \<leftarrow> post_tries k pl fns retry p 0 later g;
          if ok then http_loop n k pl fns retry (sent @ [p]) later1 g1
          else Some (False, sent @ p # later1, g1) }"

definition set_posts :: "st_post list \<Rightarrow> 'e gateway \<Rightarrow> 'e gateway" where
  "set_posts ps g = g\<lparr>http_handle := map_option (\<lambda>h. h\<lparr>ht_posts := Some ps\<rparr>) (http_handle g)\<rparr>"

text \<open>\<open>__http_proc\<close> with the value it exits with; \<open>ends\<close> are the end callbacks.\<close>

definition http_proc :: "nat \<Rightarrow> 'e platform \<Rightarrow> (post_cb \<Rightarrow> 'e post_fn) \<Rightarrow> (addr \<Rightarrow> 'e gateway \<Rightarrow> 'e gateway) \<Rightarrow>
    'e gateway \<Rightarrow> (int \<times> 'e gateway) option" where
  "http_proc fuel pl fns ends g =
     do { h \<leftarrow> http_handle g;
          g1 \<leftarrow> wifi_wait fuel pl g;
          posts \<leftarrow> ht_posts h;
          (ok, all, g2) \<leftarrow> http_loop fuel fuel pl fns (ht_retry h) [] posts g1;
          let g3 = set_posts all g2;
          if \<not> ok then Some (-1, g3)
          else (case ht_end_cb h of None \<Rightarrow> Some (0, g3) | Some c \<Rightarrow> Some (0, ends c g3)) }"

definition halo_http_start :: "'e gateway \<Rightarrow> (bool \<times> 'e gateway)" where
  "halo_http_start g =
     (case http_handle g of
        None \<Rightarrow> (False, g)
      | Some h \<Rightarrow> (True, g\<lparr>http_handle := Some (h\<lparr>ht_busy := 1\<rparr>)\<rparr>))"

text \<open>\<open>halo_http_result\<close>; the argument is what the thread left, None while it runs.\<close>

definition halo_http_result :: "int option \<Rightarrow> int" where
  "halo_http_result t = (case t of None \<Rightarrow> 1 | Some v \<Rightarrow> v)"

text \<open>\<open>deinit_http\<close> writes to the handle before it looks whether there is one. The headers of a request
  lose their nodes.\<close>

definition deinit_http :: "'e gateway \<Rightarrow> (int \<times> 'e gateway) option" where
  "deinit_http g = do { _ \<leftarrow> http_handle g; Some (0, g\<lparr>http_handle := None\<rparr>) }"

definition is_http_busy :: "'e gateway \<Rightarrow> bool" where
  "is_http_busy g = (http_handle g \<noteq> None)"

section \<open>The form body\<close>

text \<open>What a form should be: the fields with a key and a value, in order, between separators.\<close>

definition form_nodes :: "(byte list \<times> byte list) list \<Rightarrow> st_hash list" where
  "form_nodes fs = map (\<lambda>(k, v). \<lparr>hs_key = Some k, hs_val = Some v\<rparr>) fs"

definition form_join :: "byte list \<Rightarrow> byte list \<Rightarrow> byte list \<Rightarrow> byte list" where
  "form_join s k v = (if k = [] \<or> v = [] then s else s @ (if s = [] then [] else [0x26]) @ www_pair k v)"

fun form_text :: "byte list \<Rightarrow> (byte list \<times> byte list) list \<Rightarrow> byte list" where
  "form_text s [] = s"
| "form_text s ((k, v) # fs) = form_text (form_join s k v) fs"

fun form_need :: "(byte list \<times> byte list) list \<Rightarrow> nat" where
  "form_need [] = 0"
| "form_need ((k, v) # fs) = length (www_enc k) + length (www_enc v) + 3 + form_need fs"

text \<open>Reading a form.\<close>

fun split_amp :: "byte list \<Rightarrow> byte list list" where
  "split_amp [] = [[]]"
| "split_amp (c # cs) =
     (if c = 0x26 then [] # split_amp cs
      else case split_amp cs of [] \<Rightarrow> [[c]] | p # ps \<Rightarrow> (c # p) # ps)"

definition form_field :: "byte list \<Rightarrow> byte list \<times> byte list" where
  "form_field p = (www_dec (takeWhile (\<lambda>c. c \<noteq> 0x3d) p), www_dec (drop 1 (dropWhile (\<lambda>c. c \<noteq> 0x3d) p)))"

definition form_fields :: "byte list \<Rightarrow> (byte list \<times> byte list) list" where
  "form_fields s = (if s = [] then [] else map form_field (split_amp s))"

lemma split_amp_nonempty: "split_amp s \<noteq> []"
  by (induction s) (auto split: list.splits)

lemma split_amp_one: "0x26 \<notin> set s \<Longrightarrow> split_amp s = [s]"
  by (induction s) auto

lemma split_amp_append: "split_amp (s @ 0x26 # t) = split_amp s @ split_amp t"
  by (induction s) (auto split: list.splits simp: split_amp_nonempty)

lemma form_field_pair: "form_field (www_pair k v) = (k, v)"
proof -
  have "takeWhile (\<lambda>c. c \<noteq> 0x3d) (www_pair k v) = www_enc k"
    "dropWhile (\<lambda>c. c \<noteq> 0x3d) (www_pair k v) = 0x3d # www_enc v"
    using www_enc_set [of _ k] by (auto simp: www_pair_def takeWhile_append dropWhile_append)
  then show ?thesis by (simp add: form_field_def)
qed

lemma pair_clean: "0x26 \<notin> set (www_pair k v)" "0 \<notin> set (www_pair k v)" "www_pair k v \<noteq> []"
  using www_enc_set [of _ k] www_enc_set [of _ v] by (auto simp: www_pair_def)

lemma form_join_fields: "form_fields (form_join s k v) = form_fields s @ filter (\<lambda>(k, v). k \<noteq> [] \<and> v \<noteq> []) [(k, v)]"
  by (auto simp: form_join_def form_fields_def pair_clean split_amp_append split_amp_one form_field_pair)

lemma form_text_fields: "form_fields (form_text s fs) = form_fields s @ filter (\<lambda>(k, v). k \<noteq> [] \<and> v \<noteq> []) fs"
  by (induction s fs rule: form_text.induct) (auto simp: form_join_fields)

lemma bodies_size_form:
  assumes "\<forall>(k, v) \<in> set fs. 0 \<notin> set k \<and> 0 \<notin> set v"
  shows "bodies_size (form_nodes fs) = Some (form_need fs)"
proof -
  have fold: "foldl (\<lambda>len c. if c = 0x20 \<or> www_plain c then len + 1 else len + 3) n b = n + length (www_enc b)" for n b
    by (induction b arbitrary: n) (auto simp: www_char_def)
  have "0 \<notin> set b \<Longrightarrow> sizeof_x_www_format (b @ [0]) = Some (length (www_enc b) + 1)" for b
    by (simp add: sizeof_x_www_format_def cstr_append fold)
  then show ?thesis using assms by (induction fs) (auto simp: form_nodes_def)
qed

lemma add_couple_join:
  assumes "0 \<notin> set k" "0 \<notin> set v" "0 \<notin> set s" "length s + (length (www_enc k) + length (www_enc v) + 3) \<le> len"
  shows "\<exists>r. add_x_www_couple (s @ replicate (len - length s) 0) (k @ [0]) (v @ [0]) (int len) =
    Some (r, form_join s k v @ replicate (len - length (form_join s k v)) 0)"
proof (cases "k = [] \<or> v = []")
  case True
  then show ?thesis using assms by (auto simp: add_x_www_couple_def form_join_def cstr_append)
next
  case False
  let ?t = "(if s = [] then [] else [0x26]) @ www_pair k v"
  have t: "length s + length ?t < len" using assms(4) by (simp add: www_pair_def)
  define n where "n = len - length s"
  have n: "length (s @ replicate n (0 :: byte)) = len" using assms(4) by (simp add: n_def)
  obtain d0 where d0: "(if s \<noteq> [] then wr (s @ replicate n 0) (length s) 0x26 else Some (s @ replicate n 0)) = Some d0"
      "d0 = (s @ (if s = [] then [] else [0x26])) @ replicate (n - (if s = [] then 0 else 1)) 0"
  proof (cases n)
    case 0
    then show ?thesis using t by (simp add: n_def)
  next
    case (Suc m)
    then show ?thesis using that by (auto simp: wr_def list_update_append)
  qed
  let ?pre = "s @ (if s = [] then [] else [0x26 :: byte])"
  have pre: "(if s \<noteq> [] then length s + 1 else 0) = length ?pre" by simp
  have put: "www_put d0 (length ?pre) (int len) (www_pair k v)
      = Some (True, ?pre @ www_pair k v @ drop (length (www_pair k v)) (replicate (n - (if s = [] then 0 else 1)) 0),
          length ?pre + length (www_pair k v))"
    unfolding d0(2) using t n by (intro www_put_fits) (auto simp: n_def)
  have cs: "cstr (s @ replicate n 0) = Some s"
  proof -
    obtain m where "n = Suc m" using t by (cases n) (auto simp: n_def)
    then show ?thesis using assms(3) by (simp add: cstr_append)
  qed
  have "0 < int len" using t by simp
  then have "add_x_www_couple (s @ replicate n 0) (k @ [0]) (v @ [0]) (int len)
      = Some (0, ?pre @ www_pair k v @ drop (length (www_pair k v)) (replicate (n - (if s = [] then 0 else 1)) 0))"
    using add_couple_put [of "k @ [0]" k "v @ [0]" v "int len" "s @ replicate n 0" s] False cs assms(1,2) put
    unfolding d0(1) pre by (simp add: cstr_append)
  then show ?thesis using False by (auto simp: form_join_def n_def)
qed

lemma form_join_clean: "0 \<notin> set s \<Longrightarrow> 0 \<notin> set (form_join s k v)"
  by (simp add: form_join_def pair_clean)

lemma form_join_length: "length (form_join s k v) \<le> length s + (length (www_enc k) + length (www_enc v) + 2)"
  by (simp add: form_join_def www_pair_def)

lemma bodies_to_payload_form:
  assumes "\<forall>(k, v) \<in> set fs. 0 \<notin> set k \<and> 0 \<notin> set v" "0 \<notin> set s" "length s + form_need fs \<le> len"
  shows "bodies_to_payload (s @ replicate (len - length s) 0) (form_nodes fs) (int len) =
    Some (form_text s fs @ replicate (len - length (form_text s fs)) 0,
      map (\<lambda>_. \<lparr>hs_key = None, hs_val = None\<rparr>) fs)"
  using assms
proof (induction fs arbitrary: s)
  case Nil
  then show ?case by (simp add: form_nodes_def)
next
  case (Cons f fs)
  obtain k v where f: "f = (k, v)" by fastforce
  obtain r where r: "add_x_www_couple (s @ replicate (len - length s) 0) (k @ [0]) (v @ [0]) (int len) =
      Some (r, form_join s k v @ replicate (len - length (form_join s k v)) 0)"
    using add_couple_join [of k v s len] Cons.prems f by auto
  have "bodies_to_payload (form_join s k v @ replicate (len - length (form_join s k v)) 0) (form_nodes fs) (int len) =
      Some (form_text (form_join s k v) fs @ replicate (len - length (form_text (form_join s k v) fs)) 0,
        map (\<lambda>_. \<lparr>hs_key = None, hs_val = None\<rparr>) fs)"
    using Cons.prems f form_join_length [of s k v] by (intro Cons.IH) (auto simp: form_join_clean)
  then show ?case using r f by (simp add: form_nodes_def)
qed

lemma form_text_bounds:
  "0 \<notin> set s \<Longrightarrow> 0 \<notin> set (form_text s fs)" "length (form_text s fs) + length fs \<le> length s + form_need fs"
proof -
  show "0 \<notin> set s \<Longrightarrow> 0 \<notin> set (form_text s fs)"
    by (induction s fs rule: form_text.induct) (auto simp: form_join_clean)
  show "length (form_text s fs) + length fs \<le> length s + form_need fs"
  proof (induction s fs rule: form_text.induct)
    case (2 s k v fs)
    then show ?case using form_join_length [of s k v] by simp
  qed simp
qed

lemma form_body_form:
  assumes "\<forall>(k, v) \<in> set fs. 0 \<notin> set k \<and> 0 \<notin> set v" "fs \<noteq> []" "int (form_need fs) < 2 ^ 31"
  shows "\<exists>s. form_body (form_nodes fs) = Some (s, map (\<lambda>_. \<lparr>hs_key = None, hs_val = None\<rparr>) fs) \<and>
    form_fields s = filter (\<lambda>(k, v). k \<noteq> [] \<and> v \<noteq> []) fs"
proof -
  let ?s = "form_text [] fs" and ?n = "form_need fs"
  have b: "bodies_to_payload (replicate ?n 0) (form_nodes fs) (int ?n) =
      Some (?s @ replicate (?n - length ?s) 0, map (\<lambda>_. \<lparr>hs_key = None, hs_val = None\<rparr>) fs)"
    using bodies_to_payload_form [OF assms(1), of "[]" ?n] by simp
  have s: "0 \<notin> set ?s" "length ?s < ?n" using form_text_bounds [of "[]" fs] assms(2) by (simp, cases fs) auto
  then obtain m where "?n - length ?s = Suc m" by (metis Suc_diff_Suc)
  then have "cstr (?s @ replicate (?n - length ?s) 0) = Some ?s" using s(1) by (simp add: cstr_append)
  moreover have "int32 (int ?n) = Some (int ?n)" using assms(3) by (simp add: int32_def)
  ultimately have "form_body (form_nodes fs) = Some (?s, map (\<lambda>_. \<lparr>hs_key = None, hs_val = None\<rparr>) fs)"
    using b by (simp add: form_body_def bodies_size_form [OF assms(1)])
  then show ?thesis using form_text_fields [of "[]" fs] by (auto simp: form_fields_def)
qed

text \<open>C19: The body of a form is complete and stays inside its block: its size, computed beforehand, is
  always enough, and reading the form gives back, in order, every field that has a key and a value.
  The texts of all fields are freed on the way.\<close>

theorem form_body_complete:
  assumes "\<forall>(k, v) \<in> set fs. 0 \<notin> set k \<and> 0 \<notin> set v" "fs \<noteq> []" "int (form_need fs) < 2 ^ 31"
  shows "\<exists>s. form_body (form_nodes fs) = Some (s, map (\<lambda>_. \<lparr>hs_key = None, hs_val = None\<rparr>) fs) \<and>
    form_fields s = filter (\<lambda>(k, v). k \<noteq> [] \<and> v \<noteq> []) fs"
  using form_body_form [OF assms] .

section \<open>The attempts\<close>

lemma post_tries_end:
  assumes "0 < retry" "0 \<le> tries" "tries \<le> retry" "po_heads p = None"
    and "\<And>c k b l h. fns c k b l h \<noteq> None"
  shows "post_tries (Suc (nat (retry - tries))) pl fns retry p tries later g \<noteq> None"
  using assms(2,3)
proof (induction "nat (retry - tries)" arbitrary: tries later g)
  case 0
  then show ?case using assms(1) by (auto intro: exI [of _ False])
next
  case (Suc n)
  have lt: "tries < retry" and n: "n = nat (retry - (tries + 1))" using Suc.hyps(2) by linarith+
  have IH: "post_tries (Suc n) pl fns retry p (tries + 1) l h \<noteq> None" for l h
    using Suc.hyps(1) [OF n] Suc.prems lt n by simp
  have hd: "http_headers (po_heads p) = Some [(bytes ''Content-Type'', bytes ''application/x-www-form-urlencoded'')]"
    by (simp add: http_headers_def assms(4))
  obtain r h where c: "call (http_post pl (po_uri p) [(bytes ''Content-Type'', bytes ''application/x-www-form-urlencoded'')]
      (po_payload p)) (snd (call (wait_us pl 100000) g)) = (r, h)" by fastforce
  have "post_tries (Suc (Suc n)) pl fns retry p tries later g \<noteq> None"
  proof (cases "wifi_connected pl (ext g)")
    case False
    then show ?thesis by simp
  next
    case True
    have step: "post_tries (Suc (Suc n)) pl fns retry p tries later g =
        (case r of
           None \<Rightarrow> post_tries (Suc n) pl fns retry p (tries + 1) later h
         | Some (code, answer) \<Rightarrow>
             if code \<noteq> 200 then post_tries (Suc n) pl fns retry p (tries + 1) later h
             else do {
               (ret, later1, g3) \<leftarrow> fns (po_cb p) code (strncpy_bytes answer MAX_BODY_LEN) later h;
               if ret \<noteq> 0 then post_tries (Suc n) pl fns retry p (tries + 1) later1 g3
               else Some (True, later1, g3) })"
      unfolding post_tries.simps(2) [of "Suc n"] using True lt assms(1) c
      by (simp only: hd Option.bind.bind_lunit Let_def c) simp
    obtain ret later1 g3 where cb: "\<And>code answer. r = Some (code, answer) \<Longrightarrow>
        fns (po_cb p) code (strncpy_bytes answer MAX_BODY_LEN) later h = Some (ret, later1, g3)"
      using assms(5) by (cases r) (auto, metis option.exhaust prod_cases3)
    show ?thesis
    proof (cases r)
      case None
      then show ?thesis unfolding step using IH by (simp del: post_tries.simps)
    next
      case (Some ca)
      obtain code answer where ca: "ca = (code, answer)" by fastforce
      then have "r = Some (code, answer)" using Some by simp
      then show ?thesis
        unfolding step using IH cb [of code answer] by (cases "code = 200") (auto simp del: post_tries.simps)
    qed
  qed
  then show ?case using Suc.hyps(2) by simp
qed

lemma unlimited_tries:
  assumes "retry \<le> 0" "\<And>e. wifi_connected pl e" "\<And>u hd b e. fst (http_post pl u hd b e) = None"
  shows "post_tries n pl fns retry p tries later g = None"
proof (induction n arbitrary: g)
  case (Suc n)
  have "fst (call (http_post pl u hd b) h) = None" for u hd b h using assms(3) by (simp add: call_simp)
  then have "call (http_post pl u hd b) h = (None, snd (call (http_post pl u hd b) h))" for u hd b h
    by (metis prod.collapse)
  then show ?case using assms(1,2) Suc
    by (auto simp: Let_def split: bind_splits prod.splits option.splits) (metis fst_conv option.distinct(1))+
qed simp

text \<open>A request without headers of its own ends after at most \<open>retry\<close> attempts, whatever the server and
  the network do, if its callback returns; with a limit of zero or less it is sent forever
  to a server that cannot be reached.\<close>

theorem post_attempts_bounded:
  assumes "po_heads p = None" "\<And>c k b l h. fns c k b l h \<noteq> None"
  shows "(0 < retry \<longrightarrow> (\<exists>ok later' g'. post_tries (Suc (nat retry)) pl fns retry p 0 later g = Some (ok, later', g'))) \<and>
    (retry \<le> 0 \<and> (\<forall>e. wifi_connected pl e) \<and> (\<forall>u hd b e. fst (http_post pl u hd b e) = None) \<longrightarrow>
      (\<forall>n. post_tries n pl fns retry p 0 later g = None))"
proof (intro conjI impI allI)
  assume "0 < retry"
  then have "post_tries (Suc (nat (retry - 0))) pl fns retry p 0 later g \<noteq> None"
    using post_tries_end [of retry 0 p fns pl later g] assms by simp
  then show "\<exists>ok later' g'. post_tries (Suc (nat retry)) pl fns retry p 0 later g = Some (ok, later', g')"
    by (metis diff_zero not_None_eq prod_cases3)
next
  fix n
  assume "retry \<le> 0 \<and> (\<forall>e. wifi_connected pl e) \<and> (\<forall>u hd b e. fst (http_post pl u hd b e) = None)"
  then show "post_tries n pl fns retry p 0 later g = None"
    using unlimited_tries [of retry pl] by blast
qed

section \<open>Witnesses\<close>

lemma form_body_complete_witness:
  "\<exists>s. form_body (form_nodes [(bytes ''a'', bytes ''b c''), (bytes ''x'', [])])
      = Some (s, [\<lparr>hs_key = None, hs_val = None\<rparr>, \<lparr>hs_key = None, hs_val = None\<rparr>]) \<and>
    form_fields s = [(bytes ''a'', bytes ''b c'')]"
  using form_body_complete [of "[(bytes ''a'', bytes ''b c''), (bytes ''x'', [])]"]
  by (simp add: bytes_def www_enc_def www_char_def www_plain_def)

lemma post_attempts_bounded_witness:
  "\<exists>ok l g. post_tries 4 sim_platform (\<lambda>_ _ _ l h. Some (-1, l, h)) 3
    \<lparr>po_uri = [0x68], po_heads = None, po_payload = [0x41], po_cb = CB_REGIST\<rparr> 0 [] sim_gateway = Some (ok, l, g)"
proof -
  have "(0 :: int) < 3" "Suc (nat 3) = 4" by simp_all
  then show ?thesis
    using post_attempts_bounded [of "\<lparr>po_uri = [0x68], po_heads = None, po_payload = [0x41], po_cb = CB_REGIST\<rparr>"
      "\<lambda>_ _ _ l h. Some (-1, l, h)" 3 sim_platform "[]" sim_gateway] by (simp only: st_post.simps) simp
qed

end
