(* ===== verification/Regist.thy ===== *)
theory Regist
  imports Http_Post Md5 Main_Loop Halo_Text
begin

text \<open>
  The registration of the gateway at its cloud, \<open>app/halo_http_regist.c\<close> with the identifiers of
  \<open>app/halo_product.c\<close>: the signed form of a request, the requests of a registration, the
  callbacks that take the gateway's identity from an answer, and the protocol that starts it. The
  thread \<open>regist_proc\<close> polls the HTTP thread until it ends; both run as one function. The
  hexadecimal digest is printed into its own source (\<open>sprintf(hex_str, "%s...", hex_str, ...)\<close>),
  which the C library of the target executes as appending.
\<close>

section \<open>The product\<close>

definition HALO_VER :: "byte list" where "HALO_VER = bytes ''1.0''"
definition HALO_CID :: "byte list" where "HALO_CID = bytes ''750832243333435392''"
definition HALO_SID :: "byte list" where "HALO_SID = bytes ''750837261197414400''"
definition HALO_KEY :: "byte list" where "HALO_KEY = bytes ''306BE98143724C6481E5F2BB7F6951D5''"

definition hex2 :: "byte \<Rightarrow> byte list" where
  "hex2 b = [num_to_hex (drop_bit 4 b), num_to_hex b]"

text \<open>\<open>get_mac_string\<close> writes 17 characters; without an address the caller's text stays empty.\<close>

definition get_mac_string :: "'e platform \<Rightarrow> 'e gateway \<Rightarrow> (int \<times> byte list) option" where
  "get_mac_string pl g =
     (case hw_addr pl (ext g) of
        None \<Rightarrow> Some (-1, [])
      | Some a \<Rightarrow> do {
          b \<leftarrow> bget a 0 6;
          Some (17, hex2 (b ! 0) @ [0x3a] @ hex2 (b ! 1) @ [0x3a] @ hex2 (b ! 2) @ [0x3a] @ hex2 (b ! 3) @ [0x3a]
            @ hex2 (b ! 4) @ [0x3a] @ hex2 (b ! 5)) })"

text \<open>\<open>get_config\<close> into a block of memory, at most \<open>n\<close> bytes of it, and the number of bytes stored there.\<close>

definition config_read :: "'e platform \<Rightarrow> cfg_key \<Rightarrow> cbuf \<Rightarrow> nat \<Rightarrow> 'e gateway \<Rightarrow> (int \<times> cbuf) option" where
  "config_read pl key buf n g =
     (case get_config_mem pl key (ext g) of
        None \<Rightarrow> Some (-1, buf)
      | Some b \<Rightarrow> do { c \<leftarrow> bput buf 0 (take n b); Some (int (length (take n b)), c) })"

definition config_write :: "'e platform \<Rightarrow> cfg_key \<Rightarrow> cbuf \<Rightarrow> nat \<Rightarrow> 'e gateway \<Rightarrow> 'e gateway option" where
  "config_write pl key buf n g =
     do { b \<leftarrow> bget buf 0 n; Some (snd (call (set_config_mem pl key b) g)) }"

definition get_dev_sn :: "'e platform \<Rightarrow> cbuf \<Rightarrow> 'e gateway \<Rightarrow> (int \<times> cbuf) option" where
  "get_dev_sn pl sn g = config_read pl CFG_AI_SN sn 64 g"

section \<open>The signed form\<close>

definition md5_fresh :: md5_ctx where
  "md5_fresh = \<lparr>md_count0 = 0, md_count1 = 0, md_state = (0, 0, 0, 0), md_buffer = replicate 64 0\<rparr>"

text \<open>\<open>len_str\<close> has five bytes.\<close>

definition init_bodies :: "st_hash list option \<Rightarrow> byte list \<Rightarrow> int \<Rightarrow> (int \<times> st_hash list option) option" where
  "init_bodies bodies data len =
     do { let len_str = dec_int len;
          _ \<leftarrow> (if length len_str < 5 then Some () else None);
          let str_split = len_str @ HALO_KEY @ HALO_CID @ HALO_SID @ HALO_VER;
          c1 \<leftarrow> MD5Update (MD5Init md5_fresh) (str_split @ [0]) (of_nat (length str_split));
          (decrypt, _) \<leftarrow> MD5Final c1;
          let hex_str = concat (map hex2 decrypt);
          let hex = foldl (\<lambda>x c. x XOR c) (hex_str ! 0) (drop 1 (take 32 hex_str));
          (_, b1) \<leftarrow> add_hash bodies (bytes ''ver'') HALO_VER;
          (_, b2) \<leftarrow> add_hash b1 (bytes ''des'') (hex2 hex);
          (_, b3) \<leftarrow> add_hash b2 (bytes ''cid'') HALO_CID;
          (_, b4) \<leftarrow> add_hash b3 (bytes ''sid'') HALO_SID;
          (_, b5) \<leftarrow> add_hash b4 (bytes ''key'') HALO_KEY;
          (_, b6) \<leftarrow> add_hash b5 (bytes ''len'') len_str;
          (_, b7) \<leftarrow> add_hash b6 (bytes ''dat'') data;
          Some (0, b7) }"

text \<open>The common tail of the requests: sign the printed object, add the request, free the fields.\<close>

definition server_uri :: "'e platform \<Rightarrow> byte list \<Rightarrow> 'e gateway \<Rightarrow> byte list" where
  "server_uri pl path g =
     (let server_ver = (case get_config pl CFG_HALO_SERVER_VERSION (ext g) of None \<Rightarrow> 0 | Some v \<Rightarrow> v)
      in (if server_ver \<noteq> 0 then bytes ''http://open.nbhope.cn/hopeApi/'' else bytes ''http://192.168.2.9:8080/hopeApi/'') @ path)"

definition signed_bodies :: "byte list \<Rightarrow> st_hash list option" where
  "signed_bodies out =
     do { l \<leftarrow> int32 (int (length out)); (_, b) \<leftarrow> init_bodies (Some []) out l; b }"

fun add_strings :: "(byte list \<times> byte list) list \<Rightarrow> json \<Rightarrow> json" where
  "add_strings [] j = j"
| "add_strings ((k, v) # fs) j = add_strings fs (AddItemToObject k (JString v) j)"

definition regist_mac :: "'e platform \<Rightarrow> st_post list \<Rightarrow> 'e gateway \<Rightarrow> (int \<times> st_post list) option" where
  "regist_mac pl posts g =
     do { (_, mac) \<leftarrow> get_mac_string pl g;
          (_, snb) \<leftarrow> get_dev_sn pl (replicate 64 0) g;
          sn \<leftarrow> cstr snb;
          let out = cjson_print pl (add_strings [(bytes ''deviceGuid'', mac), (bytes ''deviceSN'', sn)] (JObject []));
          bodies \<leftarrow> signed_bodies out;
          ((_, posts1), left) \<leftarrow> add_post_hash_bodies posts (Some (server_uri pl (bytes ''upgrade/mac'') g)) None bodies CB_REGIST;
          Some (0, posts1) }"

definition device_fields :: "byte list \<Rightarrow> byte list \<Rightarrow> (byte list \<times> byte list) list" where
  "device_fields sn mac =
     [(bytes ''comName'', bytes ''HOPE''), (bytes ''deviceSN'', sn), (bytes ''deviceName'', bytes ''HOPE-Q3''),
      (bytes ''deviceCata'', bytes ''Q3''), (bytes ''firmVersion'', bytes ''ats3605-debug-0.1''),
      (bytes ''softVersion'', bytes ''0.0.1''), (bytes ''macAddress'', mac), (bytes ''playerType'', bytes ''_test''),
      (bytes ''playerVersion'', bytes ''1.0''), (bytes ''bgType'', bytes ''master''), (bytes ''bgVersion'', bytes ''1.2.3''),
      (bytes ''upgradeChannel'', bytes ''release-HOPE-Q3''), (bytes ''deviceDrive'', bytes ''ats3605''),
      (bytes ''parentId'', bytes ''753396045774098432'')]"

definition regist_device :: "'e platform \<Rightarrow> st_post list \<Rightarrow> 'e gateway \<Rightarrow> (int \<times> st_post list) option" where
  "regist_device pl posts g =
     do { (_, mac) \<leftarrow> get_mac_string pl g;
          (_, snb) \<leftarrow> get_dev_sn pl (replicate 64 0) g;
          sn \<leftarrow> cstr snb;
          let out = cjson_print pl (add_strings (device_fields sn mac) (JObject []));
          bodies \<leftarrow> signed_bodies out;
          ((_, posts1), left) \<leftarrow> add_post_hash_bodies posts (Some (server_uri pl (bytes ''device/register'') g)) None bodies CB_REGIST_DEV;
          Some (0, posts1) }"

definition profile_json :: json where
  "profile_json = JObject [(bytes ''status'', JNumber 1), (bytes ''play'', JNumber 1), (bytes ''control'', JNumber 1),
     (bytes ''skip'', JNumber 1), (bytes ''idvol'', JNumber 1), (bytes ''mute'', JTrue), (bytes ''setvol'', JNumber 1),
     (bytes ''source'', JNumber 1), (bytes ''effect'', JNumber 1), (bytes ''model'', JNumber 1), (bytes ''locale'', JNumber 1)]"

definition regist_property_dy :: "'e platform \<Rightarrow> st_post list \<Rightarrow> 'e gateway \<Rightarrow> (int \<times> st_post list) option" where
  "regist_property_dy pl later g =
     do { _ \<leftarrow> get_mac_string pl g;
          (_, rb) \<leftarrow> config_read pl CFG_HREG_REF_ORI (replicate 100 0) 100 g;
          refid \<leftarrow> cstr rb;
          let out = cjson_print pl (AddItemToObject (bytes ''profile'') profile_json
                (AddItemToObject (bytes ''deviceId'') (JString refid) (JObject [])));
          bodies \<leftarrow> signed_bodies out;
          ((_, later1), left) \<leftarrow> add_post_hash_bodies_dy later (Some (server_uri pl (bytes ''device/status'') g)) None bodies CB_REGIST;
          Some (0, later1) }"

definition regist_join_dy :: "'e platform \<Rightarrow> st_post list \<Rightarrow> 'e gateway \<Rightarrow> (int \<times> st_post list) option" where
  "regist_join_dy pl later g =
     do { (_, rb) \<leftarrow> config_read pl CFG_HREG_REF_ORI (replicate 100 0) 100 g;
          refid \<leftarrow> cstr rb;
          if refid = [] then Some (-1, later)
          else do {
            (_, ab) \<leftarrow> config_read pl CFG_HREG_AUTH (replicate 100 0) 100 g;
            auth \<leftarrow> cstr ab;
            if auth = [] then Some (-1, later)
            else do {
              (_, ub) \<leftarrow> config_read pl CFG_AI_UUID (replicate 64 0) 64 g;
              uuid \<leftarrow> cstr ub;
              if uuid = [] then Some (-1, later)
              else do {
                let out = cjson_print pl (add_strings [(bytes ''deviceId'', refid), (bytes ''authCode'', auth),
                      (bytes ''platformId'', bytes ''774702725827940352''), (bytes ''uuid'', uuid)] (JObject []));
                bodies \<leftarrow> signed_bodies out;
                ((_, later1), left) \<leftarrow> add_post_hash_bodies_dy later (Some (server_uri pl (bytes ''device/editJoin'') g)) None bodies CB_REGIST;
                Some (0, later1) } } } }"

section \<open>Answers\<close>

text \<open>An answer that does not parse, or has no code, is a null pointer that is read.\<close>

definition answer_code :: "'e platform \<Rightarrow> cbuf \<Rightarrow> (json \<times> int) option" where
  "answer_code pl body =
     do { s \<leftarrow> cstr body; root \<leftarrow> cjson_parse pl s; c \<leftarrow> GetObjectItem root (bytes ''code''); Some (root, valueint c) }"

definition regist_resultcb :: "'e platform \<Rightarrow> 'e post_fn" where
  "regist_resultcb pl code body later g =
     do { (_, c) \<leftarrow> answer_code pl body; Some (if c \<noteq> 100000 then -1 else 0, later, g) }"

fun my_htoi_loop :: "byte list \<Rightarrow> byte \<Rightarrow> byte" where
  "my_htoi_loop [] ret = ret"
| "my_htoi_loop (c # s) ret =
     (let r = push_bit 4 ret in
      if c \<le> 0x39 \<and> c \<ge> 0x30 then my_htoi_loop s (r + (c - 0x30))
      else if c \<le> 0x66 \<and> c \<ge> 0x61 then my_htoi_loop s (r + (10 + c - 0x61))
      else if c \<le> 0x46 \<and> c \<ge> 0x41 then my_htoi_loop s (r + (10 + c - 0x41))
      else r)"

definition my_htoi :: "byte list \<Rightarrow> byte" where
  "my_htoi s = my_htoi_loop s 0"

text \<open>The two scans of \<open>get_ref_from_json\<close>, on the block from the pointer on; leaving it is undefined.\<close>

definition ref_char :: "byte \<Rightarrow> bool" where
  "ref_char c = (c \<le> 0x39 \<and> c \<ge> 0x30 \<or> c = 0x2d)"

fun ref_skip :: "byte list \<Rightarrow> byte list option" where
  "ref_skip [] = None"
| "ref_skip (c # s) = (if ref_char c then Some (c # s) else ref_skip s)"

fun ref_take :: "byte list \<Rightarrow> byte list option" where
  "ref_take [] = None"
| "ref_take (c # s) = (if ref_char c then map_option (Cons c) (ref_take s) else Some [])"

definition ref_text :: "byte list \<Rightarrow> byte list" where
  "ref_text ref =
     (let len = length ref in
      if take 1 ref \<noteq> [0x2d]
      then (if len > 20 then [] else replicate (20 - len) 0x41 @ ref)
      else (if len > 20 then []
            else if len < 20 then replicate (21 - len) 0x46 @ drop 1 ref
            else 0x46 # drop 1 ref))"

definition ref_hex_of :: "cbuf \<Rightarrow> byte list" where
  "ref_hex_of ref_str = map (\<lambda>i. my_htoi (takeWhile (\<lambda>c. c \<noteq> 0) [ref_str ! (2 * i), ref_str ! (2 * i + 1)])) [0..<10]"

text \<open>The arrays have 100 bytes, and so has the identity in the handle.\<close>

definition get_ref_from_json :: "'e platform \<Rightarrow> cbuf \<Rightarrow> 'e gateway \<Rightarrow> (int \<times> 'e gateway) option" where
  "get_ref_from_json pl body g =
     do { s \<leftarrow> cstr body;
          (case find_sub (bytes ''refrenceId\":'') s of
             None \<Rightarrow> Some (-1, g)
           | Some i \<Rightarrow> do {
               p \<leftarrow> ref_skip (drop i body);
               r \<leftarrow> ref_take p;
               ref \<leftarrow> bput (replicate 100 0) 0 r;
               g1 \<leftarrow> config_write pl CFG_HREG_REF_ORI ref 100 g;
               rs \<leftarrow> cstr ref;
               ori \<leftarrow> strncpy (h_ref_ori g1) rs 100;
               let g2 = g1\<lparr>h_ref_ori := ori\<rparr>;
               ref_str \<leftarrow> bput (replicate 100 0) 0 (ref_text rs);
               g3 \<leftarrow> config_write pl CFG_HREG_REF ref_str 100 g2;
               rt \<leftarrow> cstr ref_str;
               str \<leftarrow> strncpy (h_ref_str g3) rt 100;
               let g4 = g3\<lparr>h_ref_str := str\<rparr>;
               let hex = ref_hex_of ref_str;
               g5 \<leftarrow> config_write pl CFG_HREG_SID hex 10 g4;
               hb \<leftarrow> bput (h_ref_hex g5) 0 hex;
               Some (0, snd (call (sync_config pl) (g5\<lparr>h_ref_hex := hb\<rparr>))) }) }"

text \<open>\<open>auth\<close> is an array of 100 bytes on the stack that \<open>strncpy\<close> fills.\<close>

definition take_auth :: "'e platform \<Rightarrow> json \<Rightarrow> 'e gateway \<Rightarrow> 'e gateway option" where
  "take_auth pl obj g =
     (case GetObjectItem obj (bytes ''authCode'') of
        None \<Rightarrow> Some g
      | Some item \<Rightarrow> do {
          v \<leftarrow> valuestring item;
          let auth = strncpy_bytes v 100;
          ga \<leftarrow> config_write pl CFG_HREG_AUTH auth 100 g;
          ab \<leftarrow> strncpy (h_auth ga) (takeWhile (\<lambda>c. c \<noteq> 0) auth) 100;
          Some (snd (call (sync_config pl) (ga\<lparr>h_auth := ab\<rparr>))) })"

definition regist_dev_cb :: "'e platform \<Rightarrow> 'e post_fn" where
  "regist_dev_cb pl code body later g =
     do { (root, c) \<leftarrow> answer_code pl body;
          if c \<noteq> 100000 then Some (-1, later, g)
          else do {
            obj \<leftarrow> GetObjectItem root (bytes ''object'');
            g1 \<leftarrow> take_auth pl obj g;
            (_, g2) \<leftarrow> get_ref_from_json pl body g1;
            (_, later1) \<leftarrow> regist_join_dy pl later g2;
            (_, later2) \<leftarrow> regist_property_dy pl later1 g2;
            Some (0, later2, g2) } }"

definition regist_fns :: "'e platform \<Rightarrow> post_cb \<Rightarrow> 'e post_fn" where
  "regist_fns pl c = (case c of CB_REGIST_DEV \<Rightarrow> regist_dev_cb pl | _ \<Rightarrow> regist_resultcb pl)"

section \<open>The registration\<close>

definition regist_proc :: "nat \<Rightarrow> 'e platform \<Rightarrow> 'e gateway \<Rightarrow> 'e gateway option" where
  "regist_proc fuel pl g =
     do { (_, p1) \<leftarrow> regist_mac pl [] g;
          (_, p2) \<leftarrow> regist_device pl p1 g;
          let g1 = snd (init_http (Some p2) 3 0 None g);
          let g2 = snd (halo_http_start g1);
          (v, g3) \<leftarrow> http_proc fuel pl (regist_fns pl) (\<lambda>_ g. g) g2;
          let ret = halo_http_result (Some v);
          g4 \<leftarrow> (if ret = 0
                 then do { (_, mac) \<leftarrow> get_mac_string pl g3;
                           ga \<leftarrow> config_write pl CFG_HREG_MAC (mac @ replicate (32 - length mac) 0) 32 g3;
                           Some ((snd (call (sync_config pl) ga))\<lparr>hope_regist_st := 1\<rparr>) }
                 else Some g3);
          (_, g5) \<leftarrow> deinit_http g4;
          Some g5 }"

text \<open>\<open>strncmp\<close> of two blocks.\<close>

definition strncmp_eq :: "cbuf \<Rightarrow> cbuf \<Rightarrow> nat \<Rightarrow> bool" where
  "strncmp_eq a b n = (takeWhile (\<lambda>c. c \<noteq> 0) (take n a) = takeWhile (\<lambda>c. c \<noteq> 0) (take n b))"

definition regist_check :: "'e platform \<Rightarrow> 'e gateway \<Rightarrow> (int \<times> 'e gateway) option" where
  "regist_check pl g =
     do { (_, mac) \<leftarrow> get_mac_string pl g;
          (n, mac_cfg) \<leftarrow> config_read pl CFG_HREG_MAC (replicate 32 0) 32 g;
          if n \<le> 0 then Some (-1, g)
          else if \<not> strncmp_eq (mac @ replicate (32 - length mac) 0) mac_cfg 32 then Some (-1, g)
          else do {
            (n1, b1) \<leftarrow> config_read pl CFG_HREG_SID (h_ref_hex g) 10 g;
            let g1 = g\<lparr>h_ref_hex := b1\<rparr>;
            if n1 \<le> 0 then Some (-1, g1)
            else do {
              (n2, b2) \<leftarrow> config_read pl CFG_HREG_AUTH (h_auth g1) 100 g1;
              let g2 = g1\<lparr>h_auth := b2\<rparr>;
              if n2 \<le> 0 then Some (-1, g2)
              else do {
                (n3, b3) \<leftarrow> config_read pl CFG_HREG_REF_ORI (h_ref_ori g2) 100 g2;
                let g3 = g2\<lparr>h_ref_ori := b3\<rparr>;
                if n3 \<le> 0 then Some (-1, g3)
                else do {
                  (n4, b4) \<leftarrow> config_read pl CFG_HREG_REF (h_ref_str g3) 100 g3;
                  let g4 = g3\<lparr>h_ref_str := b4\<rparr>;
                  if n4 \<le> 0 then Some (-1, g4)
                  else do { a \<leftarrow> rd (h_auth g4) 0; Some (if a = 0 then -1 else 0, g4) } } } } } }"

text \<open>The callback starts the thread \<open>regist_proc\<close> when the gateway is not registered.\<close>

definition regist_init_cb :: "'e platform \<Rightarrow> 'e pcb" where
  "regist_init_cb pl pro g =
     do { (r, g1) \<leftarrow> regist_check pl g;
          if r = 0 then Some (9, pro, g1\<lparr>hope_regist_st := 1\<rparr>)
          else Some (9, pro\<lparr>active := 1, pfd := -10\<rparr>, g1) }"

definition regist_close_cb :: "'e pcb" where "regist_close_cb pro g = Some (0, pro, g)"
definition regist_to_cb :: "'e pcb" where "regist_to_cb pro g = Some (0, pro, g)"

definition regist_cbs :: "'e platform \<Rightarrow> 'e callback_table" where
  "regist_cbs pl = \<lparr>init_cb = Some (on_proto (regist_init_cb pl)), recv_cb = None, reply_cb = None,
     active_send_cb = None, disproto_cb = None, timeout_cb = Some (on_proto regist_to_cb),
     close_cb = Some (on_proto regist_close_cb)\<rparr>"

definition http_regist_proto :: "splayer_status \<Rightarrow> st_proto" where
  "http_regist_proto st0 = \<lparr>pname = bytes ''http_regist'', config = LOOP_CFG_ALINK OR LOOP_CFG_WIFI OR LOOP_CFG_RETRY,
     timecount = 0, timeout = push_bit 10 3, pfd = 0,
     recv_buf = \<lparr>payload = [], max_len = 0, blen = 0, bbegin = 0\<rparr>,
     play_status = st0, callbacks = K_HTTP_REGIST, active = 0, private_buf = None\<rparr>"

definition add_http_regist :: "splayer_status \<Rightarrow> 'e gateway \<Rightarrow> 'e gateway" where
  "add_http_regist st0 g = snd (add_proto (http_regist_proto st0) (g\<lparr>hope_regist_st := 0\<rparr>))"

definition regist_status :: "'e gateway \<Rightarrow> int" where
  "regist_status g = hope_regist_st g"

definition smart_home_tp_dev_ctrl :: "'e platform \<Rightarrow> int \<Rightarrow> int \<Rightarrow> 'e gateway \<Rightarrow> int \<times> 'e gateway" where
  "smart_home_tp_dev_ctrl pl i st g = call (tp_dev_ctrl pl i st) g"

section \<open>The signature\<close>

text \<open>The sign of a form: the exclusive or of the hexadecimal digits of a digest.\<close>

definition form_sign :: "byte list \<Rightarrow> byte" where
  "form_sign len_str =
     (let h = concat (map hex2 (rfc_md5 (len_str @ HALO_KEY @ HALO_CID @ HALO_SID @ HALO_VER)))
      in foldl (\<lambda>x c. x XOR c) (h ! 0) (drop 1 (take 32 h)))"

definition signed_fields :: "byte list \<Rightarrow> int \<Rightarrow> (byte list \<times> byte list) list" where
  "signed_fields data len =
     [(bytes ''ver'', HALO_VER), (bytes ''des'', hex2 (form_sign (dec_int len))), (bytes ''cid'', HALO_CID),
      (bytes ''sid'', HALO_SID), (bytes ''key'', HALO_KEY), (bytes ''len'', dec_int len), (bytes ''dat'', data)]"

lemma dec_int_length: "0 \<le> n \<Longrightarrow> length (dec_int n) < 5 \<longleftrightarrow> n < 10000"
  using dec_nat_length [of "nat n" 3] by (auto simp: dec_int_def)

lemma dec_int_clean: "0 \<le> n \<Longrightarrow> 0 \<notin> set (dec_int n) \<and> dec_int n \<noteq> []"
  using dec_nat_digits [of 0 "nat n"] dec_nat.simps [of "nat n"] by (auto simp: dec_int_def)

lemma sign_keys: "distinct [bytes ''ver'', bytes ''des'', bytes ''cid'', bytes ''sid'', bytes ''key'', bytes ''len'', bytes ''dat'']"
  by code_simp

lemma has_key_form: "has_key (form_nodes fs) k = Some (k \<in> fst ` set fs)"
  by (induction fs) (auto simp: form_nodes_def)

lemma add_hash_new:
  "k \<notin> fst ` set fs \<Longrightarrow> add_hash (Some (form_nodes fs)) k v = Some (0, Some (form_nodes (fs @ [(k, v)])))"
  by (simp add: add_hash_def add_hash_node_def has_key_form) (simp add: form_nodes_def)

lemma add_seven:
  assumes "distinct [k1, k2, k3, k4, k5, k6, k7]"
  shows "do { (_, b1) \<leftarrow> add_hash (Some []) k1 v1; (_, b2) \<leftarrow> add_hash b1 k2 v2; (_, b3) \<leftarrow> add_hash b2 k3 v3;
      (_, b4) \<leftarrow> add_hash b3 k4 v4; (_, b5) \<leftarrow> add_hash b4 k5 v5; (_, b6) \<leftarrow> add_hash b5 k6 v6;
      (_, b7) \<leftarrow> add_hash b6 k7 v7; Some (0 :: int, b7) } =
    Some (0, Some (form_nodes [(k1, v1), (k2, v2), (k3, v3), (k4, v4), (k5, v5), (k6, v6), (k7, v7)]))"
proof -
  have "form_nodes [] = []" by (simp add: form_nodes_def)
  then have "add_hash (Some []) k1 v1 = Some (0, Some (form_nodes [(k1, v1)]))"
    using add_hash_new [of k1 "[]" v1] by simp
  moreover have "distinct [k7, k6, k5, k4, k3, k2, k1]" using assms by auto
  ultimately show ?thesis by (simp add: add_hash_new)
qed

lemma init_bodies_signed:
  assumes "0 \<le> len" "len < 10000"
  shows "init_bodies (Some []) data len = Some (0, Some (form_nodes (signed_fields data len)))"
proof -
  let ?s = "dec_int len @ HALO_KEY @ HALO_CID @ HALO_SID @ HALO_VER"
  have l: "length (dec_int len) < 5" using dec_int_length assms by simp
  have "length (HALO_KEY @ HALO_CID @ HALO_SID @ HALO_VER) = 71"
    by (simp add: HALO_KEY_def HALO_CID_def HALO_SID_def HALO_VER_def bytes_def)
  then have "length ?s + 128 < 2 ^ 32" using l by simp
  moreover have "length (md_buffer md5_fresh) = 64" by (simp add: md5_fresh_def)
  ultimately obtain c1 where c1: "MD5Update (MD5Init md5_fresh) (?s @ [0]) (of_nat (length ?s)) = Some c1" "ctx_of c1 ([] @ ?s)"
    using update_ctx [OF ctx_of_init, of md5_fresh ?s "[0]"] by blast
  obtain c2 where c2: "MD5Final c1 = Some (rfc_md5 ?s, c2)" using final_digest [OF c1(2)] by auto
  let ?d = "hex2 (form_sign (dec_int len))"
  have run: "init_bodies (Some []) data len =
    do { (_, b1) \<leftarrow> add_hash (Some []) (bytes ''ver'') HALO_VER;
         (_, b2) \<leftarrow> add_hash b1 (bytes ''des'') ?d;
         (_, b3) \<leftarrow> add_hash b2 (bytes ''cid'') HALO_CID;
         (_, b4) \<leftarrow> add_hash b3 (bytes ''sid'') HALO_SID;
         (_, b5) \<leftarrow> add_hash b4 (bytes ''key'') HALO_KEY;
         (_, b6) \<leftarrow> add_hash b5 (bytes ''len'') (dec_int len);
         (_, b7) \<leftarrow> add_hash b6 (bytes ''dat'') data;
         Some (0, b7) }"
    unfolding init_bodies_def Let_def form_sign_def c1(1) using l c2 by simp
  show ?thesis unfolding run signed_fields_def by (rule add_seven [OF sign_keys])
qed

lemma num_to_hex_clean: "num_to_hex b \<noteq> 0"
  using plain_not num_to_hex_plain by blast

lemma hex2_clean: "0 \<notin> set (hex2 b)"
  using num_to_hex_clean [of b] num_to_hex_clean [of "drop_bit 4 b"] by (auto simp: hex2_def)

lemma product_texts:
  "0 \<notin> set HALO_VER" "0 \<notin> set HALO_CID" "0 \<notin> set HALO_SID" "0 \<notin> set HALO_KEY"
  "HALO_VER \<noteq> []" "HALO_CID \<noteq> []" "HALO_SID \<noteq> []" "HALO_KEY \<noteq> []"
  by code_simp+

lemma sign_keys_clean:
  "\<forall>k \<in> set [bytes ''ver'', bytes ''des'', bytes ''cid'', bytes ''sid'', bytes ''key'', bytes ''len'', bytes ''dat'']. 0 \<notin> set k \<and> k \<noteq> []"
  by code_simp

lemma signed_fields_clean:
  assumes "0 \<notin> set data" "0 \<le> len"
  shows "\<forall>(k, v) \<in> set (signed_fields data len). 0 \<notin> set k \<and> 0 \<notin> set v"
  using assms dec_int_clean [OF assms(2)] sign_keys_clean
  by (simp add: signed_fields_def hex2_clean product_texts)

lemma signed_fields_full:
  assumes "data \<noteq> []" "0 \<le> len"
  shows "filter (\<lambda>(k, v). k \<noteq> [] \<and> v \<noteq> []) (signed_fields data len) = signed_fields data len"
  using assms dec_int_clean [OF assms(2)] sign_keys_clean
  by (simp add: signed_fields_def product_texts) (simp add: hex2_def)

lemma init_bodies_form:
  assumes "0 \<notin> set data" "data \<noteq> []" "length data < 2 ^ 28" "0 \<le> n" "n < 10000"
  shows "\<exists>b s left. init_bodies (Some []) data n = Some (0, Some b) \<and> form_body b = Some (s, left) \<and>
    form_fields s = signed_fields data n"
proof -
  let ?fs = "signed_fields data n"
  have clean: "\<forall>(k, v) \<in> set ?fs. 0 \<notin> set k \<and> 0 \<notin> set v"
    by (rule signed_fields_clean [OF assms(1,4)])
  have full: "filter (\<lambda>(k, v). k \<noteq> [] \<and> v \<noteq> []) ?fs = ?fs"
    by (rule signed_fields_full [OF assms(2,4)])
  have char: "length (www_char c) \<le> 3" for c by (simp add: www_char_def)
  have enc: "length (www_enc t) \<le> 3 * length t" for t
  proof (induction t)
    case (Cons c t)
    then show ?case using char [of c] by simp
  qed simp
  have need: "form_need fs \<le> (\<Sum>(k, v) \<leftarrow> fs. 3 * length k + 3 * length v + 3)" for fs
  proof (induction fs)
    case (Cons f fs)
    then show ?case using enc [of "fst f"] enc [of "snd f"] by (cases f) simp
  qed simp
  have "length (dec_int n) < 5" using dec_int_length [OF assms(4)] assms(5) by simp
  then have "(\<Sum>(k, v) \<leftarrow> ?fs. 3 * length k + 3 * length v + 3) < 2 ^ 30"
    using assms(3) by (simp add: signed_fields_def hex2_def HALO_VER_def HALO_CID_def HALO_SID_def HALO_KEY_def bytes_def)
  then have "form_need ?fs < 2 ^ 30" using need [of ?fs] by (rule le_less_trans [rotated])
  then have "int (form_need ?fs) < 2 ^ 31" by simp
  moreover have "?fs \<noteq> []" by (simp add: signed_fields_def)
  ultimately obtain s where "form_body (form_nodes ?fs) = Some (s, map (\<lambda>_. \<lparr>hs_key = None, hs_val = None\<rparr>) ?fs)"
      "form_fields s = ?fs"
    using form_body_form [OF clean] full by metis
  then show ?thesis using init_bodies_signed [OF assms(4,5), of data] by blast
qed

lemma signed_bodies_form:
  assumes "0 \<notin> set data" "data \<noteq> []" "length data < 10000"
  shows "\<exists>b s left. signed_bodies data = Some b \<and> form_body b = Some (s, left) \<and>
    form_fields s = signed_fields data (int (length data))"
proof -
  have "int32 (int (length data)) = Some (int (length data))" using assms(3) by (simp add: int32_def)
  then show ?thesis
    using init_bodies_form [OF assms(1,2), of "int (length data)"] assms(3) by (auto simp: signed_bodies_def)
qed

text \<open>C25: A signed request carries what the server checks: for a text of fewer than 10000 bytes the form
  holds, and its reader finds, the product, the length, the text and a sign that comes from the
  RFC 1321 digest of the length and the product's secrets. From 10000 bytes on the length does not
  fit its array.\<close>

theorem signed_request:
  assumes "0 \<notin> set data" "data \<noteq> []" "length data < 2 ^ 20"
  shows "(length data < 10000 \<longrightarrow>
      (\<exists>b s left. signed_bodies data = Some b \<and> form_body b = Some (s, left) \<and>
        form_fields s = signed_fields data (int (length data)))) \<and>
    (10000 \<le> length data \<longrightarrow> signed_bodies data = None)"
proof -
  have i: "int32 (int (length data)) = Some (int (length data))" using assms(3) by (simp add: int32_def)
  have "signed_bodies data = None" if "10000 \<le> length data"
    using dec_int_length [of "int (length data)"] that i by (simp add: signed_bodies_def init_bodies_def)
  then show ?thesis using signed_bodies_form [OF assms(1,2)] by blast
qed

lemma signed_request_witness:
  "\<exists>b s left. signed_bodies (bytes ''{}'') = Some b \<and> form_body b = Some (s, left) \<and>
    form_fields s = signed_fields (bytes ''{}'') 2"
  using signed_request [of "bytes ''{}''"] by (simp add: bytes_def)

section \<open>The identity\<close>

text \<open>Reading the ten bytes of an identity as the reference they stand for: the digits behind the padding,
  which is A for a number without a sign and F for a negative one.\<close>

definition ref_of_hex :: "byte list \<Rightarrow> byte list" where
  "ref_of_hex b =
     (let t = concat (map hex2 b)
      in if take 1 t = [0x46] then 0x2d # dropWhile (\<lambda>c. c = 0x46) t else dropWhile (\<lambda>c. c = 0x41) t)"

definition ref_digits :: "byte list" where "ref_digits = bytes ''0123456789AF''"

lemma hex2_htoi:
  assumes "a \<in> set ref_digits" "b \<in> set ref_digits"
  shows "hex2 (my_htoi (takeWhile (\<lambda>c. c \<noteq> 0) [a, b])) = [a, b]"
proof -
  have "list_all (\<lambda>a. list_all (\<lambda>b. hex2 (my_htoi (takeWhile (\<lambda>c. c \<noteq> 0) [a, b])) = [a, b]) ref_digits) ref_digits"
    by code_simp
  then show ?thesis using assms by (simp add: list_all_iff)
qed

lemma pairs_text: "2 * n \<le> length s \<Longrightarrow> concat (map (\<lambda>i. [s ! (2 * i), s ! (2 * i + 1)]) [0..<n]) = take (2 * n) s"
  by (induction n) (simp_all add: take_Suc_conv_app_nth)

lemma ref_hex_text:
  assumes "length t = 20" "set t \<subseteq> set ref_digits"
  shows "concat (map hex2 (ref_hex_of (t @ rest))) = t" "length (ref_hex_of (t @ rest)) = 10"
proof -
  have "hex2 (my_htoi (takeWhile (\<lambda>c. c \<noteq> 0) [(t @ rest) ! (2 * i), (t @ rest) ! (2 * i + 1)])) = [t ! (2 * i), t ! (2 * i + 1)]"
    if "i < 10" for i
  proof -
    have i: "2 * i < length t" "2 * i + 1 < length t" using that assms(1) by simp_all
    then have "t ! (2 * i) \<in> set ref_digits" "t ! (2 * i + 1) \<in> set ref_digits" using assms(2) by (meson nth_mem subsetD)+
    then show ?thesis using hex2_htoi i by (simp only: nth_append) simp
  qed
  then have "map hex2 (ref_hex_of (t @ rest)) = map (\<lambda>i. [t ! (2 * i), t ! (2 * i + 1)]) [0..<10]"
    unfolding ref_hex_of_def by (intro nth_equalityI) simp_all
  then show "concat (map hex2 (ref_hex_of (t @ rest))) = t"
    using pairs_text [of 10 t] assms(1) by simp
qed (simp add: ref_hex_of_def)

lemma digit_ref:
  assumes "0x30 \<le> c" "c \<le> 0x39"
  shows "c \<in> set ref_digits \<and> c \<noteq> 0x41 \<and> c \<noteq> 0x46 \<and> c \<noteq> 0 \<and> c \<noteq> 0x2d"
proof -
  have "list_all (\<lambda>c. c \<in> set ref_digits \<and> c \<noteq> 0x41 \<and> c \<noteq> 0x46 \<and> c \<noteq> 0 \<and> c \<noteq> 0x2d) (map of_nat [48..<58])"
    by code_simp
  moreover have "48 \<le> unat c" "unat c < 58" using assms by (simp_all add: word_le_nat_alt)
  then have "c \<in> set (map of_nat [48..<58])"
    by (simp only: set_map set_upt) (intro image_eqI [of _ _ "unat c"]; simp)
  ultimately show ?thesis unfolding list_all_iff by blast
qed

definition is_reference :: "byte list \<Rightarrow> bool" where
  "is_reference r = (\<exists>ds. ds \<noteq> [] \<and> (\<forall>c \<in> set ds. 0x30 \<le> c \<and> c \<le> 0x39) \<and> (r = ds \<or> r = 0x2d # ds) \<and> length r \<le> 20)"

lemma ref_text_reference:
  assumes "is_reference r"
  shows "length (ref_text r) = 20" "set (ref_text r) \<subseteq> set ref_digits" "0 \<notin> set (ref_text r)"
    and "ref_of_hex (ref_hex_of (ref_text r @ rest)) = r"
proof -
  obtain ds where ds: "ds \<noteq> []" "\<forall>c \<in> set ds. 0x30 \<le> c \<and> c \<le> 0x39" "r = ds \<or> r = 0x2d # ds" "length r \<le> 20"
    using assms by (auto simp: is_reference_def)
  have dig: "set ds \<subseteq> set ref_digits" "0 \<notin> set ds" "0x2d \<notin> set ds" "0x41 \<notin> set ds" "0x46 \<notin> set ds"
    using ds(2) digit_ref by blast+
  have pads: "0x41 \<in> set ref_digits" "0x46 \<in> set ref_digits" by code_simp+
  obtain d ds' where d: "ds = d # ds'" using ds(1) by (cases ds) auto
  have t: "ref_text r = replicate (20 - length ds) (if r = ds then 0x41 else 0x46) @ ds \<and> length ds \<le> 20 \<and> (r \<noteq> ds \<longrightarrow> length ds < 20)"
  proof (cases "r = ds")
    case True
    then show ?thesis using ds(4) dig(3) d by (auto simp: ref_text_def Let_def)
  next
    case False
    then have r: "r = 0x2d # ds" using ds(3) by simp
    then have "ref_text r = replicate (20 - length ds) 0x46 @ ds"
      using ds(4) by (cases "length ds = 19") (auto simp: ref_text_def Let_def numeral_eq_Suc)
    then show ?thesis using r ds(4) by auto
  qed
  show len: "length (ref_text r) = 20" and sub: "set (ref_text r) \<subseteq> set ref_digits" and "0 \<notin> set (ref_text r)"
    using t dig pads by auto
  have hex: "concat (map hex2 (ref_hex_of (ref_text r @ rest))) = ref_text r" by (rule ref_hex_text [OF len sub])
  have read: "ref_of_hex (ref_hex_of (ref_text r @ rest)) =
      (if take 1 (ref_text r) = [0x46] then 0x2d # dropWhile (\<lambda>c. c = 0x46) (ref_text r)
       else dropWhile (\<lambda>c. c = 0x41) (ref_text r))"
    by (simp only: ref_of_hex_def Let_def hex)
  have drop: "dropWhile (\<lambda>c. c = p) (replicate n p @ ds) = ds" if "p \<notin> set ds" for p n
    using that d by (induction n) auto
  show "ref_of_hex (ref_hex_of (ref_text r @ rest)) = r"
  proof (cases "r = ds")
    case True
    then have rt: "ref_text r = replicate (20 - length ds) 0x41 @ ds" using t by simp
    then have "take 1 (ref_text r) \<noteq> [0x46]" using dig(5) d by (cases "20 - length ds") auto
    then show ?thesis using True drop [OF dig(4)] rt unfolding read by simp
  next
    case False
    then have rt: "ref_text r = replicate (20 - length ds) 0x46 @ ds" and pos: "length ds < 20" using t by auto
    then obtain n where "20 - length ds = Suc n" by (metis Suc_diff_Suc)
    then have "take 1 (ref_text r) = [0x46]" using rt by simp
    then show ?thesis using False ds(3) drop [OF dig(5)] rt unfolding read by simp
  qed
qed

lemma ref_skip_append: "\<forall>c \<in> set xs. \<not> ref_char c \<Longrightarrow> ref_skip (xs @ ys) = ref_skip ys"
  by (induction xs) auto

lemma ref_take_append: "\<forall>c \<in> set xs. ref_char c \<Longrightarrow> \<not> ref_char c \<Longrightarrow> ref_take (xs @ c # ys) = Some xs"
  by (induction xs) auto

lemma reference_chars:
  assumes "is_reference r"
  shows "\<forall>x \<in> set r. ref_char x" "0 \<notin> set r" "length r \<le> 20"
proof -
  show "\<forall>x \<in> set r. ref_char x" "length r \<le> 20"
    using assms by (auto simp: is_reference_def ref_char_def)
  moreover have "\<not> ref_char 0" by (simp add: ref_char_def)
  ultimately show "0 \<notin> set r" by blast
qed

lemma get_ref_runs:
  assumes "is_reference r" "find_sub (bytes ''refrenceId\":'') s = Some (length pre)"
    and "s = pre @ bytes ''refrenceId\":'' @ gap @ r @ c # post" "0 \<notin> set s" "body = s @ 0 # rest"
    and "\<forall>x \<in> set gap. \<not> ref_char x" "\<not> ref_char c"
    and "length (h_ref_ori g) = 100" "length (h_ref_str g) = 100" "length (h_ref_hex g) = 100"
  shows "\<exists>e. get_ref_from_json pl body g = Some (0, g\<lparr>h_ref_ori := r @ replicate (100 - length r) 0,
      h_ref_str := ref_text r @ replicate 80 0,
      h_ref_hex := ref_hex_of (ref_text r @ replicate 80 0) @ drop 10 (h_ref_hex g), ext := e\<rparr>) \<and>
    e = snd (sync_config pl (snd (set_config_mem pl CFG_HREG_SID (ref_hex_of (ref_text r @ replicate 80 0))
      (snd (set_config_mem pl CFG_HREG_REF (ref_text r @ replicate 80 0)
        (snd (set_config_mem pl CFG_HREG_REF_ORI (r @ replicate (100 - length r) 0) (ext g))))))))"
proof -
  note rt = ref_text_reference(1,3) [OF assms(1)]
  note r = reference_chars [OF assms(1)]
  then obtain x xs where x: "r = x # xs" "ref_char x" using assms(1) by (cases r) (auto simp: is_reference_def)
  have key: "\<forall>x \<in> set (bytes ''refrenceId\":''). \<not> ref_char x" by code_simp
  have "ref_skip (drop (length pre) body) = ref_skip ((bytes ''refrenceId\":'' @ gap) @ r @ c # post @ 0 # rest)"
    using assms(3,5) by simp
  also have "\<dots> = Some (r @ c # post @ 0 # rest)"
    using assms(6) key x by (subst ref_skip_append) auto
  finally have skip: "ref_skip (drop (length pre) body) = Some (r @ c # post @ 0 # rest)" .
  have take: "ref_take (r @ c # post @ 0 # rest) = Some r" using r(1) assms(7) by (rule ref_take_append)
  have cs: "cstr body = Some s" using assms(4,5) by (simp add: cstr_append)
  let ?ori = "r @ replicate (100 - length r) 0" and ?str = "ref_text r @ replicate 80 0"
  have n: "100 - length r = Suc (99 - length r)" using r(3) by simp
  have ori: "bput (replicate 100 0) 0 r = Some ?ori" "cstr ?ori = Some r" "bget ?ori 0 100 = Some ?ori"
    using r by (simp add: bput_def, subst n, simp add: cstr_append, simp add: bget_def)
  have z: "ref_text r @ replicate 80 0 = ref_text r @ 0 # replicate 79 0" by (simp add: numeral_eq_Suc)
  have str: "bput (replicate 100 0) 0 (ref_text r) = Some ?str" "bget ?str 0 100 = Some ?str"
    using rt(1) by (simp_all add: bput_def bget_def)
  have str0: "cstr ?str = Some (ref_text r)"
    unfolding z using rt(2) by (rule cstr_append)
  have cp: "strncpy (h_ref_ori g) r 100 = Some ?ori" "strncpy (h_ref_str g) (ref_text r) 100 = Some ?str"
    using assms(8,9) r(3) rt(1) by (simp_all add: strncpy_def strncpy_bytes_def bput_def)
  have hl: "length (ref_hex_of ?str) = 10" by (simp add: ref_hex_of_def)
  have hex: "bget (ref_hex_of ?str) 0 10 = Some (ref_hex_of ?str)"
    "bput (h_ref_hex g) 0 (ref_hex_of ?str) = Some (ref_hex_of ?str @ drop 10 (h_ref_hex g))"
    using hl assms(10) by (simp_all add: bget_def bput_def)
  show ?thesis
    unfolding get_ref_from_json_def cs Option.bind.bind_lunit assms(2) option.case skip take ori(1) Let_def
    using ori str str0 cp hex by (simp add: config_write_def call_simp)
qed


end
