(* ===== verification/Music_List.thy ===== *)
theory Music_List
  imports Regist Media
begin

text \<open>
  The upload of the music list, \<open>app/halo_http_mlist.c\<close>: the JSON object with the account, the
  reference and one entry for every music file, its signed form and the request. The thread
  \<open>mlist_update_proc\<close> is one function; \<open>mlist_update\<close> returns 0 exactly when it starts that thread. A
  tag of a music file is a text in an array that ends with it.
\<close>

section \<open>The list\<close>

definition list_header :: "'e platform \<Rightarrow> 'e gateway \<Rightarrow> (json \<times> 'e gateway) option" where
  "list_header pl g =
     do { a \<leftarrow> cstr (h_auth g);
          empty \<leftarrow> (if a = [] then Some True else do { o1 \<leftarrow> cstr (h_ref_ori g); Some (o1 = []) });
          g2 \<leftarrow> (if empty
                then do { (_, ab) \<leftarrow> config_read pl CFG_HREG_AUTH (h_auth g) 33 g;
                          let g1 = g\<lparr>h_auth := ab\<rparr>;
                          (_, rb) \<leftarrow> config_read pl CFG_HREG_REF_ORI (h_ref_ori g1) 21 g1;
                          Some (g1\<lparr>h_ref_ori := rb\<rparr>) }
                else Some g);
          code \<leftarrow> cstr (h_auth g2);
          ref \<leftarrow> cstr (h_ref_ori g2);
          Some (AddItemToObject (bytes ''deviceId'') (JString ref)
                  (AddItemToObject (bytes ''authCode'') (JString code) (JObject [])), g2) }"

definition cut_text :: "byte list \<Rightarrow> int \<Rightarrow> byte list option" where
  "cut_text t n = do { (_, b) \<leftarrow> utf8_cut_string (t @ [0]) n; cstr b }"

definition tag_text :: "byte list \<Rightarrow> byte list option" where
  "tag_text t = (if t \<noteq> [] then cut_text t 63 else Some [])"

definition song_json :: "'e platform \<Rightarrow> int \<Rightarrow> byte list \<Rightarrow> 'e gateway \<Rightarrow> json option" where
  "song_json pl index url g =
     do { let (info, msec) = mp_id3 pl url (ext g);
          (_, nb) \<leftarrow> get_music_name (url @ [0]) (replicate 256 0) 255;
          name \<leftarrow> cstr nb;
          album \<leftarrow> tag_text (id_album info);
          author \<leftarrow> tag_text (id_author info);
          display \<leftarrow> cut_text (if id_title info \<noteq> [] then id_title info else name) 127;
          music \<leftarrow> cut_text display 63;
          Some (JObject [(bytes ''albumName'', JString album), (bytes ''authorName'', JString author),
            (bytes ''displayName'', JString display), (bytes ''musicName'', JString music),
            (bytes ''musicId'', JNumber index), (bytes ''musicTime'', JNumber msec)]) }"

text \<open>The loop over the items: None inside is an item that could not be read.\<close>

fun list_items :: "'e platform \<Rightarrow> int \<Rightarrow> int \<Rightarrow> nat \<Rightarrow> 'e gateway \<Rightarrow>
    ((json list \<times> json list) option \<times> 'e gateway) option" where
  "list_items pl fd i 0 g = Some (Some ([], []), g)"
| "list_items pl fd i (Suc n) g =
     (let (count, url) = media_item pl fd i (ext g) in
      if count > 0
      then do { song \<leftarrow> song_json pl i url g;
                let g1 = snd (call (wait_us pl 10000) g);
                (rest, g2) \<leftarrow> list_items pl fd (i + 1) n g1;
                Some (map_option (\<lambda>(songs, urls). (song # songs, JString url # urls)) rest, g2) }
      else Some (None, g))"

definition muisclist_build :: "'e platform \<Rightarrow> int \<Rightarrow> int \<Rightarrow> int \<Rightarrow> 'e gateway \<Rightarrow> (json option \<times> 'e gateway) option" where
  "muisclist_build pl fd start cnt g =
     do { (root, g1) \<leftarrow> list_header pl g;
          (items, g2) \<leftarrow> list_items pl fd start (nat cnt) g1;
          (case items of
             None \<Rightarrow> Some (None, g2)
           | Some (songs, urls) \<Rightarrow>
               let out = cjson_print pl (AddItemToObject (bytes ''array'') (JArray urls) (JObject []));
                   g3 = snd (call (lua_fun pl (bytes ''save_uri_list'') out) g2)
               in Some (Some (AddItemToObject (bytes ''list'') (JArray songs) root), g3)) }"

section \<open>The thread\<close>

fun http_free_wait :: "nat \<Rightarrow> 'e platform \<Rightarrow> 'e gateway \<Rightarrow> 'e gateway option" where
  "http_free_wait 0 pl g = None"
| "http_free_wait (Suc n) pl g =
     (if is_http_busy g then http_free_wait n pl (snd (call (wait_us pl 1000000) g)) else Some g)"

fun scan_wait :: "nat \<Rightarrow> 'e platform \<Rightarrow> int \<Rightarrow> 'e gateway \<Rightarrow> (json option \<times> 'e gateway) option" where
  "scan_wait 0 pl fd g = Some (None, g)"
| "scan_wait (Suc wait) pl fd g =
     (let (ret, cnt, finish) = media_item_num pl fd (ext g) in
      if ret \<noteq> 0 then Some (None, g)
      else if finish \<noteq> 0 then muisclist_build pl fd 0 cnt g
      else scan_wait wait pl fd (snd (call (wait_us pl 1000000) g)))"

definition mlist_uri :: "byte list" where
  "mlist_uri = bytes ''http://open.nbhope.cn/hopeApi/music/initial''"

definition mlist_resultcb :: "'e platform \<Rightarrow> 'e post_fn" where
  "mlist_resultcb pl code body later g =
     do { (_, c) \<leftarrow> answer_code pl body; Some (if c \<noteq> 100000 then -1 else 0, later, g) }"

definition mlist_fns :: "'e platform \<Rightarrow> post_cb \<Rightarrow> 'e post_fn" where
  "mlist_fns pl c = mlist_resultcb pl"

text \<open>The requests of the thread, up to the start of the HTTP thread. Without a list the printer returns a
  null pointer, which \<open>utf8_strlen\<close> reads.\<close>

definition mlist_request :: "nat \<Rightarrow> 'e platform \<Rightarrow> int \<Rightarrow> 'e gateway \<Rightarrow> (st_post list \<times> 'e gateway) option" where
  "mlist_request fuel pl fd g =
     do { g1 \<leftarrow> http_free_wait fuel pl (g\<lparr>mpost_busy := 1\<rparr>);
          (root, g2) \<leftarrow> scan_wait 10 pl fd g1;
          r \<leftarrow> root;
          let out = cjson_print pl r;
          let g3 = snd (call (lua_fun pl (bytes ''savelist'') out) g2);
          n \<leftarrow> utf8_strlen (out @ [0]);
          len \<leftarrow> int32 (int n);
          (_, b) \<leftarrow> init_bodies (Some []) out len;
          bodies \<leftarrow> b;
          ((_, posts), left) \<leftarrow> add_post_hash_bodies [] (Some mlist_uri) None bodies CB_MLIST;
          Some (posts, g3) }"

definition mlist_update_proc :: "nat \<Rightarrow> 'e platform \<Rightarrow> int \<Rightarrow> 'e gateway \<Rightarrow> 'e gateway option" where
  "mlist_update_proc fuel pl fd g =
     do { (posts, g1) \<leftarrow> mlist_request fuel pl fd g;
          let g2 = snd (halo_http_start (snd (init_http (Some posts) 3 0 None g1)));
          (v, g3) \<leftarrow> http_proc fuel pl (mlist_fns pl) (\<lambda>_ g. g) g2;
          (_, g4) \<leftarrow> deinit_http g3;
          Some (g4\<lparr>mpost_busy := 0\<rparr>) }"

definition mlist_update :: "'e platform \<Rightarrow> int \<Rightarrow> 'e gateway \<Rightarrow> int" where
  "mlist_update pl fd g =
     (if \<not> wifi_connected pl (ext g) then -1 else if mpost_busy g = 1 then -1 else 0)"

section \<open>What is uploaded\<close>

text \<open>A directory whose items are the given files, with the entries they get.\<close>

definition dir_holds :: "'e platform \<Rightarrow> int \<Rightarrow> byte list list \<Rightarrow> json list \<Rightarrow> bool" where
  "dir_holds pl fd urls songs = (length songs = length urls \<and>
     (\<forall>i < length urls. \<forall>g. 0 < fst (media_item pl fd (int i) (ext g)) \<and> snd (media_item pl fd (int i) (ext g)) = urls ! i \<and>
        song_json pl (int i) (urls ! i) g = Some (songs ! i)))"

lemma list_items_all:
  assumes "dir_holds pl fd urls songs"
  shows "k + n = length urls \<Longrightarrow> \<exists>e. list_items pl fd (int k) n g = Some (Some (drop k songs, map JString (drop k urls)), g\<lparr>ext := e\<rparr>)"
proof (induction n arbitrary: k g)
  case 0
  then show ?case using assms by (intro exI [of _ "ext g"]) (simp add: dir_holds_def)
next
  case (Suc n)
  let ?g1 = "snd (call (wait_us pl 10000) g)"
  have k: "k < length urls" "k < length songs" using Suc.prems assms by (simp_all add: dir_holds_def)
  obtain e where e: "list_items pl fd (int (Suc k)) n ?g1
      = Some (Some (drop (Suc k) songs, map JString (drop (Suc k) urls)), ?g1\<lparr>ext := e\<rparr>)"
    using Suc.IH [of "Suc k" ?g1] Suc.prems by auto
  obtain c where c: "media_item pl fd (int k) (ext g) = (c, urls ! k)" "0 < c"
    using assms k(1) by (intro that [of "fst (media_item pl fd (int k) (ext g))"]) (auto simp: dir_holds_def prod_eq_iff)
  have "song_json pl (int k) (urls ! k) g = Some (songs ! k)" using assms k(1) by (simp add: dir_holds_def)
  then have "list_items pl fd (int k) (Suc n) g
      = Some (Some (songs ! k # drop (Suc k) songs, JString (urls ! k) # map JString (drop (Suc k) urls)), g\<lparr>ext := e\<rparr>)"
    using c e by (simp add: call_simp add.commute)
  then show ?case using k by (intro exI [of _ e]) (simp add: Cons_nth_drop_Suc [symmetric])
qed

text \<open>The object of the upload.\<close>

definition upload :: "byte list \<Rightarrow> byte list \<Rightarrow> json list \<Rightarrow> json" where
  "upload acct ref songs =
     JObject [(bytes ''authCode'', JString acct), (bytes ''deviceId'', JString ref), (bytes ''list'', JArray songs)]"

lemma build_all:
  assumes "dir_holds pl fd urls songs" "cstr (h_auth g) = Some acct" "acct \<noteq> []" "cstr (h_ref_ori g) = Some ref" "ref \<noteq> []"
  shows "\<exists>e. muisclist_build pl fd 0 (int (length urls)) g = Some (Some (upload acct ref songs), g\<lparr>ext := e\<rparr>)"
proof -
  have h: "list_header pl g = Some (JObject [(bytes ''authCode'', JString acct), (bytes ''deviceId'', JString ref)], g)"
    using assms(2-5) by (simp add: list_header_def)
  obtain e where "list_items pl fd 0 (length urls) g = Some (Some (songs, map JString urls), g\<lparr>ext := e\<rparr>)"
    using list_items_all [OF assms(1), of 0 "length urls" g] by auto
  then show ?thesis using h by (simp add: muisclist_build_def upload_def call_simp Let_def) blast
qed

text \<open>C36: The upload is complete and in order: for a directory that was scanned the only request of the
  thread is a signed form whose text is the account, the reference and one entry for every file. The
  length it states counts characters; from 10000 characters on it does not fit its array.\<close>

theorem music_list_posted:
  assumes "\<not> is_http_busy g" "\<forall>e. media_item_num pl fd e = (0, int (length urls), 1)" "dir_holds pl fd urls songs"
    and "cstr (h_auth g) = Some acct" "acct \<noteq> []" "cstr (h_ref_ori g) = Some ref" "ref \<noteq> []"
    and "out = cjson_print pl (upload acct ref songs)" "0 \<notin> set out" "out \<noteq> []" "length out < 2 ^ 28"
    and "utf8_strlen (out @ [0]) = Some n" "n < 2 ^ 31"
  shows "(n < 10000 \<longrightarrow> (\<exists>p g'. mlist_request (Suc fuel) pl fd g = Some ([p], g') \<and> po_uri p = mlist_uri \<and> po_heads p = None \<and>
      form_fields (po_payload p) = signed_fields out (int n))) \<and>
    (10000 \<le> n \<longrightarrow> mlist_request (Suc fuel) pl fd g = None)"
proof -
  let ?g1 = "g\<lparr>mpost_busy := 1\<rparr>"
  have free: "http_free_wait (Suc fuel) pl ?g1 = Some ?g1" using assms(1) by (simp add: is_http_busy_def)
  obtain e where e: "muisclist_build pl fd 0 (int (length urls)) ?g1 = Some (Some (upload acct ref songs), ?g1\<lparr>ext := e\<rparr>)"
    using build_all [OF assms(3), of ?g1 acct ref] assms(4-7) by auto
  have ten: "(10 :: nat) = Suc 9" by simp
  have scan: "scan_wait 10 pl fd ?g1 = Some (Some (upload acct ref songs), ?g1\<lparr>ext := e\<rparr>)"
    unfolding ten scan_wait.simps using assms(2) e by simp
  have i: "int32 (int n) = Some (int n)" using assms(13) by (simp add: int32_def)
  let ?r = "\<lambda>b. map_option (\<lambda>(q, left). (snd q, snd (call (lua_fun pl (bytes ''savelist'') out) (?g1\<lparr>ext := e\<rparr>))))
    (add_post_hash_bodies [] (Some mlist_uri) None b CB_MLIST)"
  have run: "mlist_request (Suc fuel) pl fd g = do { (_, b) \<leftarrow> init_bodies (Some []) out (int n); bodies \<leftarrow> b; ?r bodies }"
    unfolding mlist_request_def free Option.bind.bind_lunit scan prod.case Let_def assms(8) [symmetric] assms(12) i
    by (simp add: map_option_case case_prod_beta split: option.splits bind_splits)
  have "\<exists>p g'. mlist_request (Suc fuel) pl fd g = Some ([p], g') \<and> po_uri p = mlist_uri \<and> po_heads p = None \<and>
      form_fields (po_payload p) = signed_fields out (int n)" if "n < 10000"
    using init_bodies_form [OF assms(9-11), of "int n"] that
    unfolding run by (auto simp: add_post_hash_bodies_def add_post_def add_post_node_def)
  moreover have "mlist_request (Suc fuel) pl fd g = None" if "10000 \<le> n"
    unfolding run using dec_int_length [of "int n"] that by (simp add: init_bodies_def)
  ultimately show ?thesis by blast
qed

text \<open>C39: A directory whose scan fails, or is not finished after ten seconds, crashes the gateway: there is
  no list then, and the thread measures the null pointer.\<close>

theorem unfinished_scan_crashes:
  assumes "\<forall>e. fst (media_item_num pl fd e) \<noteq> 0 \<or> snd (snd (media_item_num pl fd e)) = 0"
  shows "mlist_update_proc fuel pl fd g = None"
proof -
  have "\<exists>g'. scan_wait w pl fd g1 = Some (None, g')" for w and g1 :: "'a gateway"
    using assms by (induction w arbitrary: g1) (auto simp: case_prod_beta Let_def)
  then show ?thesis
    by (simp add: mlist_update_proc_def mlist_request_def split: bind_splits) (metis option.distinct(1) option.inject prod.inject)
qed

section \<open>Examples\<close>

definition ex_song :: "byte list" where "ex_song = bytes ''/mnt/udisk/Song.mp3''"

definition ex_disk :: "sim gateway" where
  "ex_disk = sim_gateway\<lparr>h_auth := bytes ''ab'' @ [0], h_ref_ori := bytes ''-42'' @ [0]\<rparr>"

lemma ex_holds: "dir_holds sim_platform 3 [ex_song] [the (song_json sim_platform 0 ex_song sim_gateway)]"
proof -
  have "song_json sim_platform 0 ex_song sim_gateway \<noteq> None" by code_simp
  then obtain j where j: "song_json sim_platform 0 ex_song sim_gateway = Some j" by blast
  have "song_json sim_platform 0 ex_song g = song_json sim_platform 0 ex_song sim_gateway" for g
    by (simp add: song_json_def sim_platform_def)
  then show ?thesis using j by (simp add: dir_holds_def sim_platform_def ex_song_def)
qed

lemma music_list_posted_witness:
  "\<exists>p g'. mlist_request 1 sim_platform 3 ex_disk = Some ([p], g') \<and> form_fields (po_payload p) = signed_fields [0x36] 1"
proof -
  have t: "cstr (h_auth ex_disk) = Some (bytes ''ab'')" "cstr (h_ref_ori ex_disk) = Some (bytes ''-42'')" by code_simp+
  have n: "bytes ''ab'' \<noteq> []" "bytes ''-42'' \<noteq> []" by code_simp+
  have out: "cjson_print sim_platform (upload a r js) = [0x36]" for a r js
    by (simp add: sim_platform_def sim_print_def upload_def)
  have len: "utf8_strlen ([0x36] @ [0]) = Some 1" by code_simp
  have b: "\<not> is_http_busy ex_disk" "\<forall>e. media_item_num sim_platform 3 e = (0, int (length [ex_song]), 1)"
    by (simp_all add: is_http_busy_def ex_disk_def sim_gateway_def sim_platform_def)
  from music_list_posted [OF b ex_holds t(1) n(1) t(2) n(2) out [symmetric] _ _ _ len, of 0] show ?thesis by auto
qed

lemma unfinished_scan_crashes_witness:
  "mlist_update_proc 1 (sim_platform\<lparr>media_item_num := \<lambda>_ _. (0, 1, 0)\<rparr>) 3 sim_gateway = None"
  by (rule unfinished_scan_crashes) simp

end
