(* ===== verification/Discovery.thy ===== *)
theory Discovery
  imports Tcp_Server
begin

text \<open>
  The discovery of the gateway in the house, \<open>app/udp_ser.c\<close>: a UDP protocol that waits for a JSON
  packet with the command \<open>hopediscover\<close>, keeps the identity of the asker, and answers to a
  multicast group with the address and the port of the phone listener. The socket address of the
  group is its port; the group itself is a constant.
\<close>

section \<open>The callbacks\<close>

definition udp_max_len :: nat where "udp_max_len = 1024"
definition udp_l_port :: int where "udp_l_port = 19601"
definition udp_d_port :: int where "udp_d_port = 19602"

definition udp_init_error :: "'e platform \<Rightarrow> 'e pcb" where
  "udp_init_error pl pro g = Some (-1, pro\<lparr>pfd := -1\<rparr>, snd (call (sock_close pl (pfd pro)) g))"

definition udp_init :: "'e platform \<Rightarrow> 'e pcb" where
  "udp_init pl pro g =
     (let (fd, g1) = call (sock_open pl False) g; pro1 = pro\<lparr>pfd := fd\<rparr> in
      if fd < 0 then Some (-1, pro1, g1)
      else let (r, g2) = call (sock_bind pl fd udp_l_port) g1 in
        if r \<noteq> 0 then udp_init_error pl pro1 g2
        else let (q, g3) = call (sock_join pl fd) g2 in
          if q < 0 then udp_init_error pl pro1 g3
          else Some (0, pro1\<lparr>active := 1\<rparr>, g3\<lparr>udp_group_port := udp_d_port\<rparr>))"

definition udp_dispatch :: "'e platform \<Rightarrow> 'e pcb" where
  "udp_dispatch pl pro g =
     do { s \<leftarrow> cstr (payload (recv_buf pro));
          (case cjson_parse pl s of
             None \<Rightarrow> Some (-1, pro, g)
           | Some root \<Rightarrow> (case GetObjectItem root (bytes ''cmd'') of
               None \<Rightarrow> Some (-1, pro, g)
             | Some item \<Rightarrow> do {
                 c \<leftarrow> valuestring item;
                 if c \<noteq> bytes ''hopediscover'' then Some (-1, pro, g)
                 else (case GetObjectItem root (bytes ''params'') of
                     None \<Rightarrow> Some (-1, pro, g)
                   | Some params \<Rightarrow> (case GetObjectItem params (bytes ''deviceid'') of
                       None \<Rightarrow> Some (-1, pro, g)
                     | Some deviceid \<Rightarrow> do {
                         v \<leftarrow> valuestring deviceid;
                         t \<leftarrow> strncpy (udp_target g) v 32;
                         pro1 \<leftarrow> clear_payload pro;
                         Some (0, pro1, g\<lparr>udp_target := t\<rparr>) })) })) }"

definition udp_recv :: "'e platform \<Rightarrow> 'e pcb" where
  "udp_recv pl pro g =
     (if pfd pro \<ge> 0 \<and> active pro \<noteq> 0
      then (let rb = recv_buf pro;
                (d, g1) = call (sock_recv pl (pfd pro) (nat (max_len rb))) g
            in case d of
                 Some (b # bs) \<Rightarrow> do {
                   _ \<leftarrow> (if blen rb < 0 then None else Some ());
                   p \<leftarrow> bput (payload rb) (nat (blen rb)) (b # bs);
                   let pro1 = pro\<lparr>recv_buf := rb\<lparr>payload := p, blen := blen rb + int (length (b # bs))\<rparr>\<rparr>;
                   (r, pro2, g2) \<leftarrow> udp_dispatch pl pro1 g1;
                   Some (if r \<noteq> 0 then 1 else 0, pro2, g2) }
               | _ \<Rightarrow> Some (if errno_eintr pl (ext g1) \<or> errno_again pl (ext g1) then 0 else -1, pro, g1))
      else Some (-1, pro, g))"

fun multisend :: "nat \<Rightarrow> 'e platform \<Rightarrow> int \<Rightarrow> byte list \<Rightarrow> 'e gateway \<Rightarrow> (int \<times> 'e gateway) option" where
  "multisend 0 pl fd str g = None"
| "multisend (Suc n) pl fd str g =
     (let (r, g1) = call (sock_sendto pl fd (udp_group_port g) str) g in
      if r < 0
      then (if errno_eintr pl (ext g1) then multisend n pl fd str g1 else Some (-1, g1))
      else Some (0, g1))"

definition discovery_json :: "int \<Rightarrow> byte list \<Rightarrow> byte list \<Rightarrow> json" where
  "discovery_json prt ip target =
     JObject [(bytes ''cmd'', JString (bytes ''hopediscover'')),
       (bytes ''params'', JObject [(bytes ''hopeid'', JString (bytes ''12:34:56:78:90:ab'')), (bytes ''hopeport'', JNumber prt),
          (bytes ''hopeip'', JString ip), (bytes ''versioncode'', JNumber 1060302), (bytes ''versionname'', JString (bytes ''1.6.3.2'')),
          (bytes ''haloversion'', JNumber 102), (bytes ''playertype'', JNumber 2), (bytes ''model'', JString (bytes ''HOPE-Q3'')),
          (bytes ''targetid'', JString target)])]"

text \<open>On a link that is not open the error exit frees \<open>root\<close>, which has no value yet.\<close>

definition udp_reply :: "nat \<Rightarrow> 'e platform \<Rightarrow> 'e pcb" where
  "udp_reply fuel pl pro g =
     do { ipb \<leftarrow> strcpy (replicate 64 0) (server_ip pl (ext g));
          if pfd pro < 0 \<or> active pro = 0 then None
          else do {
            ip \<leftarrow> cstr ipb;
            target \<leftarrow> cstr (udp_target g);
            let out = cjson_print pl (discovery_json (tcp_ser_port g) ip target);
            (r, g1) \<leftarrow> multisend fuel pl (pfd pro) out g;
            Some (if r < 0 then -1 else 0, pro, g1) } }"

definition udp_close :: "'e platform \<Rightarrow> 'e pcb" where
  "udp_close pl pro g =
     do { let g1 = (if pfd pro \<ge> 0 then snd (call (sock_close pl (pfd pro)) g) else g);
          rb \<leftarrow> wipe (recv_buf pro);
          Some (0, pro\<lparr>pfd := -1, active := 0, recv_buf := rb\<lparr>blen := 0\<rparr>\<rparr>, g1) }"

definition udp_cbs :: "nat \<Rightarrow> 'e platform \<Rightarrow> 'e callback_table" where
  "udp_cbs fuel pl = \<lparr>
     init_cb = Some (on_proto (udp_init pl)), recv_cb = Some (on_proto (udp_recv pl)),
     reply_cb = Some (on_proto (udp_reply fuel pl)), active_send_cb = None, disproto_cb = None,
     timeout_cb = None, close_cb = Some (on_proto (udp_close pl))\<rparr>"

definition udp_proto :: "cbuf \<Rightarrow> splayer_status \<Rightarrow> st_proto" where
  "udp_proto junk st0 = \<lparr>pname = bytes ''udp_ser'', config = LOOP_CFG_RETRY OR LOOP_CFG_WIFI,
     timecount = 0, timeout = 0, pfd = 0,
     recv_buf = \<lparr>payload = junk, max_len = int udp_max_len, blen = 0, bbegin = 0\<rparr>,
     play_status = st0, callbacks = K_UDP, active = 0, private_buf = None\<rparr>"

definition udp_service_init :: "cbuf \<Rightarrow> splayer_status \<Rightarrow> 'e gateway \<Rightarrow> int \<times> 'e gateway" where
  "udp_service_init junk st0 g = add_proto (udp_proto junk st0) g"

section \<open>Asking and answering\<close>

text \<open>A link that waits for a packet, and a packet that asks for the gateway.\<close>

definition listens :: "st_proto \<Rightarrow> bool" where
  "listens p = (0 \<le> pfd p \<and> active p \<noteq> 0 \<and> blen (recv_buf p) = 0 \<and> buf_ok (recv_buf p))"

definition asks :: "'e platform \<Rightarrow> byte list \<Rightarrow> byte list \<Rightarrow> bool" where
  "asks pl s who = (\<exists>root params. cjson_parse pl s = Some root \<and>
     GetObjectItem root (bytes ''cmd'') = Some (JString (bytes ''hopediscover'')) \<and>
     GetObjectItem root (bytes ''params'') = Some params \<and> GetObjectItem params (bytes ''deviceid'') = Some (JString who))"

lemma udp_dispatch_asks:
  assumes "asks pl s who" "cstr (payload (recv_buf pro)) = Some s" "buf_ok (recv_buf pro)" "length (udp_target g) = 32"
  shows "\<exists>pro'. udp_dispatch pl pro g = Some (0, pro', g\<lparr>udp_target := strncpy_bytes who 32\<rparr>) \<and>
    clear_payload pro = Some pro'"
proof -
  have t: "strncpy (udp_target g) who 32 = Some (strncpy_bytes who 32)"
    using assms(4) by (simp add: strncpy_def bput_def)
  obtain pro' where "clear_payload pro = Some pro'"
    using wipe_ok [OF assms(3)] by (simp add: clear_payload_def)
  then show ?thesis using assms(1,2) t by (auto simp: asks_def udp_dispatch_def)
qed

lemma cleared:
  assumes "clear_payload pro = Some pro'" "buf_ok (recv_buf pro)"
  shows "pfd pro' = pfd pro \<and> active pro' = active pro \<and> callbacks pro' = callbacks pro \<and> blen (recv_buf pro') = 0 \<and>
    max_len (recv_buf pro') = max_len (recv_buf pro) \<and> length (payload (recv_buf pro')) = length (payload (recv_buf pro))"
  using assms wipe_ok [OF assms(2)] by (auto simp: clear_payload_def buf_ok_def nat_le_iff)

lemma multisend_once:
  "0 \<le> fst (sock_sendto pl fd (udp_group_port g) str (ext g)) \<Longrightarrow>
   multisend (Suc n) pl fd str g = Some (0, snd (call (sock_sendto pl fd (udp_group_port g) str) g))"
  by (simp add: call_simp)

text \<open>What the next read of a link returns.\<close>

definition recvd :: "'e platform \<Rightarrow> st_proto \<Rightarrow> 'e gateway \<Rightarrow> byte list option \<times> 'e" where
  "recvd pl p g = sock_recv pl (pfd p) (nat (max_len (recv_buf p))) (ext g)"

text \<open>A packet in front of what the buffer held.\<close>

definition over :: "byte list \<Rightarrow> cbuf \<Rightarrow> cbuf" where
  "over d b = d @ drop (length d) b"

lemma udp_recv_packet:
  assumes "listens p" "fst (sock_recv pl (pfd p) (nat (max_len (recv_buf p))) (ext g)) = Some d" "d \<noteq> []"
    and "length d \<le> length (payload (recv_buf p))"
  shows "udp_recv pl p g =
    (let p1 = p\<lparr>recv_buf := (recv_buf p)\<lparr>payload := over d (payload (recv_buf p)), blen := int (length d)\<rparr>\<rparr>;
         g1 = g\<lparr>ext := snd (sock_recv pl (pfd p) (nat (max_len (recv_buf p))) (ext g))\<rparr>
     in do { (r, p2, g2) \<leftarrow> udp_dispatch pl p1 g1; Some (if r \<noteq> 0 then 1 else 0, p2, g2) })"
proof -
  obtain b bs where d: "d = b # bs" using assms(3) by (cases d) auto
  have "bput (payload (recv_buf p)) 0 (b # bs) = Some (over d (payload (recv_buf p)))"
    using assms(4) d by (simp add: bput_def over_def)
  then show ?thesis
    using assms(1,2) unfolding d udp_recv_def listens_def by (simp add: call_simp Let_def)
qed

text \<open>C22: The gateway is found: a link that waits gets a packet that asks for it and answers to the group
  with the port of its phone listener, its address and the identity of the asker. Afterwards the link
  waits again.\<close>

theorem discovery_answered:
  assumes p: "pget a g = Some p" "tabs (callbacks p) = udp_cbs (Suc n) pl" "listens p"
    and d: "fst (recvd pl p g) = Some d" "d \<noteq> []" "length d \<le> length (payload (recv_buf p))"
      "cstr (over d (payload (recv_buf p))) = Some s" "asks pl s who"
    and who: "0 \<notin> set who" "length who < 32" "length (udp_target g) = 32"
    and ip: "server_ip pl (snd (recvd pl p g)) = ip" "0 \<notin> set ip" "length ip < 64"
    and out: "out = cjson_print pl (discovery_json (tcp_ser_port g) ip who)"
      "0 \<le> fst (sock_sendto pl (pfd p) (udp_group_port g) out (snd (recvd pl p g)))"
  shows "\<exists>g' p'. serve tabs a g = Some g' \<and> ext g' = snd (sock_sendto pl (pfd p) (udp_group_port g) out (snd (recvd pl p g))) \<and>
    pget a g' = Some p' \<and> listens p' \<and> cstr (udp_target g') = Some who \<and> msgs g' = msgs g"
proof -
  let ?p1 = "p\<lparr>recv_buf := (recv_buf p)\<lparr>payload := over d (payload (recv_buf p)), blen := int (length d)\<rparr>\<rparr>"
  let ?g1 = "g\<lparr>ext := snd (recvd pl p g)\<rparr>"
  have ok1: "buf_ok (recv_buf ?p1)" using p(3) d(3) by (simp add: listens_def buf_ok_def over_def)
  obtain p' where p': "udp_dispatch pl ?p1 ?g1 = Some (0, p', ?g1\<lparr>udp_target := strncpy_bytes who 32\<rparr>)" "clear_payload ?p1 = Some p'"
    using udp_dispatch_asks [OF d(5) _ ok1, of ?g1] d(4) who(3) by auto
  note c = cleared [OF p'(2) ok1]
  let ?g2 = "?g1\<lparr>udp_target := strncpy_bytes who 32\<rparr>"
  have r: "udp_recv pl p g = Some (0, p', ?g2)"
    using udp_recv_packet [OF p(3) d(1) [unfolded recvd_def] d(2,3)] p'(1) by (simp add: recvd_def)
  have l: "listens p'" using p(3) c ok1 by (simp add: listens_def buf_ok_def)
  have tgt: "cstr (strncpy_bytes who 32) = Some who"
  proof -
    obtain m where "32 - length who = Suc m" using who(2) by (metis Suc_diff_Suc)
    then show ?thesis using who(1,2) by (simp add: strncpy_bytes_def cstr_append)
  qed
  obtain ipb where ipb: "strcpy (replicate 64 0) ip = Some ipb" using ip(3) by (simp add: strcpy_def bput_def)
  then have "cstr ipb = Some ip" using ip(2) by (rule strcpy_cstr)
  then have q: "udp_reply (Suc n) pl p' (pset a p' ?g2) = Some (0, p', (pset a p' ?g2)\<lparr>ext := snd (sock_sendto pl (pfd p) (udp_group_port g) out (snd (recvd pl p g)))\<rparr>)"
    using ip(1) ipb tgt out c p(3) by (simp add: udp_reply_def listens_def tcp_ser_port_def pset_def call_simp)
  have t': "tabs (callbacks p') = udp_cbs (Suc n) pl" using p(2) c by simp
  show ?thesis
    using p(1,2) r q t' l tgt
    by (simp add: serve_def table_of_def udp_cbs_def on_proto_def pget_def pset_def)
qed

text \<open>A packet that does not ask is never cleared: it stays in front of every later packet, which is
  then written behind it, and out of the block once the two are longer than it. One packet of a
  stranger stops the discovery, two of them break the heap.\<close>

theorem stray_packet_stays:
  assumes p: "pget a g = Some p" "tabs (callbacks p) = udp_cbs n pl" "listens p"
    and d: "fst (recvd pl p g) = Some d" "d \<noteq> []" "length d \<le> length (payload (recv_buf p))"
      "cstr (over d (payload (recv_buf p))) = Some s" "cjson_parse pl s = None"
  shows "\<exists>g' p'. serve tabs a g = Some g' \<and> ext g' = snd (recvd pl p g) \<and> udp_target g' = udp_target g \<and> pget a g' = Some p' \<and>
    payload (recv_buf p') = over d (payload (recv_buf p)) \<and> blen (recv_buf p') = int (length d) \<and>
    (\<forall>d2. fst (recvd pl p' g') = Some d2 \<and> length (payload (recv_buf p)) < length d + length d2 \<longrightarrow> serve tabs a g' = None)"
proof -
  let ?p1 = "p\<lparr>recv_buf := (recv_buf p)\<lparr>payload := over d (payload (recv_buf p)), blen := int (length d)\<rparr>\<rparr>"
  let ?g1 = "g\<lparr>ext := snd (recvd pl p g)\<rparr>"
  let ?g' = "pset a ?p1 ?g1"
  have "udp_dispatch pl ?p1 ?g1 = Some (-1, ?p1, ?g1)" using d(4,5) by (simp add: udp_dispatch_def)
  then have r: "udp_recv pl p g = Some (1, ?p1, ?g1)"
    using udp_recv_packet [OF p(3) d(1) [unfolded recvd_def] d(2,3)] by (simp add: recvd_def)
  have s1: "serve tabs a g = Some ?g'"
    using p(1,2) r by (simp add: serve_def table_of_def udp_cbs_def on_proto_def)
  have "serve tabs a ?g' = None"
    if d2: "fst (recvd pl ?p1 ?g') = Some d2" "length (payload (recv_buf p)) < length d + length d2" for d2
  proof -
    have "d2 \<noteq> []" using d2(2) d(3) by auto
    then obtain b bs where b: "d2 = b # bs" by (cases d2) auto
    have "udp_recv pl ?p1 ?g' = None"
      using d2 d(3) p(3) unfolding b by (simp add: udp_recv_def recvd_def listens_def call_simp bput_def over_def)
    then show ?thesis using p(2) by (simp add: serve_def table_of_def udp_cbs_def on_proto_def pget_def pset_def)
  qed
  then show ?thesis using s1 by (intro exI [of _ ?g'] exI [of _ ?p1]) (simp add: pget_def pset_def recvd_def)
qed

section \<open>Examples\<close>

definition ex_house :: "sim platform" where
  "ex_house = sim_platform\<lparr>cjson_parse := (\<lambda>s. if s = bytes ''?'' then Some (JObject [(bytes ''cmd'', JString (bytes ''hopediscover'')),
     (bytes ''params'', JObject [(bytes ''deviceid'', JString (bytes ''me''))])]) else None)\<rparr>"

definition ex_udp :: st_proto where
  "ex_udp = (ex_proto (bytes ''udp_ser'') K_UDP)\<lparr>active := 1, pfd := 5\<rparr>"

definition ex_packet :: "byte list \<Rightarrow> sim gateway" where
  "ex_packet d = sim_gateway\<lparr>protos := \<lparr>order = [1], cell = (\<lambda>_. None)(1 := Some ex_udp), fresh = 2\<rparr>,
     ext := sim_start\<lparr>sim_input := d\<rparr>\<rparr>"

lemma ex_packet_link: "pget 1 (ex_packet d) = Some ex_udp" "listens ex_udp" "length (payload (recv_buf ex_udp)) = 16"
    "length (udp_target (ex_packet d)) = 32"
  by (simp_all add: ex_packet_def pget_def ex_udp_def ex_proto_def listens_def buf_ok_def sim_gateway_def)

lemma ex_recvd: "length d \<le> 16 \<Longrightarrow> recvd ex_house ex_udp (ex_packet d) = (Some d, sim_start)"
  by (simp add: recvd_def ex_house_def sim_platform_def ex_udp_def ex_proto_def ex_packet_def sim_start_def)

lemma discovery_answered_witness:
  "\<exists>g'. serve (\<lambda>_. udp_cbs 1 ex_house) 1 (ex_packet (bytes ''?'')) = Some g' \<and> cstr (udp_target g') = Some (bytes ''me'') \<and>
    sim_sent (ext g') = [[0x36]]"
proof -
  have e: "recvd ex_house ex_udp (ex_packet (bytes ''?'')) = (Some (bytes ''?''), sim_start)"
    by (rule ex_recvd) (simp add: bytes_def)
  have o: "over (bytes ''?'') (payload (recv_buf ex_udp)) = bytes ''?'' @ 0 # replicate 14 0"
    by (simp add: over_def ex_udp_def ex_proto_def bytes_def numeral_eq_Suc)
  have c: "cstr (bytes ''?'' @ 0 # replicate 14 0) = Some (bytes ''?'')" by (rule cstr_append) (simp add: bytes_def)
  have a: "asks ex_house (bytes ''?'') (bytes ''me'')"
    unfolding asks_def ex_house_def by (intro exI [of _ "JObject [(bytes ''cmd'', JString (bytes ''hopediscover'')),
     (bytes ''params'', JObject [(bytes ''deviceid'', JString (bytes ''me''))])]"]
     exI [of _ "JObject [(bytes ''deviceid'', JString (bytes ''me''))]"]) (simp, code_simp)
  have sent: "sock_sendto ex_house fd prt b e = (int (length b), e\<lparr>sim_sent := b # sim_sent e\<rparr>)" for fd prt b e
    by (simp add: ex_house_def sim_platform_def)
  have pr: "cjson_print ex_house (discovery_json prt ip who) = [0x36]" for prt ip who
    by (simp add: ex_house_def sim_platform_def sim_print_def discovery_json_def)
  have f: "tcp_ser_port (ex_packet d) = 12345" "udp_group_port (ex_packet d) = 0" for d
    by (simp_all add: tcp_ser_port_def ex_packet_def sim_gateway_def)
  have m: "0 \<notin> set (bytes ''me'')" "length (bytes ''me'') < 32" "0 \<notin> set (bytes ''192.168.2.9'')" "length (bytes ''192.168.2.9'') < 64"
    "bytes ''?'' \<noteq> []" "length (bytes ''?'') \<le> 16" by code_simp+
  have i: "server_ip ex_house z = bytes ''192.168.2.9''" for z by (simp add: ex_house_def sim_platform_def)
  have "\<exists>g' p'. serve (\<lambda>_. udp_cbs (Suc 0) ex_house) 1 (ex_packet (bytes ''?'')) = Some g' \<and>
      ext g' = snd (sock_sendto ex_house (pfd ex_udp) (udp_group_port (ex_packet (bytes ''?''))) [0x36] (snd (recvd ex_house ex_udp (ex_packet (bytes ''?''))))) \<and>
      pget 1 g' = Some p' \<and> listens p' \<and> cstr (udp_target g') = Some (bytes ''me'') \<and> msgs g' = msgs (ex_packet (bytes ''?''))"
    by (rule discovery_answered [where d = "bytes ''?''" and s = "bytes ''?''" and ip = "bytes ''192.168.2.9''",
          OF ex_packet_link(1) refl ex_packet_link(2)])
      (simp_all only: e o c a sent pr f m i ex_packet_link fst_conv snd_conv of_nat_0_le_iff simp_thms)
  then show ?thesis by (auto simp: e sent sim_start_def)
qed

lemma stray_packet_stays_witness:
  "\<exists>g'. serve (\<lambda>_. udp_cbs 1 ex_house) 1 (ex_packet (bytes ''!'')) = Some g' \<and> sim_sent (ext g') = []"
proof -
  have e: "recvd ex_house ex_udp (ex_packet (bytes ''!'')) = (Some (bytes ''!''), sim_start)"
    by (rule ex_recvd) (simp add: bytes_def)
  have o: "over (bytes ''!'') (payload (recv_buf ex_udp)) = bytes ''!'' @ 0 # replicate 14 0"
    by (simp add: over_def ex_udp_def ex_proto_def bytes_def numeral_eq_Suc)
  have c: "cstr (bytes ''!'' @ 0 # replicate 14 0) = Some (bytes ''!'')" by (rule cstr_append) (simp add: bytes_def)
  have n: "cjson_parse ex_house (bytes ''!'') = None" by (simp add: ex_house_def bytes_def)
  have m: "bytes ''!'' \<noteq> []" "length (bytes ''!'') \<le> 16" by code_simp+
  show ?thesis
    using stray_packet_stays [where tabs = "\<lambda>_. udp_cbs 1 ex_house" and n = 1 and d = "bytes ''!''" and s = "bytes ''!''",
        OF ex_packet_link(1) refl ex_packet_link(2), of "bytes ''!''", unfolded e o, OF _ m(1) _ c n] ex_packet_link(3) m(2)
    by (auto simp: sim_start_def)
qed

end
