(* ===== verification/Status_Pipe.thy ===== *)
theory Status_Pipe
  imports Main_Loop
begin

text \<open>
  The way of a player status through the gateway: the timer callback \<open>_player_status\<close> of
  \<open>app/main.c\<close> notices a change and writes the status to a pipe, the protocol of \<open>app/main_pipe.c\<close>
  reads it in the event loop and passes it to every link (\<open>update_status\<close>). A status in the pipe is
  the memory of its struct: the platform gives its size and both conversions.
\<close>

section \<open>The pipe\<close>

definition init_pipe :: "'e platform \<Rightarrow> 'e pcb" where
  "init_pipe pl pro g =
     (let ((r, rd, wr), g1) = call (pipe_open pl) g in
      if r < 0 then Some (-1, pro, g1)
      else Some (0, pro\<lparr>pfd := rd, active := 1\<rparr>, g1\<lparr>pipe_rd := rd, pipe_wr := wr\<rparr>))"

text \<open>\<open>dispatch\<close> looks at the protocol again after the links were told.\<close>

definition pipe_dispatch :: "nat \<Rightarrow> 'e platform \<Rightarrow> 'e tables \<Rightarrow> 'e cb" where
  "pipe_dispatch fuel pl tabs a g =
     do { p \<leftarrow> pget a g;
          b \<leftarrow> bget (payload (recv_buf p)) 0 (status_size pl);
          (_, g1) \<leftarrow> update_status fuel tabs (status_read pl b) g;
          p1 \<leftarrow> pget a g1;
          p2 \<leftarrow> clear_payload p1;
          Some (0, pset a p2 g1) }"

definition recv_pipe :: "nat \<Rightarrow> 'e platform \<Rightarrow> 'e tables \<Rightarrow> 'e cb" where
  "recv_pipe fuel pl tabs a g =
     do { p \<leftarrow> pget a g;
          let rb = recv_buf p;
          _ \<leftarrow> (if blen rb < 0 then None else Some ());
          let (d, g1) = call (pipe_read pl (pfd p) (nat (max_len rb))) g;
          (case d of
             Some (x # xs) \<Rightarrow> do {
               b \<leftarrow> bput (payload rb) (nat (blen rb)) (x # xs);
               (_, g2) \<leftarrow> pipe_dispatch fuel pl tabs a
                  (pset a (p\<lparr>recv_buf := rb\<lparr>payload := b, blen := blen rb + int (length (x # xs))\<rparr>\<rparr>) g1);
               Some (0, g2) }
           | _ \<Rightarrow> Some (-1, g1)) }"

definition close_pipe :: "'e platform \<Rightarrow> 'e pcb" where
  "close_pipe pl pro g =
     (let g1 = snd (call (sock_close pl (pipe_rd g)) g);
          g2 = snd (call (sock_close pl (pipe_wr g1)) g1)
      in Some (0, pro\<lparr>pfd := -1, active := 0\<rparr>, g2\<lparr>pipe_rd := -1, pipe_wr := -1\<rparr>))"

definition pipe_cbs :: "nat \<Rightarrow> 'e platform \<Rightarrow> 'e tables \<Rightarrow> 'e callback_table" where
  "pipe_cbs fuel pl tabs = \<lparr>
     init_cb = Some (on_proto (init_pipe pl)), recv_cb = Some (recv_pipe fuel pl tabs), reply_cb = None,
     active_send_cb = None, disproto_cb = None, timeout_cb = None, close_cb = Some (on_proto (close_pipe pl))\<rparr>"

definition update_pipe :: "'e platform \<Rightarrow> byte list \<Rightarrow> 'e gateway \<Rightarrow> int \<times> 'e gateway" where
  "update_pipe pl b g =
     (if b \<noteq> [] \<and> pipe_wr g \<ge> 0 then (0, snd (call (pipe_write pl (pipe_wr g) b) g)) else (0, g))"

text \<open>\<open>junk\<close> is the fresh block of \<open>MAX_PIPE_PAYLOAD_LEN\<close> bytes.\<close>

definition pipe_proto :: "cbuf \<Rightarrow> splayer_status \<Rightarrow> st_proto" where
  "pipe_proto junk st0 = \<lparr>pname = bytes ''syspipe'', config = LOOP_CFG_RETRY, timecount = 0, timeout = 0, pfd = 0,
     recv_buf = \<lparr>payload = junk, max_len = 4096, blen = 1, bbegin = 0\<rparr>,
     play_status = st0, callbacks = K_PIPE, active = 0, private_buf = None\<rparr>"

definition add_pipe :: "cbuf \<Rightarrow> splayer_status \<Rightarrow> 'e gateway \<Rightarrow> int \<times> 'e gateway" where
  "add_pipe junk st0 g = add_proto (pipe_proto junk st0) g"

section \<open>Noticing a change\<close>

definition c_abs :: "int \<Rightarrow> int option" where
  "c_abs a = (if a < 0 then int32 (- a) else Some a)"

definition statuscmp :: "splayer_status \<Rightarrow> splayer_status \<Rightarrow> int option" where
  "statuscmp des src =
     (if ps_mode des \<noteq> ps_mode src then Some 1
      else if ps_status des \<noteq> ps_status src then Some 1
      else if ps_loop des \<noteq> ps_loop src then Some 1
      else if ps_volume des \<noteq> ps_volume src then Some 1
      else if ps_index des \<noteq> ps_index src then Some 1
      else do { d \<leftarrow> int32 (ps_time des - ps_time src); e \<leftarrow> c_abs d; Some (if e > 1000 then 1 else 0) })"

definition player_status :: "'e platform \<Rightarrow> 'e gateway \<Rightarrow> (int \<times> 'e gateway) option" where
  "player_status pl g =
     (let (r, st) = splayer_get_status pl (ext g) in
      if r \<noteq> 0 then Some (-1, g)
      else do {
        c \<leftarrow> statuscmp st (s_status g);
        let g1 = (if c \<noteq> 0
            then (let g2 = g\<lparr>s_status := st\<rparr> in
              if ps_mode st = MODE_PLAYLIST
              then (let list_mode = (case get_config pl CFG_MUSIC_LIST_MODE (ext g2) of None \<Rightarrow> 0 | Some v \<Rightarrow> v) in
                if list_mode = 0 then snd (update_pipe pl (status_bytes pl st) g2) else g2)
              else if ps_mode st = MODE_AIMUSIC \<or> ps_mode st = MODE_CLOUDMUSIC
              then snd (update_pipe pl (status_bytes pl st) g2) else g2)
            else g);
        Some (0, g1\<lparr>s_status := (s_status g1)\<lparr>ps_time := ps_time st\<rparr>\<rparr>) })"

text \<open>The modes whose status goes to the links.\<close>

definition reported :: "'e platform \<Rightarrow> splayer_status \<Rightarrow> 'e \<Rightarrow> bool" where
  "reported pl st e = (ps_mode st \<in> {MODE_AIMUSIC, MODE_CLOUDMUSIC} \<or>
     ps_mode st = MODE_PLAYLIST \<and> get_config pl CFG_MUSIC_LIST_MODE e \<in> {None, Some 0})"

text \<open>C37: A change of the player is written to the pipe exactly once: the timer writes the status when
  its mode is one of those that are reported, remembers it, and its next run with the same
  player state does nothing at all.\<close>

theorem change_reported_once:
  assumes "splayer_get_status pl (ext g) = (0, st)" "statuscmp st (s_status g) = Some 1"
    and "0 \<le> pipe_wr g" "status_bytes pl st \<noteq> []"
    and "splayer_get_status pl (snd (pipe_write pl (pipe_wr g) (status_bytes pl st) (ext g))) = (0, st)"
  defines "g1 \<equiv> (if reported pl st (ext g)
      then snd (call (pipe_write pl (pipe_wr g) (status_bytes pl st)) g) else g)\<lparr>s_status := st\<rparr>"
  shows "player_status pl g = Some (0, g1) \<and> player_status pl g1 = Some (0, g1)"
proof -
  have self: "statuscmp st st = Some 0" by (simp add: statuscmp_def int32_def c_abs_def)
  have same: "st\<lparr>ps_time := ps_time st\<rparr> = st" by simp
  have first: "player_status pl g = Some (0, g1)"
    using assms(1-4)
    by (auto simp: player_status_def update_pipe_def g1_def reported_def Let_def call_simp same split: option.splits)
  have "splayer_get_status pl (ext g1) = (0, st)" "s_status g1 = st"
    using assms(1,5) by (simp_all add: g1_def call_simp)
  moreover have "g1\<lparr>s_status := st\<rparr> = g1" by (simp add: g1_def)
  ultimately show ?thesis using first self by (simp add: player_status_def)
qed

section \<open>Telling the links\<close>

text \<open>A callback that returns, keeps the lists, works on its own protocol only and leaves the status
  the protocol was told.\<close>

definition calm :: "'e cb \<Rightarrow> bool" where
  "calm f = (\<forall>a s p. gw_ok s \<and> pget a s = Some p \<longrightarrow>
     (\<exists>r s' p'. f a s = Some (r, s') \<and> same_nodes s s' \<and> halo_up s' = halo_up s \<and>
        (\<forall>b. b \<noteq> a \<longrightarrow> pget b s' = pget b s) \<and> pget a s' = Some p' \<and> play_status p' = play_status p))"

definition calm_report :: "'e tables \<Rightarrow> bool" where
  "calm_report tabs = (\<forall>k. (\<forall>f. active_send_cb (tabs k) = Some f \<longrightarrow> calm f) \<and>
     (\<forall>f. close_cb (tabs k) = Some f \<longrightarrow> calm f))"

lemma calmD:
  assumes "calm f" "gw_ok s" "pget a s = Some p"
  obtains r s' p' where "f a s = Some (r, s')" "same_nodes s s'" "gw_ok s'"
    "\<forall>b. b \<noteq> a \<longrightarrow> pget b s' = pget b s" "pget a s' = Some p'" "play_status p' = play_status p"
  using assms same_nodes_ok unfolding calm_def by metis

lemma calm_tame: "calm f \<Longrightarrow> tame f"
  unfolding calm_def tame_def by (metis option.exhaust)

text \<open>What a link that can report knows.\<close>

definition told :: "'e tables \<Rightarrow> splayer_status \<Rightarrow> 'e gateway \<Rightarrow> addr \<Rightarrow> bool" where
  "told tabs st s a = (\<forall>p. pget a s = Some p \<and> 0 \<le> pfd p \<and> active p \<noteq> 0 \<and>
     active_send_cb (table_of tabs p) \<noteq> None \<longrightarrow> play_status p = st)"

text \<open>A step of the loop: only its own protocol changes, and if that is still there, it is told.\<close>

definition own_step :: "'e tables \<Rightarrow> splayer_status \<Rightarrow> addr \<Rightarrow> 'e gateway \<Rightarrow> 'e gateway \<Rightarrow> bool" where
  "own_step tabs st a s s' = (gw_ok s' \<and> stepped a s s' \<and> (\<forall>b. b \<noteq> a \<longrightarrow> pget b s' = pget b s) \<and>
     (a \<in> set (order (protos s')) \<longrightarrow> told tabs st s' a))"

lemma delete_calm:
  assumes "calm_report tabs" "gw_ok g" "a \<in> set (order (protos g))" "delete_proto tabs a g = Some (r, g')"
  shows "\<forall>b. b \<noteq> a \<longrightarrow> pget b g' = pget b g"
proof -
  obtain p where p: "a \<noteq> 0" "pget a g = Some p" using live_order [OF assms(2,3)] by auto
  let ?g1 = "g\<lparr>protos := il_unlink a (protos g)\<rparr>"
  have ok1: "gw_ok ?g1" using assms(2) by (simp add: gw_ok_def il_ok_unlink)
  have pg: "pget b ?g1 = pget b g" for b by (simp add: pget_def il_unlink_def)
  show ?thesis
  proof (cases "close_cb (table_of tabs p)")
    case None
    then show ?thesis
      using assms(3,4) p by (auto simp: delete_proto_def pget_def il_unlink_def il_free_def)
  next
    case (Some f)
    then have "calm f" using assms(1) by (auto simp: calm_report_def table_of_def)
    moreover have "pget a ?g1 = Some p" using pg p by simp
    ultimately obtain r1 s' p' where f: "f a ?g1 = Some (r1, s')" "\<forall>b. b \<noteq> a \<longrightarrow> pget b s' = pget b ?g1"
      using calmD [of f ?g1 a p] ok1 by metis
    then show ?thesis
      using assms(3,4) p Some pg by (auto simp: delete_proto_def Let_def pget_def il_free_def split: bind_splits)
  qed
qed

lemma close_calm:
  assumes "calm_report tabs" "tame_dispatch tabs" "gw_ok g" "a \<in> set (order (protos g))"
    and "pget a g = Some p" "play_status p = st"
  shows "\<exists>r g'. close_proto tabs a g = Some (r, g') \<and> own_step tabs st a g g'"
proof (cases "config p AND LOOP_CFG_RETRY = 0")
  case True
  obtain g' where g': "delete_proto tabs a g = Some (0, g')" "gone a g g'" "pget a g' = None"
    using delete_proto_gone [OF assms(2-4)] by blast
  then show ?thesis
    using True assms(5) delete_calm [OF assms(1,3,4) g'(1)]
    by (auto simp: close_proto_def own_step_def stepped_def gone_def told_def)
next
  case retry: False
  show ?thesis
  proof (cases "close_cb (table_of tabs p)")
    case None
    then show ?thesis
      using retry assms by (auto simp: close_proto_def own_step_def stepped_def told_def)
  next
    case (Some f)
    then have "calm f" using assms(1) by (auto simp: calm_report_def table_of_def)
    then obtain r1 s' p' where f: "f a g = Some (r1, s')" "same_nodes g s'" "gw_ok s'"
      "\<forall>b. b \<noteq> a \<longrightarrow> pget b s' = pget b g" "pget a s' = Some p'" "play_status p' = play_status p"
      using calmD [OF _ assms(3,5)] by metis
    let ?t = "pset a (p'\<lparr>active := 0\<rparr>) s'"
    have t: "same_nodes s' ?t" using same_nodes_pset [OF f(5), of "p'\<lparr>active := 0\<rparr>"] by simp
    have pt: "pget b ?t = (if b = a then Some (p'\<lparr>active := 0\<rparr>) else pget b s')" for b
      by (simp add: pget_def pset_def)
    have "own_step tabs st a g s'"
      using f assms(6) stepped_same [OF f(2) assms(3)] by (simp add: own_step_def told_def)
    moreover have "own_step tabs st a g ?t"
      using f pt assms(6) same_nodes_ok [OF t f(3)] stepped_same [OF same_nodes_trans [OF f(2) t] assms(3)]
      by (simp add: own_step_def told_def)
    moreover have "own_step tabs st a g g"
      using assms by (simp add: own_step_def stepped_def told_def)
    ultimately show ?thesis using retry Some assms(5) f(1,5) by (auto simp: close_proto_def pupd_def)
  qed
qed

lemma update_body_step:
  assumes "calm_report tabs" "tame_dispatch tabs" "gw_ok g" "a \<in> set (order (protos g))"
  shows "\<exists>g'. update_body tabs st a g = Some (None, g') \<and> own_step tabs st a g g'"
proof -
  obtain p where p: "pget a g = Some p" using live_order [OF assms(3,4)] by auto
  show ?thesis
  proof (cases "0 \<le> pfd p \<and> active p \<noteq> 0 \<and> active_send_cb (table_of tabs p) \<noteq> None")
    case False
    then have "update_body tabs st a g = Some (None, g)" using p by (auto simp: update_body_def)
    then show ?thesis using False p assms(3) by (auto simp: own_step_def stepped_def told_def)
  next
    case True
    then obtain f where f: "active_send_cb (table_of tabs p) = Some f" by auto
    then have "calm f" using assms(1) by (auto simp: calm_report_def table_of_def)
    let ?p = "p\<lparr>play_status := st\<rparr>" and ?g1 = "pset a (p\<lparr>play_status := st\<rparr>) g"
    have s1: "same_nodes g ?g1" using same_nodes_pset [OF p, of ?p] by simp
    have pg1: "pget b ?g1 = (if b = a then Some ?p else pget b g)" for b by (simp add: pget_def pset_def)
    have own: "pget a ?g1 = Some ?p" using pg1 by simp
    obtain r s' p' where c: "f a ?g1 = Some (r, s')" "same_nodes ?g1 s'" "gw_ok s'"
      "\<forall>b. b \<noteq> a \<longrightarrow> pget b s' = pget b ?g1" "pget a s' = Some p'" "play_status p' = play_status ?p"
      by (rule calmD [OF \<open>calm f\<close> same_nodes_ok [OF s1 assms(3)] own])
    then have st: "play_status p' = st" by simp
    have gs: "same_nodes g s'" using same_nodes_trans [OF s1 c(2)] .
    then have in': "a \<in> set (order (protos s'))" using assms(4) by (simp add: same_nodes_def)
    obtain q g2 where g2: "close_proto tabs a s' = Some (q, g2)" "own_step tabs st a s' g2"
      using close_calm [OF assms(1,2) c(3) in' c(5) st] by blast
    have "own_step tabs st a g s'"
      using c st pg1 stepped_same [OF gs assms(3)] by (simp add: own_step_def told_def)
    moreover have "own_step tabs st a g g2"
      using g2(2) c(4) pg1 stepped_trans [OF gs] by (simp add: own_step_def)
    ultimately show ?thesis
      using True f p c(1) g2(1) by (auto simp: update_body_def pupd_def)
  qed
qed

lemma own_stepped: "own_step tabs st a s s' \<Longrightarrow> stepped a s s'"
  by (simp add: own_step_def)

lemma fan_out:
  assumes "calm_report tabs" "tame_dispatch tabs" "gw_ok s" "order (protos s) = xs @ ys"
    and "\<forall>b \<in> set xs. told tabs st s b" "pget a s = Some q" "active_send_cb (table_of tabs q) = None"
  shows "\<exists>s'. fold_body (update_body tabs st) ys s = Some (None, s') \<and> gw_ok s' \<and>
    (\<forall>b \<in> set (order (protos s')). told tabs st s' b) \<and> pget a s' = Some q"
  using assms
proof (induction ys arbitrary: xs s)
  case (Cons y ys)
  obtain s1 where s1: "update_body tabs st y s = Some (None, s1)" "own_step tabs st y s s1"
    using update_body_step [OF Cons.prems(1-3), of y st] Cons.prems(4) by auto
  have d: "distinct (xs @ y # ys)" using Cons.prems(3,4) by (simp add: gw_ok_def il_ok_def)
  have keep: "told tabs st s1 b" if "b \<in> set xs" for b
    using that d s1(2) Cons.prems(5) by (auto simp: own_step_def told_def)
  have q: "pget a s1 = Some q"
  proof (cases "a = y")
    case True
    then have "s1 = s" using s1(1) Cons.prems(6,7) by (auto simp: update_body_def split: if_splits)
    then show ?thesis using Cons.prems(6) by simp
  qed (use s1(2) Cons.prems(6) in \<open>auto simp: own_step_def\<close>)
  have ok: "gw_ok s1" using s1(2) by (simp add: own_step_def)
  consider "order (protos s1) = xs @ y # ys" | "order (protos s1) = xs @ ys"
    using stepped_order [OF own_stepped [OF s1(2)]] Cons.prems(4) d by (auto simp: remove1_append)
  then obtain xs' where xs': "order (protos s1) = xs' @ ys" "\<forall>b \<in> set xs'. told tabs st s1 b"
  proof cases
    case 1
    moreover have "told tabs st s1 y" using 1 s1(2) by (simp add: own_step_def)
    ultimately show ?thesis using that [of "xs @ [y]"] keep by simp
  next
    case 2
    then show ?thesis using that [of xs] keep by simp
  qed
  show ?case using Cons.IH [OF Cons.prems(1,2) ok xs' q Cons.prems(7)] s1(1) by simp
qed simp

lemma update_status_tells:
  assumes "calm_report tabs" "tame_dispatch tabs" "gw_ok g" "length (order (protos g)) < fuel" "halo_up g"
    and "pget a g = Some q" "active_send_cb (table_of tabs q) = None"
  shows "\<exists>g'. update_status fuel tabs st g = Some (0, g') \<and> gw_ok g' \<and>
    (\<forall>b \<in> set (order (protos g')). told tabs st g' b) \<and> pget a g' = Some q"
proof -
  have "\<exists>s'. update_body tabs st b s = Some (None, s') \<and> stepped b s s' \<and> True"
    if "gw_ok s" "b \<in> set (order (protos s))" for b s
    using update_body_step [OF assms(1,2) that, of st] own_stepped by blast
  then obtain g' where "list_for_each_safe fuel (\<lambda>g. il_next (protos g)) (update_body tabs st) 0 g = Some (None, g')"
      "fold_body (update_body tabs st) (order (protos g)) g = Some (None, g')"
    using proto_loop [of "\<lambda>_. True" "update_body tabs st" g fuel] assms(3,4) by blast
  then show ?thesis
    using fan_out [OF assms(1-3), of "[]" "order (protos g)" st a q] assms(5-7) by (auto simp: update_status_def)
qed

text \<open>What a read of the pipe does with whatever the buffer holds already.\<close>

lemma recv_pipe_tells:
  assumes "calm_report tabs" "tame_dispatch tabs" "gw_ok g" "length (order (protos g)) < fuel" "halo_up g"
    and "pget a g = Some p" "active_send_cb (table_of tabs p) = None"
    and "payload (recv_buf p) = pre @ rest" "blen (recv_buf p) = int (length pre)" "buf_ok (recv_buf p)"
    and "pipe_read pl (pfd p) (nat (max_len (recv_buf p))) (ext g) = (Some d, e)" "d \<noteq> []"
    and "length d \<le> length rest" "status_size pl \<le> length (pre @ d)"
  shows "\<exists>g' p'. recv_pipe fuel pl tabs a g = Some (0, g') \<and>
    (\<forall>b \<in> set (order (protos g')). b \<noteq> a \<longrightarrow> told tabs (status_read pl (take (status_size pl) (pre @ d))) g' b) \<and>
    pget a g' = Some p' \<and> blen (recv_buf p') = 0 \<and> buf_ok (recv_buf p') \<and> pfd p' = pfd p \<and> callbacks p' = callbacks p"
proof -
  let ?rb = "recv_buf p" and ?st = "status_read pl (take (status_size pl) (pre @ d))"
  let ?b = "pre @ d @ drop (length d) rest"
  let ?q = "p\<lparr>recv_buf := ?rb\<lparr>payload := ?b, blen := int (length pre) + int (length d)\<rparr>\<rparr>"
  let ?g1 = "g\<lparr>ext := e\<rparr>" and ?g2 = "pset a ?q (g\<lparr>ext := e\<rparr>)"
  have put: "bput (payload ?rb) (nat (blen ?rb)) d = Some ?b" using assms(8,9,13) by (simp add: bput_def)
  have g1: "gw_ok ?g1" "pget a ?g1 = Some p" using assms(3,6) by (simp_all add: gw_ok_def pget_def)
  have ok: "gw_ok ?g2" using same_nodes_ok [OF same_nodes_pset [OF g1(2), of ?q]] g1(1) by simp
  have "pget a ?g2 = Some ?q" by (simp add: pget_def pset_def)
  moreover have "active_send_cb (table_of tabs ?q) = None" using assms(7) by (simp add: table_of_def)
  moreover have "length (order (protos ?g2)) < fuel" "halo_up ?g2" using assms(4,5) by (simp_all add: pset_def)
  ultimately obtain g3 where g3: "update_status fuel tabs ?st ?g2 = Some (0, g3)" "gw_ok g3"
      "\<forall>b \<in> set (order (protos g3)). told tabs ?st g3 b" "pget a g3 = Some ?q"
    using update_status_tells [OF assms(1,2) ok] by blast
  have get: "bget ?b 0 (status_size pl) = Some (take (status_size pl) (pre @ d))"
    using assms(14) by (simp add: bget_def)
  have bok: "buf_ok (recv_buf ?q)" using assms(8,10,13) by (simp add: buf_ok_def)
  obtain p2 where p2: "clear_payload ?q = Some p2" "blen (recv_buf p2) = 0" "buf_ok (recv_buf p2)"
      "pfd p2 = pfd p" "callbacks p2 = callbacks p"
    using wipe_ok [OF bok] bok by (auto simp: clear_payload_def buf_ok_def)
  have "recv_pipe fuel pl tabs a g = Some (0, pset a p2 g3)"
  proof -
    obtain x xs where d: "d = x # xs" using assms(12) by (cases d) auto
    have "\<not> blen ?rb < 0" using assms(9) by simp
    then show ?thesis
      using assms(6,9,11) put get g3 p2(1) \<open>pget a ?g2 = Some ?q\<close>
      by (simp add: recv_pipe_def pipe_dispatch_def call_simp d)
  qed
  moreover have "told tabs ?st (pset a p2 g3) b" if "b \<in> set (order (protos g3))" "b \<noteq> a" for b
    using g3(3) that by (auto simp: told_def pget_def pset_def)
  ultimately show ?thesis using p2 by (intro exI [of _ "pset a p2 g3"] exI [of _ p2]) (simp add: pget_def pset_def)
qed


text \<open>The first status is misread: the buffer of the pipe starts with a length of one, so the links
  are told what the struct says when its bytes are moved up by one.\<close>

theorem first_status_shifted:
  assumes "calm_report tabs" "tame_dispatch tabs" "gw_ok g" "length (order (protos g)) < fuel" "halo_up g"
    and "pget a g = Some ((pipe_proto (x # rest) st0)\<lparr>pfd := fd, active := 1\<rparr>)" "length rest = 4095"
    and "active_send_cb (tabs K_PIPE) = None"
    and "pipe_read pl fd 4096 (ext g) = (Some (status_bytes pl st), e)"
    and "length (status_bytes pl st) = status_size pl" "0 < status_size pl" "status_size pl < 4096"
  shows "\<exists>g'. recv_pipe fuel pl tabs a g = Some (0, g') \<and>
    (\<forall>b \<in> set (order (protos g')). b \<noteq> a \<longrightarrow> told tabs (status_read pl (x # butlast (status_bytes pl st))) g' b)"
proof -
  let ?p = "(pipe_proto (x # rest) st0)\<lparr>pfd := fd, active := 1\<rparr>"
  have b: "payload (recv_buf ?p) = [x] @ rest" "blen (recv_buf ?p) = int (length [x])" "buf_ok (recv_buf ?p)"
    "active_send_cb (table_of tabs ?p) = None" "max_len (recv_buf ?p) = 4096" "pfd ?p = fd"
    using assms(7,8) by (simp_all add: pipe_proto_def buf_ok_def table_of_def)
  have "status_bytes pl st \<noteq> []" using assms(10,11) by auto
  moreover have "take (status_size pl) ([x] @ status_bytes pl st) = x # butlast (status_bytes pl st)"
    using assms(10,11) by (cases "status_size pl") (auto simp: butlast_conv_take)
  ultimately show ?thesis
    using recv_pipe_tells [OF assms(1-6) b(4,1-3), of pl "status_bytes pl st" e] assms(7,9-12) b(5,6) by auto
qed

section \<open>Witnesses\<close>

definition pipe_tables :: "sim tables" where
  "pipe_tables k = (ex_tables 0 k)\<lparr>active_send_cb := if k = K_PIPE then None else Some (touch id 0)\<rparr>"

lemma touch_calm:
  assumes "\<And>p. pname (f p) = pname p \<and> config (f p) = config p \<and> callbacks (f p) = callbacks p \<and>
    play_status (f p) = play_status p"
  shows "calm (touch f r)"
  unfolding calm_def
proof (intro allI impI)
  fix a p and s :: "sim gateway"
  assume p: "gw_ok s \<and> pget a s = Some p"
  have "same_nodes s (pset a (f p) s)" using same_nodes_pset [of a s p "f p"] p assms by simp
  then show "\<exists>q s' p'. touch f r a s = Some (q, s') \<and> same_nodes s s' \<and> halo_up s' = halo_up s \<and>
      (\<forall>b. b \<noteq> a \<longrightarrow> pget b s' = pget b s) \<and> pget a s' = Some p' \<and> play_status p' = play_status p"
    using p assms by (auto simp: touch_def pupd_def same_nodes_def ident_def pget_def pset_def)
qed

lemma pipe_tables_calm: "calm_report pipe_tables" "tame_dispatch pipe_tables" "active_send_cb (pipe_tables K_PIPE) = None"
proof -
  show "calm_report pipe_tables"
    using touch_calm [of id 0] touch_calm [of "\<lambda>p. p\<lparr>pfd := -1\<rparr>" 0]
    by (auto simp: calm_report_def pipe_tables_def ex_tables_def split: if_splits)
  have "close_cb (pipe_tables k) = close_cb (ex_tables 0 k)" "disproto_cb (pipe_tables k) = disproto_cb (ex_tables 0 k)" for k
    by (simp_all add: pipe_tables_def)
  moreover have "tame_dispatch (ex_tables 0)" using ex_tables_tame unfolding tame_tables_def by blast
  ultimately show "tame_dispatch pipe_tables" unfolding tame_dispatch_def by (simp only:)
  show "active_send_cb (pipe_tables K_PIPE) = None" by (simp add: pipe_tables_def)
qed

definition pipe_gw :: "st_proto \<Rightarrow> byte list \<Rightarrow> sim gateway" where
  "pipe_gw p input = sim_gateway\<lparr>ext := sim_start\<lparr>sim_input := input\<rparr>,
     protos := il_add ((ex_proto [0x61] K_TCP_CLI)\<lparr>pfd := 5, active := 1\<rparr>) (il_add p no_nodes)\<rparr>"

lemma pipe_gw_ok: "gw_ok (pipe_gw p input)" "order (protos (pipe_gw p input)) = [1, 2]" "halo_up (pipe_gw p input)"
  "pget 1 (pipe_gw p input) = Some p" "ext (pipe_gw p input) = sim_start\<lparr>sim_input := input\<rparr>"
  using il_ok_add [OF il_ok_add [OF il_ok_no_nodes, of p], of "(ex_proto [0x61] K_TCP_CLI)\<lparr>pfd := 5, active := 1\<rparr>"] il_ok_no_nodes
  by (simp_all add: gw_ok_def pipe_gw_def sim_gateway_def pget_def) (simp_all add: il_add_def no_nodes_def)

definition louder :: splayer_status where
  "louder = (sim_status sim_start)\<lparr>ps_volume := 30, ps_index := 4\<rparr>"

lemma sim_pipe [simp]: "status_size sim_platform = 8"
  "pipe_read sim_platform fd n e = (Some (take n (sim_input e)), e\<lparr>sim_input := drop n (sim_input e)\<rparr>)"
  by (simp_all add: sim_platform_def)

lemma louder_bytes: "status_bytes sim_platform louder = [30, 0, 0, 0, 4, 0, 0, 0]"
  by (simp add: sim_platform_def louder_def int_bytes_def Let_def)

lemma louder_back: "status_read sim_platform (status_bytes sim_platform louder) = louder"
  unfolding louder_bytes by (simp add: sim_platform_def louder_def of_le_word_def sim_start_def)

lemma change_reported_once_witness:
  "\<exists>g. player_status sim_platform (sim_gateway\<lparr>pipe_wr := 9, s_status := louder\<rparr>) = Some (0, g) \<and>
    sim_input (ext g) = status_bytes sim_platform (sim_status sim_start) \<and>
    player_status sim_platform g = Some (0, g)"
proof -
  let ?g = "sim_gateway\<lparr>pipe_wr := 9, s_status := louder\<rparr>" and ?st = "sim_status sim_start"
  have st: "splayer_get_status sim_platform e = (0, sim_status e)" for e by (simp add: sim_platform_def)
  have "statuscmp ?st (s_status ?g) = Some 1" by (simp add: statuscmp_def louder_def sim_start_def)
  moreover have "reported sim_platform ?st (ext ?g)"
    by (simp add: reported_def sim_platform_def sim_start_def sim_gateway_def)
  moreover have "status_bytes sim_platform ?st \<noteq> []" by (simp add: sim_platform_def int_bytes_def Let_def)
  ultimately show ?thesis
    using change_reported_once [of sim_platform ?g ?st]
    by (simp add: st call_simp) (simp add: sim_platform_def sim_gateway_def sim_start_def)
qed


lemma first_status_shifted_witness:
  "\<exists>g'. recv_pipe 3 sim_platform pipe_tables 1
      (pipe_gw ((pipe_proto (7 # replicate 4095 0) louder)\<lparr>pfd := 8, active := 1\<rparr>) (status_bytes sim_platform louder)) = Some (0, g') \<and>
    (2 \<in> set (order (protos g')) \<longrightarrow> told pipe_tables (status_read sim_platform [7, 30, 0, 0, 0, 4, 0, 0]) g' 2)"
proof -
  let ?p = "(pipe_proto (7 # replicate 4095 0) louder)\<lparr>pfd := 8, active := 1\<rparr>" and ?in = "status_bytes sim_platform louder"
  let ?g = "pipe_gw ?p ?in"
  have read: "pipe_read sim_platform 8 4096 (ext ?g) = (Some ?in, sim_start\<lparr>sim_input := []\<rparr>)"
    by (simp add: pipe_gw_ok(5) louder_bytes)
  have len: "length ?in = status_size sim_platform" by (simp add: louder_bytes)
  have ord: "length (order (protos ?g)) < 3" by (simp add: pipe_gw_ok(2))
  obtain g' where g': "recv_pipe 3 sim_platform pipe_tables 1 ?g = Some (0, g')"
      "\<forall>b \<in> set (order (protos g')). b \<noteq> 1 \<longrightarrow>
        told pipe_tables (status_read sim_platform (7 # butlast ?in)) g' b"
    using first_status_shifted [OF pipe_tables_calm(1,2) pipe_gw_ok(1) ord pipe_gw_ok(3,4) _ pipe_tables_calm(3) read len] by auto
  have "7 # butlast ?in = [7, 30, 0, 0, 0, 4, 0, 0]" by (simp add: louder_bytes)
  with g' show ?thesis by (intro exI [of _ g']) simp
qed

end
