(* ===== verification/Villa.thy ===== *)
theory Villa
  imports Tcp_Client
begin

text \<open>
  The villa link: \<open>app/villa_dispatch.c\<close> (frames with a length, a command, a text and an XOR
  check) and \<open>app/villakit.c\<close> (the protocol that finds its server by a UDP broadcast and then
  talks TCP). The frame \<open>villa_data\<close> is the memory of its packed struct: one byte, two half
  words, 2048 bytes of data and the check.
\<close>

section \<open>The frame\<close>

definition vdata :: "'e gateway \<Rightarrow> cbuf" where
  "vdata g = v_data (villa_st g)"

definition set_vdata :: "cbuf \<Rightarrow> 'e gateway \<Rightarrow> 'e gateway" where
  "set_vdata b g = g\<lparr>villa_st := (villa_st g)\<lparr>v_data := b\<rparr>\<rparr>"

definition be16 :: "16 word \<Rightarrow> byte list" where
  "be16 w = le16 (bswap16 w)"

definition VILLA_DATA_LEN :: nat where "VILLA_DATA_LEN = 2048"

definition st_villa_data :: "byte \<Rightarrow> 16 word \<Rightarrow> 16 word \<Rightarrow> byte list \<Rightarrow> byte \<Rightarrow> byte list" where
  "st_villa_data guid len c d chk = guid # le16 len @ le16 c @ d @ [chk]"

subsection \<open>The handlers\<close>

type_synonym 'e vhandler = "'e gateway \<Rightarrow> int \<times> 'e gateway"

definition v_heartbeat :: "'e vhandler" where "v_heartbeat g = (0, g)"
definition v_device_list :: "'e vhandler" where "v_device_list g = (0, g)"
definition v_scene_list :: "'e vhandler" where "v_scene_list g = (0, g)"
definition v_room_list :: "'e vhandler" where "v_room_list g = (0, g)"
definition v_floor_list :: "'e vhandler" where "v_floor_list g = (0, g)"
definition v_attribute_list :: "'e vhandler" where "v_attribute_list g = (0, g)"
definition v_ctrl :: "'e vhandler" where "v_ctrl g = (0, g)"
definition v_m_ctrl :: "'e vhandler" where "v_m_ctrl g = (0, g)"
definition v_m_specify :: "'e vhandler" where "v_m_specify g = (0, g)"
definition v_m_tunnel :: "'e vhandler" where "v_m_tunnel g = (0, g)"
definition v_m_info :: "'e vhandler" where "v_m_info g = (0, g)"
definition v_m_list :: "'e vhandler" where "v_m_list g = (0, g)"

definition villa_dis_handle :: "(16 word \<times> byte list \<times> 'e vhandler) list" where
  "villa_dis_handle =
     [(0x02, bytes ''RESPONSE_HEART_BEAT'', v_heartbeat), (0x06, bytes ''RESPONSE_DEVICE'', v_device_list),
      (0x08, bytes ''RESPONSE_SCENE'', v_scene_list), (0x0a, bytes ''RESPONSE_ROOM'', v_room_list),
      (0x0c, bytes ''RESPONSE_FLOOR'', v_floor_list), (0x0e, bytes ''RESPONSE_ATTRIBUTE'', v_attribute_list),
      (0x04, bytes ''RESPONSE_CONTROL'', v_ctrl), (0x0f, bytes ''RESPONSE_MUSIC_CONTROL'', v_m_ctrl),
      (0x0f, bytes ''RESPONSE_SPECIFY_PLAY'', v_m_specify), (0x0f, bytes ''RESPONSE_OPER_TUNNEL'', v_m_tunnel),
      (0x0f, bytes ''RESPONSE_INFO'', v_m_info), (0x0d, bytes ''RESPONSE_GET_SONGLIST'', v_m_list)]"

text \<open>The loop over the table: the type is only looked at where the command fits.\<close>

fun villa_find :: "(16 word \<times> byte list \<times> 'e vhandler) list \<Rightarrow> 16 word \<Rightarrow> byte list option \<Rightarrow>
    'e gateway \<Rightarrow> 'e gateway option" where
  "villa_find [] c ty g = Some g"
| "villa_find ((k, n, f) # rows) c ty g =
     (if k = c
      then do { t \<leftarrow> ty; if t = n then Some (snd (f g)) else villa_find rows c ty g }
      else villa_find rows c ty g)"

subsection \<open>Receiving and sending\<close>

definition villa_parse :: "'e platform \<Rightarrow> st_proto \<Rightarrow> 'e gateway \<Rightarrow> (int \<times> 'e gateway) option" where
  "villa_parse pl pro g =
     do { b \<leftarrow> bget (payload (recv_buf pro)) 0 (nat (blen (recv_buf pro)));
          m \<leftarrow> bput (vdata g) 0 b;
          hd \<leftarrow> bget m 1 4;
          let len = bswap16 (of_le16 (hd ! 0) (hd ! 1));
          let c = bswap16 (of_le16 (hd ! 2) (hd ! 3));
          m1 \<leftarrow> bput m 1 (le16 len @ le16 c);
          _ \<leftarrow> (if unat len < VILLA_DATA_LEN then Some () else None);
          k \<leftarrow> rd m1 (5 + unat len);
          m2 \<leftarrow> wr m1 2053 k;
          x \<leftarrow> bget m2 1 (unat len + 4);
          t \<leftarrow> cstr (drop 5 m2);
          let g1 = set_vdata m2 g;
          let g2 = snd (call (lua_fun pl (bytes ''lua_c_parse'') t) g1);
          if xor_check x \<noteq> k then Some (-1, g2)
          else (case Option.bind (cjson_parse pl t) (\<lambda>r. GetObjectItem r (bytes ''type'')) of
              None \<Rightarrow> Some (-1, g2)
            | Some ty \<Rightarrow> do { g3 \<leftarrow> villa_find villa_dis_handle c (valuestring ty) g2; Some (0, g3) }) }"

definition villa_send ::
  "'e platform \<Rightarrow> int \<Rightarrow> byte list \<Rightarrow> 16 word \<Rightarrow> 'e gateway \<Rightarrow> (int \<times> 'e gateway) option" where
  "villa_send pl fd s c g =
     (if fd < 0 then Some (-1, g)
      else do {
        let m = st_villa_data 0xaa (bswap16 (of_nat (length s))) (bswap16 c) (replicate VILLA_DATA_LEN 0) 0;
        _ \<leftarrow> (if length s < VILLA_DATA_LEN then Some () else None);
        m1 \<leftarrow> bput m 5 (s @ [0]);
        let len = length s + 4;
        x \<leftarrow> bget m1 1 len;
        m2 \<leftarrow> wr m1 2053 (xor_check x);
        m3 \<leftarrow> wr m2 (5 + length s) (xor_check x);
        b \<leftarrow> bget m3 0 (len + 2);
        let (ret, g1) = call (sock_send pl fd b) (set_vdata m3 g);
        Some (if ret \<noteq> int len + 2 then -1 else 0, g1) })"

section \<open>The protocol\<close>

definition villa_connect ::
  "nat \<Rightarrow> 'e platform \<Rightarrow> int \<Rightarrow> byte list \<Rightarrow> int \<Rightarrow> 'e gateway \<Rightarrow> (int \<times> 'e gateway) option" where
  "villa_connect fuel pl fd addr pt g =
     (let (n, g1) = call (sock_connect pl fd addr pt) g in
      if n \<ge> 0 then Some (0, g1)
      else do { (r, g2) \<leftarrow> conn_wait fuel pl fd g1; Some (if r < 0 then -1 else 0, g2) })"

definition villa_tcp_init :: "nat \<Rightarrow> 'e platform \<Rightarrow> 'e pcb" where
  "villa_tcp_init fuel pl pro g =
     (let (fd, g1) = call (sock_open pl True) g in
      if fd < 0 then Some (-1, pro, g1)
      else do {
        ps \<leftarrow> cstr (v_port (villa_st g1));
        pt \<leftarrow> atoi ps;
        h \<leftarrow> cstr (v_host (villa_st g1));
        addr \<leftarrow> host_by_name pl h (ext g1);
        (r, g2) \<leftarrow> villa_connect fuel pl fd addr (pt mod 65536) g1;
        if r = 0
        then do {
          let g3 = snd (call (sock_close pl (pfd pro)) g2);
          rb \<leftarrow> wipe (recv_buf pro);
          Some (0, pro\<lparr>pfd := fd, timeout := push_bit 10 10, recv_buf := rb\<lparr>blen := 0\<rparr>\<rparr>, g3) }
        else Some (-1, pro, snd (call (sock_close pl fd) g2)) })"

definition to_str :: "byte list" where
  "to_str = bytes ''{\"type\":\"REQUEST_TCP\",\"sn\":\"hi-2017-04-26\"}''"

definition heart_beat_str :: "byte list" where
  "heart_beat_str = bytes ''{\"type\":\"REQUEST_HEART_BEAT\"}''"

definition villa_udp_to :: "'e platform \<Rightarrow> 'e pcb" where
  "villa_udp_to pl pro g = Some (0, pro, snd (call (sock_sendto pl (pfd pro) 6666 to_str) g))"

definition villa_tcp_to :: "'e platform \<Rightarrow> 'e pcb" where
  "villa_tcp_to pl pro g =
     do { (r, g1) \<leftarrow> villa_send pl (pfd pro) heart_beat_str 1 g; Some (r, pro, g1) }"

definition villa_to :: "'e platform \<Rightarrow> 'e pcb" where
  "villa_to pl pro g =
     (if v_tcp_status (villa_st g) \<noteq> 0
      then villa_tcp_to pl pro (snd (call (lua_regist pl
        (bytes ''http://192.168.2.9:8080/hopeApi/upgrade/mac'')
        (bytes ''{\"deviceGuid\":\"00:00:6C:06:A6:29\",\"deviceSN\":\"70368170428025\"}'')) g))
      else villa_udp_to pl pro g)"

text \<open>\<open>_parse_udp_body\<close>: the announced server. A number that does not fit the eight bytes of the port
  text overflows it.\<close>

definition parse_udp_body :: "'e platform \<Rightarrow> st_proto \<Rightarrow> 'e gateway \<Rightarrow> (int \<times> 'e gateway) option" where
  "parse_udp_body pl pro g =
     do { t \<leftarrow> cstr (payload (recv_buf pro));
          let root = cjson_parse pl t;
          let item = (\<lambda>o' k. Option.bind o' (\<lambda>r. GetObjectItem r k));
          let data = item root (bytes ''data'');
          if item root (bytes ''type'') = None \<or> data = None \<or> item data (bytes ''ip'') = None
             \<or> item data (bytes ''port'') = None \<or> item data (bytes ''company'') = None
          then Some (1, g)
          else do {
            ip \<leftarrow> item data (bytes ''ip'');
            pt \<leftarrow> item data (bytes ''port'');
            s \<leftarrow> valuestring ip;
            h \<leftarrow> strncpy (v_host (villa_st g)) s 64;
            p \<leftarrow> (case pt of
                JString x \<Rightarrow> strncpy (v_port (villa_st g)) x 8
              | JNumber n \<Rightarrow> strcpy (v_port (villa_st g)) (dec_int n)
              | _ \<Rightarrow> Some (v_port (villa_st g)));
            Some (0, g\<lparr>villa_st := (villa_st g)\<lparr>v_host := h, v_port := p\<rparr>\<rparr>) } }"

definition villa_tcp_recv :: "'e platform \<Rightarrow> 'e pcb" where
  "villa_tcp_recv pl pro g =
     do { rb \<leftarrow> wipe (recv_buf pro);
          let (d, g1) = call (sock_recv pl (pfd pro) (nat (max_len rb))) g;
          (case d of
             Some (b # bs) \<Rightarrow> do {
               p \<leftarrow> bput (payload rb) 0 (b # bs);
               let pro1 = pro\<lparr>recv_buf := rb\<lparr>payload := p, blen := int (length (b # bs))\<rparr>\<rparr>;
               (_, g2) \<leftarrow> villa_parse pl pro1 g1;
               Some (0, pro1, g2) }
           | _ \<Rightarrow> Some (-1, pro\<lparr>recv_buf := rb\<rparr>, g1)) }"

definition set_villa :: "(villa \<Rightarrow> villa) \<Rightarrow> 'e gateway \<Rightarrow> 'e gateway" where
  "set_villa f g = g\<lparr>villa_st := f (villa_st g)\<rparr>"

definition villa_udp_recv :: "nat \<Rightarrow> 'e platform \<Rightarrow> 'e pcb" where
  "villa_udp_recv fuel pl pro g =
     do { let rb = recv_buf pro;
          let (d, g1) = call (sock_recv pl (pfd pro) (nat (max_len rb))) g;
          p \<leftarrow> (case d of None \<Rightarrow> Some (payload rb) | Some b \<Rightarrow> bput (payload rb) 0 b);
          let pro1 = pro\<lparr>recv_buf := rb\<lparr>payload := p\<rparr>\<rparr>;
          (r, g2) \<leftarrow> parse_udp_body pl pro1 g1;
          (q, pro2, g3) \<leftarrow> (if r = 0 then villa_tcp_init fuel pl pro1 g2 else Some (-1, pro1, g2));
          if r = 0 \<and> q = 0
          then do {
            let (tm, g4) = call (start_timer pl 500) (set_villa (\<lambda>v. v\<lparr>v_tcp_status := 1\<rparr>) g3);
            Some (0, pro2, set_villa (\<lambda>v. v\<lparr>v_timer := tm, v_times := 0\<rparr>) g4) }
          else Some (1, pro2, set_villa (\<lambda>v. v\<lparr>v_tcp_status := 0\<rparr>) g3) }"

definition villa_udp_init :: "'e platform \<Rightarrow> 'e pcb" where
  "villa_udp_init pl pro g =
     (let (fd, g1) = call (sock_open pl False) g; pro1 = pro\<lparr>pfd := fd\<rparr> in
      if fd < 0 then Some (-1, pro1, g1)
      else let (r, g2) = call (sock_broadcast pl fd) g1 in
        if r < 0 then Some (-1, pro1, g2)
        else let (q, g3) = call (sock_bind pl fd 7777) g2 in
          if q < 0 then Some (-1, pro1, g3) else Some (0, pro1\<lparr>active := 1\<rparr>, g3))"

definition villa_init :: "'e platform \<Rightarrow> 'e pcb" where
  "villa_init pl pro g = villa_udp_init pl pro g"

definition villa_recv :: "nat \<Rightarrow> 'e platform \<Rightarrow> 'e pcb" where
  "villa_recv fuel pl pro g =
     (if v_tcp_status (villa_st g) \<noteq> 0 then villa_tcp_recv pl pro g
      else do { (_, pro1, g1) \<leftarrow> villa_udp_recv fuel pl pro g; Some (0, pro1, g1) })"

definition villa_close :: "'e platform \<Rightarrow> 'e pcb" where
  "villa_close pl pro g =
     do { let g1 = snd (call (sock_close pl (pfd pro)) g);
          rb \<leftarrow> wipe (recv_buf pro);
          Some (0, pro\<lparr>pfd := -1, recv_buf := rb\<lparr>blen := 0\<rparr>, active := 0\<rparr>,
                set_villa (\<lambda>v. v\<lparr>v_tcp_status := 0\<rparr>) g1) }"

definition villa_dispro :: "'e platform \<Rightarrow> st_msg \<Rightarrow> 'e pcb" where
  "villa_dispro pl msg pro g =
     (if v_tcp_status (villa_st g) = 0 then Some (1, pro, g)
      else if pfd pro \<ge> 0 \<and> active pro \<noteq> 0
      then do { s \<leftarrow> cstr (m_content msg);
                (r, g1) \<leftarrow> villa_send pl (pfd pro) s (word_of_int (m_type msg)) g;
                Some (if r < 0 then -1 else 0, pro, g1) }
      else Some (-1, pro, g))"

definition villa_cbs :: "nat \<Rightarrow> 'e platform \<Rightarrow> 'e callback_table" where
  "villa_cbs fuel pl = \<lparr>
     init_cb = Some (on_proto (villa_init pl)), recv_cb = Some (on_proto (villa_recv fuel pl)),
     reply_cb = None, active_send_cb = None, disproto_cb = Some (on_msg (villa_dispro pl)),
     timeout_cb = Some (on_proto (villa_to pl)), close_cb = Some (on_proto (villa_close pl))\<rparr>"

subsection \<open>The queries\<close>

definition villa_query :: "int \<Rightarrow> byte list \<Rightarrow> 'e gateway \<Rightarrow> (int \<times> 'e gateway) option" where
  "villa_query ty s g =
     do { c \<leftarrow> strcpy (replicate 1024 0) s;
          (_, g1) \<leftarrow> add_msg (bytes ''vaillakit'') \<lparr>pm_type = ty, pm_content = c, pm_length = int (length s)\<rparr> g;
          Some (0, g1) }"

definition villa_check_device :: "'e gateway \<Rightarrow> (int \<times> 'e gateway) option" where
  "villa_check_device = villa_query 0x05 (bytes ''{\"type\":\"REQUEST_DEVICE\"}'')"

definition villa_check_scene :: "'e gateway \<Rightarrow> (int \<times> 'e gateway) option" where
  "villa_check_scene = villa_query 0x07 (bytes ''{\"type\":\"REQUEST_SCENE\"}'')"

definition villa_check_room :: "'e gateway \<Rightarrow> (int \<times> 'e gateway) option" where
  "villa_check_room = villa_query 0x09 (bytes ''{\"type\":\"REQUEST_ROOM\"}'')"

definition villa_check_floor :: "'e gateway \<Rightarrow> (int \<times> 'e gateway) option" where
  "villa_check_floor = villa_query 0x0b (bytes ''{\"type\":\"REQUEST_FLOOR\"}'')"

definition villa_check_attribute :: "'e gateway \<Rightarrow> (int \<times> 'e gateway) option" where
  "villa_check_attribute = villa_query 0x0d (bytes ''{\"type\":\"REQUEST_ATTRIBUTE\"}'')"

text \<open>The timer of the link.\<close>

definition check_info :: "'e platform \<Rightarrow> 'e gateway \<Rightarrow> (int \<times> 'e gateway) option" where
  "check_info pl g =
     (if v_tcp_status (villa_st g) = 0 then Some (0, g)
      else do {
        let n = v_times (villa_st g);
        let g1 = (if n > 12 then snd (call (kill_timer pl (v_timer (villa_st g))) g) else g);
        (_, g2) \<leftarrow> (if n = 5 then villa_check_room g1
                   else if n = 6 then villa_check_floor g1
                   else if n = 7 then villa_check_scene g1
                   else if n = 8 then villa_check_device g1
                   else if n = 9 then villa_check_attribute g1
                   else Some (0, g1));
        n' \<leftarrow> int32 (n + 1);
        Some (0, set_villa (\<lambda>v. v\<lparr>v_times := n'\<rparr>) g2) })"

definition villa_proto :: "'e platform \<Rightarrow> splayer_status \<Rightarrow> 'e gateway \<Rightarrow> st_proto" where
  "villa_proto pl st0 g = \<lparr>pname = bytes ''vaillakit'', config = LOOP_CFG_RETRY OR LOOP_CFG_WIFI,
     timecount = get_now_s pl g, timeout = push_bit 10 3, pfd = -1,
     recv_buf = \<lparr>payload = replicate 1024 0, max_len = 1024, blen = 0, bbegin = 0\<rparr>,
     play_status = st0, callbacks = K_VILLA, active = 0, private_buf = None\<rparr>"

definition add_villa_pro :: "'e platform \<Rightarrow> splayer_status \<Rightarrow> 'e gateway \<Rightarrow> int \<times> 'e gateway" where
  "add_villa_pro pl st0 g =
     (let g1 = set_villa (\<lambda>v. v\<lparr>v_tcp_status := 0\<rparr>) g in add_proto (villa_proto pl st0 g1) g1)"

section \<open>The frame codec\<close>

definition villa_frame :: "16 word \<Rightarrow> byte list \<Rightarrow> byte list" where
  "villa_frame c s = (let len = of_nat (length s) in
     0xaa # be16 len @ be16 c @ s @ [xor_check (be16 len @ be16 c @ s)])"

lemma length_be16 [simp]: "length (be16 w) = 2"
  by (simp add: be16_def)

lemma be16_conv: "be16 w = [ucast (bswap16 w), ucast (drop_bit 8 (bswap16 w))]"
  by (simp add: be16_def le16_def)

lemma le16_conv: "le16 w = [ucast w, ucast (drop_bit 8 w)]"
  by (simp add: le16_def)

lemma of_be16 [simp]: "of_le16 (be16 w ! 0) (be16 w ! 1) = bswap16 w"
  unfolding be16_def by (rule of_le16_le16)

lemma byte_no_bit [simp]: "\<not> bit (a :: byte) (8 + n)"
  using bit_imp_le_length [of a "8 + n"] by auto

lemma le16_of_le16: "le16 (of_le16 a b) = [a, b]"
  unfolding of_le16_def le16_def
  by (auto intro!: bit_word_eqI simp: bit_simps)

lemma be16_pair: "be16 (bswap16 (of_le16 a b)) = [a, b]"
  by (simp add: be16_def le16_of_le16)

lemma le16_bswap: "le16 (bswap16 w) = rev (le16 w)"
  unfolding bswap16_def le16_def
  by (auto intro!: bit_word_eqI simp: bit_simps)

lemma xor_check_rev: "xor_check (rev xs) = xor_check xs"
  by (induction xs) (simp_all add: xor_check_Cons xor.commute)

lemma xor_be16 [simp]: "xor_check (be16 w) = xor_check (le16 w)"
  by (simp add: be16_def le16_bswap xor_check_rev)

lemma length_villa_frame [simp]: "length (villa_frame c s) = length s + 6"
  by (simp add: villa_frame_def Let_def)

text \<open>The parser on a received block: \<open>body\<close> is the data array with what an earlier frame left.\<close>

lemma villa_parse_mem:
  assumes b: "bget (payload (recv_buf pro)) 0 (nat (blen (recv_buf pro)))
      = Some (guid # be16 w @ be16 c @ d)"
    and l: "length (vdata g) = 2054" "length d \<le> 2049" "unat w < 2048"
    and body: "body = d @ drop (5 + length d) (vdata g)"
  shows "villa_parse pl pro g =
    do { t \<leftarrow> cstr (butlast body @ [body ! unat w]);
         let g2 = snd (call (lua_fun pl (bytes ''lua_c_parse'') t)
           (set_vdata (guid # le16 w @ le16 c @ butlast body @ [body ! unat w]) g));
         if xor_check (be16 w @ be16 c @ take (unat w) body) \<noteq> body ! unat w then Some (-1, g2)
         else (case Option.bind (cjson_parse pl t) (\<lambda>r. GetObjectItem r (bytes ''type'')) of
              None \<Rightarrow> Some (-1, g2)
            | Some ty \<Rightarrow> do { g3 \<leftarrow> villa_find villa_dis_handle c (valuestring ty) g2; Some (0, g3) }) }"
proof -
  let ?k = "body ! unat w"
  have lb: "length body = 2049" using l body by simp
  have m: "bput (vdata g) 0 (guid # be16 w @ be16 c @ d) = Some (guid # be16 w @ be16 c @ body)"
    using l body by (simp add: bput_def numeral_eq_Suc)
  have hd: "bget (guid # be16 w @ be16 c @ body) 1 4 = Some (be16 w @ be16 c)"
    using lb by (simp add: bget_def)
  have i: "bswap16 (of_le16 ((be16 w @ be16 c) ! 0) ((be16 w @ be16 c) ! 1)) = w"
    "bswap16 (of_le16 ((be16 w @ be16 c) ! 2) ((be16 w @ be16 c) ! 3)) = c"
    using of_be16 [of w] of_be16 [of c] by (simp_all add: nth_append)
  have m1: "bput (guid # be16 w @ be16 c @ body) 1 (le16 w @ le16 c) = Some (guid # le16 w @ le16 c @ body)"
    using lb by (simp add: bput_def)
  have k: "rd (guid # le16 w @ le16 c @ body) (5 + unat w) = Some ?k"
    using lb l(3) by (simp add: rd_def nth_append)
  obtain z where z: "body = butlast body @ [z]" using lb by (metis append_butlast_last_id list.size(3) zero_neq_numeral)
  have "wr (guid # le16 w @ le16 c @ butlast body @ [z]) 2053 ?k
      = Some (guid # le16 w @ le16 c @ butlast body @ [?k])"
    using lb by (simp add: wr_def list_update_append)
  then have m2: "wr (guid # le16 w @ le16 c @ body) 2053 ?k
      = Some (guid # le16 w @ le16 c @ butlast body @ [?k])"
    using z by simp
  have x: "bget (guid # le16 w @ le16 c @ butlast body @ [?k]) 1 (unat w + 4)
      = Some (le16 w @ le16 c @ take (unat w) body)"
    using lb l(3) by (simp add: bget_def butlast_conv_take min_def)
  have t: "drop 5 (guid # le16 w @ le16 c @ butlast body @ [?k]) = butlast body @ [?k]"
    by (simp add: le16_conv)
  show ?thesis
    unfolding villa_parse_def b m hd m1 Option.bind.bind_lunit Let_def i k m2 x t
    using l(3) by (simp add: m1 k m2 x t VILLA_DATA_LEN_def)
qed

lemma villa_send_frame:
  assumes "0 \<le> fd" "length s < 2048"
  shows "\<exists>m. length m = 2054 \<and> villa_send pl fd s c g =
    (let (ret, g1) = call (sock_send pl fd (villa_frame c s)) (set_vdata m g)
     in Some (if ret \<noteq> int (length s) + 6 then -1 else 0, g1))"
proof -
  let ?len = "of_nat (length s) :: 16 word"
  let ?x = "be16 ?len @ be16 c @ s"
  let ?r = "replicate (2048 - (length s + 1)) 0"
  have m: "st_villa_data 0xaa (bswap16 ?len) (bswap16 c) (replicate VILLA_DATA_LEN 0) 0
      = 0xaa # be16 ?len @ be16 c @ replicate 2048 0 @ [0]"
    by (simp add: st_villa_data_def be16_def VILLA_DATA_LEN_def)
  have m1: "bput (0xaa # be16 ?len @ be16 c @ replicate 2048 0 @ [0]) 5 (s @ [0])
      = Some (0xaa # ?x @ 0 # ?r @ [0])"
    using bput_append [of "replicate (length s + 1) 0" "s @ [0]" "0xaa # be16 ?len @ be16 c" "?r @ [0]"]
      replicate_add [of "length s + 1" "2048 - (length s + 1)" "0 :: byte"] assms(2)
    by simp
  have x: "bget (0xaa # ?x @ 0 # ?r @ [0]) 1 (length s + 4) = Some ?x"
    by (simp add: bget_def)
  have m2: "wr (0xaa # ?x @ 0 # ?r @ [0]) 2053 (xor_check ?x)
      = Some (0xaa # ?x @ 0 # ?r @ [xor_check ?x])"
    using assms(2) wr_append [of "0xaa # ?x @ 0 # ?r" 0 "[]" "xor_check ?x"] by simp
  have m3: "wr (0xaa # ?x @ 0 # ?r @ [xor_check ?x]) (5 + length s) (xor_check ?x)
      = Some (villa_frame c s @ ?r @ [xor_check ?x])"
    using wr_append [of "0xaa # ?x" 0 "?r @ [xor_check ?x]" "xor_check ?x"]
    by (simp add: villa_frame_def Let_def numeral_eq_Suc)
  have b: "bget (villa_frame c s @ ?r @ [xor_check ?x]) 0 (length s + 4 + 2) = Some (villa_frame c s)"
    by (simp add: bget_def)
  have "length (villa_frame c s @ ?r @ [xor_check ?x]) = 2054" using assms(2) by simp
  moreover have "villa_send pl fd s c g =
    (let (ret, g1) = call (sock_send pl fd (villa_frame c s)) (set_vdata (villa_frame c s @ ?r @ [xor_check ?x]) g)
     in Some (if ret \<noteq> int (length s) + 6 then -1 else 0, g1))"
  proof -
    have guards: "(fd < 0) = False"
      "(if length s < VILLA_DATA_LEN then Some () else None) = Some ()"
      "int (length s + 4) + 2 = int (length s) + 6"
      using assms by (simp_all add: VILLA_DATA_LEN_def)
    show ?thesis
      unfolding villa_send_def Let_def m guards if_False Option.bind.bind_lunit m1 x m2 m3 b ..
  qed
  ultimately show ?thesis by blast
qed

text \<open>C21: A frame that \<open>villa_send\<close> puts on the wire is accepted by \<open>villa_parse\<close> with its command:
  the check passes, and the text handed to the JSON parser is the sent text with the check
  byte and the rest of an older frame behind it.\<close>

theorem villa_roundtrip:
  assumes send: "0 \<le> fd" "length s < 2048" "0 \<notin> set s"
    and recv: "bget (payload (recv_buf pro)) 0 (nat (blen (recv_buf pro))) = Some (villa_frame c s)"
      "length (vdata g) = 2054" "0 \<in> set (butlast (drop (6 + length s) (vdata g)))"
  shows "(\<exists>m. villa_send pl fd s c g0 =
      (let (ret, g1) = call (sock_send pl fd (villa_frame c s)) (set_vdata m g0)
       in Some (if ret \<noteq> int (length s) + 6 then -1 else 0, g1))) \<and>
    (\<exists>m tail. let t = s @ tail; g2 = snd (call (lua_fun pl (bytes ''lua_c_parse'') t) (set_vdata m g))
      in villa_parse pl pro g = (case Option.bind (cjson_parse pl t) (\<lambda>r. GetObjectItem r (bytes ''type'')) of
          None \<Rightarrow> Some (-1, g2)
        | Some ty \<Rightarrow> do { g3 \<leftarrow> villa_find villa_dis_handle c (valuestring ty) g2; Some (0, g3) }))"
proof -
  let ?len = "of_nat (length s) :: 16 word"
  define k where "k = xor_check (be16 ?len @ be16 c @ s)"
  define rest where "rest = drop (6 + length s) (vdata g)"
  let ?body = "s @ k # rest"
  have u: "unat ?len = length s" using send(2) by (simp add: unat_of_nat take_bit_eq_mod)
  have f: "villa_frame c s = 0xaa # be16 ?len @ be16 c @ (s @ [k])"
    by (simp add: villa_frame_def Let_def k_def)
  have ne: "rest \<noteq> []" using recv(3) by (auto simp: rest_def)
  have bl: "butlast ?body = s @ k # butlast rest" using ne by (simp add: butlast_append)
  have nth: "?body ! unat ?len = k" by (simp add: u nth_append)
  obtain t1 where t1: "cstr (k # butlast rest @ [k]) = Some t1"
  proof -
    have "0 \<in> set (k # butlast rest @ [k])" using recv(3) by (simp add: rest_def)
    then show ?thesis using that by (meson cstr_total)
  qed
  have t: "cstr (s @ k # butlast rest @ [k]) = Some (s @ t1)"
    using t1 send(3) by (auto simp: cstr_conv)
  have "villa_parse pl pro g =
    do { t \<leftarrow> cstr (butlast ?body @ [?body ! unat ?len]);
         let g2 = snd (call (lua_fun pl (bytes ''lua_c_parse'') t)
           (set_vdata (0xaa # le16 ?len @ le16 c @ butlast ?body @ [?body ! unat ?len]) g));
         if xor_check (be16 ?len @ be16 c @ take (unat ?len) ?body) \<noteq> ?body ! unat ?len then Some (-1, g2)
         else (case Option.bind (cjson_parse pl t) (\<lambda>r. GetObjectItem r (bytes ''type'')) of
              None \<Rightarrow> Some (-1, g2)
            | Some ty \<Rightarrow> do { g3 \<leftarrow> villa_find villa_dis_handle c (valuestring ty) g2; Some (0, g3) }) }"
    using recv(1,2) send(2) u
    by (intro villa_parse_mem [where d = "s @ [k]"]) (simp_all add: f rest_def)
  then have "villa_parse pl pro g =
     (let g2 = snd (call (lua_fun pl (bytes ''lua_c_parse'') (s @ t1))
           (set_vdata (0xaa # le16 ?len @ le16 c @ butlast ?body @ [k]) g))
      in (case Option.bind (cjson_parse pl (s @ t1)) (\<lambda>r. GetObjectItem r (bytes ''type'')) of
              None \<Rightarrow> Some (-1, g2)
            | Some ty \<Rightarrow> do { g3 \<leftarrow> villa_find villa_dis_handle c (valuestring ty) g2; Some (0, g3) }))"
    unfolding nth bl using t by (simp add: u k_def Let_def)
  then show ?thesis
    unfolding Let_def
    using villa_send_frame [OF send(1,2), of pl c g0] unfolding Let_def by blast
qed

text \<open>One corrupted byte of a frame, other than the start byte and the two length bytes, is always
  detected: no handler runs and the parser returns -1.\<close>

theorem villa_corruption_rejected:
  assumes "villa_frame c s = pre @ x # post" "y \<noteq> x" "3 \<le> length pre"
    and "bget (payload (recv_buf pro)) 0 (nat (blen (recv_buf pro))) = Some (pre @ y # post)"
    and "length (vdata g) = 2054" "length s < 2048" "0 \<in> set (butlast (drop (6 + length s) (vdata g)))"
  shows "\<exists>m t. villa_parse pl pro g =
    Some (-1, snd (call (lua_fun pl (bytes ''lua_c_parse'') t) (set_vdata m g)))"
proof -
  let ?len = "of_nat (length s) :: 16 word"
  have u: "unat ?len = length s" using assms(6) by (simp add: unat_of_nat take_bit_eq_mod)
  obtain w where w: "be16 ?len = [w ! 0, w ! 1]" "w = be16 ?len" by (simp add: be16_conv)
  define k where "k = xor_check (be16 ?len @ be16 c @ s)"
  have f: "villa_frame c s = (0xaa # be16 ?len) @ (be16 c @ s @ [k])"
    by (simp add: villa_frame_def Let_def k_def)
  obtain pre2 where pre: "pre = (0xaa # be16 ?len) @ pre2" "be16 c @ s @ [k] = pre2 @ x # post"
  proof -
    have "take 3 pre = 0xaa # be16 ?len"
      using arg_cong [OF assms(1), of "take 3"] assms(3) unfolding f by simp
    then have "pre = (0xaa # be16 ?len) @ drop 3 pre" by (metis append_take_drop_id)
    moreover from this have "be16 c @ s @ [k] = drop 3 pre @ x # post"
      using assms(1) unfolding f by (metis append.assoc same_append_eq)
    ultimately show ?thesis using that by blast
  qed
  define q where "q = pre2 @ y # post"
  have lq: "length q = length s + 3" using arg_cong [OF pre(2), of length] by (simp add: q_def)
  obtain a b d where q: "q = a # b # d" using lq by (metis Suc_length_conv add_Suc_right numeral_3_eq_3)
  let ?c = "bswap16 (of_le16 a b)"
  have fr: "pre @ y # post = 0xaa # be16 ?len @ be16 ?c @ d"
    using pre(1) q by (simp add: q_def be16_pair)
  have ld: "length d = length s + 1" using lq q by simp
  let ?body = "d @ drop (5 + length d) (vdata g)"
  have nth: "?body ! unat ?len = last d" using ld u by (simp add: nth_append last_conv_nth [of d])
      (metis ld diff_add_inverse2 last_conv_nth list.size(3) zero_neq_one add_eq_0_iff_both_eq_0)
  have tk: "take (unat ?len) ?body @ [last d] = d" using ld u
    by (metis add_diff_cancel_right' append_butlast_last_id append_eq_conv_conj append_take_drop_id
        butlast_conv_take diff_add_inverse2 length_0_conv length_append nat.simps(3) Suc_eq_plus1 take_append
        diff_is_0_eq' le_add1 take0 append_Nil2)
  have "run_check (XOR) (be16 ?len @ (be16 c @ s @ [k])) = 0"
    using xor_chk.residue_check [of "be16 ?len @ be16 c @ s"] by (simp add: k_def xor_check_def)
  then have "run_check (XOR) (be16 ?len @ q) \<noteq> 0"
    using xor_chk.single_error_detected [of "be16 ?len @ pre2" x post y] assms(2) pre(2)
    by (simp add: q_def)
  then have bad: "xor_check (be16 ?len @ be16 ?c @ take (unat ?len) ?body) \<noteq> ?body ! unat ?len"
    using xor_chk.residue [of "be16 ?len @ be16 ?c @ take (unat ?len) ?body" "last d"] tk nth q
    by (simp add: xor_check_def be16_pair)
  have len: "length d \<le> 2049" "unat ?len < 2048" using ld assms(6) u by simp_all
  have "drop (6 + length s) (vdata g) \<noteq> []" using assms(7) by auto
  then have "0 \<in> set (butlast ?body @ [?body ! unat ?len])"
    using assms(7) ld by (simp add: butlast_append)
  then obtain t where "cstr (butlast ?body @ [?body ! unat ?len]) = Some t"
    using cstr_total by blast
  with villa_parse_mem [OF assms(4) [unfolded fr] assms(5) len refl] bad
  show ?thesis by (auto simp: Let_def)
qed

text \<open>The length field is not bounded by the size of the data array: a frame whose length field is
  2048 or more makes \<open>villa_parse\<close> read outside of the array before any check is made.\<close>

theorem villa_length_unchecked:
  assumes "bget (payload (recv_buf pro)) 0 (nat (blen (recv_buf pro)))
      = Some (guid # be16 w @ be16 c @ d)"
    and "length (vdata g) = 2054" "length d \<le> 2049" "2048 \<le> unat w"
  shows "villa_parse pl pro g = None"
proof -
  let ?body = "d @ drop (5 + length d) (vdata g)"
  have lb: "length ?body = 2049" using assms by simp
  have m: "bput (vdata g) 0 (guid # be16 w @ be16 c @ d) = Some (guid # be16 w @ be16 c @ ?body)"
    using assms by (simp add: bput_def numeral_eq_Suc)
  have hd: "bget (guid # be16 w @ be16 c @ ?body) 1 4 = Some (be16 w @ be16 c)"
    using lb by (simp add: bget_def)
  have i: "bswap16 (of_le16 ((be16 w @ be16 c) ! 0) ((be16 w @ be16 c) ! 1)) = w"
    using of_be16 [of w] by (simp add: nth_append)
  show ?thesis
    using assms(4) unfolding villa_parse_def assms(1) m Option.bind.bind_lunit hd Let_def i
    by (auto simp: VILLA_DATA_LEN_def split: bind_splits)
qed

section \<open>The link as a state machine\<close>

text \<open>The manager starts the protocol when it is not active, hands it its readable socket, its timeouts
  and its messages while it is, and closes it when a callback failed; the half second timer runs
  \<open>check_info\<close> at any time.\<close>

inductive villa_step ::
  "nat \<Rightarrow> 'e platform \<Rightarrow> st_proto \<times> 'e gateway \<Rightarrow> st_proto \<times> 'e gateway \<Rightarrow> bool"
  for fuel pl where
  start: "active pro = 0 \<Longrightarrow> villa_init pl pro g = Some (r, pro', g') \<Longrightarrow>
    villa_step fuel pl (pro, g) (pro', g')"
| data: "active pro \<noteq> 0 \<Longrightarrow> villa_recv fuel pl pro g = Some (r, pro', g') \<Longrightarrow>
    villa_step fuel pl (pro, g) (pro', g')"
| timeout: "active pro \<noteq> 0 \<Longrightarrow> villa_to pl pro g = Some (r, pro', g') \<Longrightarrow>
    villa_step fuel pl (pro, g) (pro', g')"
| msg: "active pro \<noteq> 0 \<Longrightarrow> villa_dispro pl m pro g = Some (r, pro', g') \<Longrightarrow>
    villa_step fuel pl (pro, g) (pro', g')"
| stop: "villa_close pl pro g = Some (r, pro', g') \<Longrightarrow> villa_step fuel pl (pro, g) (pro', g')"
| timer: "check_info pl g = Some (r, g') \<Longrightarrow> villa_step fuel pl (pro, g) (pro, g')"

inductive_cases villa_stepE: "villa_step fuel pl (pro, g) s'"

text \<open>The start: what \<open>add_villa_pro\<close> registers.\<close>

definition villa_start :: "'e platform \<Rightarrow> splayer_status \<Rightarrow> 'e gateway \<Rightarrow> st_proto \<times> 'e gateway" where
  "villa_start pl st0 g = (let g1 = set_villa (\<lambda>v. v\<lparr>v_tcp_status := 0\<rparr>) g in
     (villa_proto pl st0 g1, snd (add_villa_pro pl st0 g)))"

text \<open>The link counts as up only over an open socket of an active protocol.\<close>

fun link_ok :: "st_proto \<times> 'e gateway \<Rightarrow> bool" where
  "link_ok (pro, g) = (v_tcp_status (villa_st g) = 0 \<or> 0 \<le> pfd pro \<and> active pro \<noteq> 0)"

abbreviation tcp_up :: "'e gateway \<Rightarrow> int" where
  "tcp_up g \<equiv> v_tcp_status (villa_st g)"

lemma tcp_up_set [simp]:
  "tcp_up (set_vdata b g) = tcp_up g" "villa_st (snd (call f g)) = villa_st g"
  by (simp_all add: set_vdata_def call_simp)

lemma call_tcp_up: "call f g = (r, g') \<Longrightarrow> villa_st g' = villa_st g"
  by (auto simp: call_simp)

lemma villa_find_keeps: "villa_find rows c ty g = Some g' \<Longrightarrow>
    \<forall>(k, n, f) \<in> set rows. \<forall>g. snd (f g) = g \<Longrightarrow> g' = g"
  by (induction rows c ty g rule: villa_find.induct) (auto split: if_splits bind_splits)

lemma villa_handlers_keep: "\<forall>(k, n, f) \<in> set villa_dis_handle. \<forall>g. snd (f g) = g"
  by (simp add: villa_dis_handle_def v_heartbeat_def v_device_list_def v_scene_list_def v_room_list_def
      v_floor_list_def v_attribute_list_def v_ctrl_def v_m_ctrl_def v_m_specify_def v_m_tunnel_def
      v_m_info_def v_m_list_def)

lemmas villa_found = villa_find_keeps [OF _ villa_handlers_keep]

lemma villa_parse_up: "villa_parse pl pro g = Some (r, g') \<Longrightarrow> tcp_up g' = tcp_up g"
  by (auto simp: villa_parse_def Let_def split: bind_splits if_splits option.splits dest: villa_found)

lemma villa_send_up: "villa_send pl fd s c g = Some (r, g') \<Longrightarrow> tcp_up g' = tcp_up g"
  by (auto simp: villa_send_def Let_def case_prod_beta split: bind_splits if_splits)

lemma add_msg_villa: "add_msg t m g = Some (r, g') \<Longrightarrow> villa_st g' = villa_st g"
  by (auto simp: add_msg_def split: if_splits bind_splits)

lemma villa_query_villa: "villa_query ty s g = Some (r, g') \<Longrightarrow> villa_st g' = villa_st g"
  by (auto simp: villa_query_def dest: add_msg_villa split: bind_splits)

lemma check_info_up: "check_info pl g = Some (r, g') \<Longrightarrow> tcp_up g' = tcp_up g"
  by (auto simp: check_info_def Let_def set_villa_def villa_check_room_def villa_check_floor_def
      villa_check_scene_def villa_check_device_def villa_check_attribute_def
      dest!: villa_query_villa split: bind_splits if_splits)

lemma villa_tcp_init_up:
  "villa_tcp_init fuel pl pro g = Some (r, pro', g') \<Longrightarrow>
   active pro' = active pro \<and> (r = 0 \<longrightarrow> 0 \<le> pfd pro')"
  by (auto simp: villa_tcp_init_def Let_def case_prod_beta split: bind_splits if_splits)

lemma parse_udp_active: "villa_udp_recv fuel pl pro g = Some (r, pro', g') \<Longrightarrow> active pro \<noteq> 0 \<Longrightarrow>
    link_ok (pro', g')"
  by (auto simp: villa_udp_recv_def Let_def case_prod_beta set_villa_def
      dest: villa_tcp_init_up split: bind_splits if_splits)

lemma villa_recv_ok: "villa_recv fuel pl pro g = Some (r, pro', g') \<Longrightarrow> link_ok (pro, g) \<Longrightarrow>
    active pro \<noteq> 0 \<Longrightarrow> link_ok (pro', g')"
  by (auto simp: villa_recv_def villa_tcp_recv_def Let_def case_prod_beta wipe_def
      dest: villa_parse_up parse_udp_active split: bind_splits if_splits option.splits list.splits)

lemma villa_init_ok: "villa_init pl pro g = Some (r, pro', g') \<Longrightarrow> link_ok (pro, g) \<Longrightarrow>
    active pro = 0 \<Longrightarrow> link_ok (pro', g')"
  by (auto simp: villa_init_def villa_udp_init_def Let_def case_prod_beta split: if_splits)

lemma villa_to_ok: "villa_to pl pro g = Some (r, pro', g') \<Longrightarrow> link_ok (pro, g) \<Longrightarrow> link_ok (pro', g')"
  by (auto simp: villa_to_def villa_tcp_to_def villa_udp_to_def dest!: villa_send_up
      split: if_splits bind_splits)

lemma villa_dispro_ok:
  "villa_dispro pl m pro g = Some (r, pro', g') \<Longrightarrow> link_ok (pro, g) \<Longrightarrow> link_ok (pro', g')"
  by (auto simp: villa_dispro_def dest!: villa_send_up split: if_splits bind_splits)

lemma villa_close_ok: "villa_close pl pro g = Some (r, pro', g') \<Longrightarrow> link_ok (pro', g')"
  by (auto simp: villa_close_def Let_def set_villa_def split: bind_splits)

lemma check_info_ok: "check_info pl g = Some (r, g') \<Longrightarrow> link_ok (pro, g) \<Longrightarrow> link_ok (pro, g')"
  by (auto dest: check_info_up)

lemma villa_step_link_ok: "villa_step fuel pl s s' \<Longrightarrow> link_ok s \<Longrightarrow> link_ok s'"
  by (induction rule: villa_step.induct)
    (blast intro: villa_init_ok villa_recv_ok villa_to_ok villa_dispro_ok villa_close_ok check_info_ok)+

lemma villa_start_ok: "link_ok (villa_start pl st0 g)"
  by (simp add: villa_start_def add_villa_pro_def add_proto_def Let_def case_prod_beta set_villa_def il_add_def)

lemma villa_reach_link_ok:
  assumes "(villa_step fuel pl)\<^sup>*\<^sup>* (villa_start pl st0 g0) s"
  shows "link_ok s"
  using assms by (induction rule: rtranclp_induct) (auto intro: villa_start_ok villa_step_link_ok)

text \<open>C13: In every reachable state of the villa link the TCP status is set only while the protocol is
  active over an open socket; so the message callback asks for a retry exactly while the link is
  down, and otherwise always hands the message to \<open>villa_send\<close>.\<close>

theorem villa_link_invariant:
  assumes "(villa_step fuel pl)\<^sup>*\<^sup>* (villa_start pl st0 g0) (pro, g)"
  shows "(tcp_up g \<noteq> 0 \<longrightarrow> 0 \<le> pfd pro \<and> active pro \<noteq> 0) \<and>
    villa_dispro pl m pro g =
      (if tcp_up g = 0 then Some (1, pro, g)
       else do { s \<leftarrow> cstr (m_content m);
                 (r, g1) \<leftarrow> villa_send pl (pfd pro) s (word_of_int (m_type m)) g;
                 Some (if r < 0 then -1 else 0, pro, g1) })"
  using villa_reach_link_ok [OF assms] by (auto simp: villa_dispro_def)

section \<open>Examples\<close>

definition ex_pro :: "byte list \<Rightarrow> st_proto" where
  "ex_pro b = \<lparr>pname = bytes ''vaillakit'', config = LOOP_CFG_RETRY, timecount = 0, timeout = 100, pfd = 5,
     recv_buf = \<lparr>payload = b, max_len = 1024, blen = int (length b), bbegin = 0\<rparr>,
     play_status = sim_status sim_start, callbacks = K_VILLA, active = 1, private_buf = None\<rparr>"

lemma ex_pro_bytes: "bget (payload (recv_buf (ex_pro b))) 0 (nat (blen (recv_buf (ex_pro b)))) = Some b"
  by (simp add: ex_pro_def bget_def)

lemma butlast_rep [simp]: "butlast (replicate n x) = replicate (n - 1) x"
  by (simp add: butlast_conv_take min_def)

lemma sim_vdata: "vdata sim_gateway = replicate 2054 0"
  by (simp add: vdata_def sim_gateway_def)

lemma villa_roundtrip_witness:
  "\<exists>m tail. let t = [0x41] @ tail; g2 = snd (call (lua_fun sim_platform (bytes ''lua_c_parse'') t) (set_vdata m sim_gateway))
      in villa_parse sim_platform (ex_pro (villa_frame 2 [0x41])) sim_gateway =
        (case Option.bind (cjson_parse sim_platform t) (\<lambda>r. GetObjectItem r (bytes ''type'')) of
          None \<Rightarrow> Some (-1, g2)
        | Some ty \<Rightarrow> do { g3 \<leftarrow> villa_find villa_dis_handle 2 (valuestring ty) g2; Some (0, g3) })"
  using villa_roundtrip [of 5 "[0x41]" "ex_pro (villa_frame 2 [0x41])" 2 sim_gateway sim_platform sim_gateway,
      THEN conjunct2]
  by (simp only: ex_pro_bytes sim_vdata) simp

lemma villa_length_unchecked_witness:
  "villa_parse sim_platform (ex_pro (0xaa # be16 0x0800 @ be16 2 @ [])) sim_gateway = None"
  by (rule villa_length_unchecked [OF ex_pro_bytes]) (simp_all add: sim_vdata)

lemma villa_corruption_rejected_witness:
  "\<exists>m t. villa_parse sim_platform (ex_pro ((villa_frame 2 [0x41])[4 := 3])) sim_gateway =
    Some (-1, snd (call (lua_fun sim_platform (bytes ''lua_c_parse'') t) (set_vdata m sim_gateway)))"
proof -
  have f: "villa_frame 2 [0x41] = [0xaa, 0, 1, 0] @ 2 # [0x41, 0x42]"
    by code_simp
  then have u: "(villa_frame 2 [0x41])[4 := 3] = [0xaa, 0, 1, 0] @ 3 # [0x41, 0x42]"
    by simp
  show ?thesis
    unfolding u by (rule villa_corruption_rejected [OF f _ _ ex_pro_bytes]) (simp_all add: sim_vdata)
qed

definition ex_start :: "st_proto \<times> sim gateway" where
  "ex_start = villa_start sim_platform (sim_status sim_start) sim_gateway"

lemma villa_link_invariant_witness:
  "villa_dispro sim_platform \<lparr>m_type = 5, m_content = [0], m_target = [], m_length = 0\<rparr> (fst ex_start) (snd ex_start) = Some (1, fst ex_start, snd ex_start)"
proof -
  have "tcp_up (snd ex_start) = 0"
    by (simp add: ex_start_def villa_start_def add_villa_pro_def add_proto_def Let_def case_prod_beta
        set_villa_def il_add_def)
  then show ?thesis
    using villa_link_invariant [of 0 sim_platform "sim_status sim_start" sim_gateway "fst ex_start" "snd ex_start"]
    by (simp add: ex_start_def)
qed

end
