(* ===== verification/Rs485.thy ===== *)
theory Rs485
  imports Player
begin

text \<open>
  The RS485 link: \<open>app/serial_rs485.c\<close> collects a frame byte by byte, \<open>app/rs485_dispatch.c\<close>
  checks it, looks its command up in a table and lets the handler turn the receive buffer into
  the reply. A frame is overlaid on the receive buffer: seven header bytes (guid, destination
  address and channel, source address and channel, device type, length), the command at 7, the
  body from 8, and the check behind the \<open>length\<close> bytes of command and body.
\<close>

section \<open>The receive buffer as a frame\<close>

definition pay :: "st_proto \<Rightarrow> cbuf" where
  "pay pro = payload (recv_buf pro)"

definition set_pay :: "cbuf \<Rightarrow> st_proto \<Rightarrow> st_proto" where
  "set_pay b pro = pro\<lparr>recv_buf := (recv_buf pro)\<lparr>payload := b\<rparr>\<rparr>"

lemma pay_set_pay [simp]: "pay (set_pay b pro) = b"
  by (simp add: pay_def set_pay_def)

section \<open>The check\<close>

function crc_bits :: "byte \<Rightarrow> byte \<Rightarrow> byte \<Rightarrow> byte" where
  "crc_bits crc d i =
     (if i = 0 then crc
      else let c1 = (if crc AND 0x80 \<noteq> 0 then push_bit 1 crc XOR 0x31 else push_bit 1 crc);
               c2 = (if d AND i \<noteq> 0 then c1 XOR 0x31 else c1)
           in crc_bits c2 d (drop_bit 1 i))"
  by pat_completeness auto
termination
  by (relation "measure (\<lambda>(_, _, i). unat i)")
    (auto simp: drop_bit_eq_div unat_div unat_gt_0)

declare crc_bits.simps [simp del]

definition crc8_step :: "byte \<Rightarrow> byte \<Rightarrow> byte" where
  "crc8_step crc d = crc_bits crc d 0x80"

fun crc8_loop :: "nat \<Rightarrow> cbuf \<Rightarrow> nat \<Rightarrow> byte \<Rightarrow> byte option" where
  "crc8_loop 0 b p crc = Some crc"
| "crc8_loop (Suc n) b p crc = do { d \<leftarrow> rd b p; crc8_loop n b (Suc p) (crc8_step crc d) }"

text \<open>The length argument is a \<open>uint8_t\<close>.\<close>

definition Crc8CheckSum :: "cbuf \<Rightarrow> byte \<Rightarrow> byte option" where
  "Crc8CheckSum b len = crc8_loop (unat len) b 0 0"

text \<open>One step of the register with a zero data bit.\<close>

definition crc_shift :: "byte \<Rightarrow> byte" where
  "crc_shift c = push_bit 1 c XOR (if bit c 7 then 0x31 else 0)"

definition crc_shift8 :: "byte \<Rightarrow> byte" where
  "crc_shift8 x =
    crc_shift (crc_shift (crc_shift (crc_shift (crc_shift (crc_shift (crc_shift (crc_shift x)))))))"

lemma bit_crc_shift:
  "bit (crc_shift c) n \<longleftrightarrow> (1 \<le> n \<and> n < 8 \<and> bit c (n - 1)) \<noteq> (bit c 7 \<and> bit (0x31 :: byte) n)"
proof -
  have "bit (push_bit 1 c) n \<longleftrightarrow> 1 \<le> n \<and> n < 8 \<and> bit c (n - 1)"
    by (simp only: bit_push_bit_iff possible_bit_word) auto
  then show ?thesis unfolding crc_shift_def bit_xor_iff by simp
qed

lemma crc_shift_additive: "crc_shift (x XOR y) = crc_shift x XOR crc_shift y"
  by (rule bit_word_eqI) (auto simp: bit_crc_shift bit_xor_iff)

lemma crc_shift_zero:
  assumes "crc_shift z = 0"
  shows "z = 0"
proof (rule bit_word_eqI)
  have s: "\<not> bit (crc_shift z) n" for n using assms by simp
  have no: "\<not> bit z 7" using s [of 0] by (simp add: bit_crc_shift)
  fix n assume "n < LENGTH(8)"
  then show "bit z n = bit 0 n" using no s [of "Suc n"] by (cases "n = 7") (auto simp: bit_crc_shift)
qed

lemma crc_shift8_additive: "crc_shift8 (x XOR y) = crc_shift8 x XOR crc_shift8 y"
  by (simp only: crc_shift8_def crc_shift_additive)

lemma crc_shift8_zero: "crc_shift8 z = 0 \<longleftrightarrow> z = 0"
proof
  assume "crc_shift8 z = 0"
  then show "z = 0" unfolding crc_shift8_def by (auto dest!: crc_shift_zero)
next
  have "crc_shift8 0 = 0" by code_simp
  then show "z = 0 \<Longrightarrow> crc_shift8 z = 0" by simp
qed

lemma mask_bit:
  "c AND 0x80 \<noteq> 0 \<longleftrightarrow> bit (c :: byte) 7" "c AND 0x40 \<noteq> 0 \<longleftrightarrow> bit c 6"
  "c AND 0x20 \<noteq> 0 \<longleftrightarrow> bit c 5" "c AND 0x10 \<noteq> 0 \<longleftrightarrow> bit c 4"
  "c AND 8 \<noteq> 0 \<longleftrightarrow> bit c 3" "c AND 4 \<noteq> 0 \<longleftrightarrow> bit c 2"
  "c AND 2 \<noteq> 0 \<longleftrightarrow> bit c 1" "c AND 1 \<noteq> 0 \<longleftrightarrow> bit c 0"
proof -
  have "(0x80 :: byte) = push_bit 7 1" "(0x40 :: byte) = push_bit 6 1"
      "(0x20 :: byte) = push_bit 5 1" "(0x10 :: byte) = push_bit 4 1" "(8 :: byte) = push_bit 3 1"
      "(4 :: byte) = push_bit 2 1" "(2 :: byte) = push_bit 1 1" "(1 :: byte) = push_bit 0 1"
    by code_simp+
  then show "c AND 0x80 \<noteq> 0 \<longleftrightarrow> bit (c :: byte) 7" "c AND 0x40 \<noteq> 0 \<longleftrightarrow> bit c 6"
      "c AND 0x20 \<noteq> 0 \<longleftrightarrow> bit c 5" "c AND 0x10 \<noteq> 0 \<longleftrightarrow> bit c 4"
      "c AND 8 \<noteq> 0 \<longleftrightarrow> bit c 3" "c AND 4 \<noteq> 0 \<longleftrightarrow> bit c 2"
      "c AND 2 \<noteq> 0 \<longleftrightarrow> bit c 1" "c AND 1 \<noteq> 0 \<longleftrightarrow> bit c 0"
    by (simp_all only: bit_iff_and_push_bit_not_eq_0)
qed

text \<open>\<open>crc_in c b\<close> feeds one data bit: as if it were added to the top of the register.\<close>

definition crc_in :: "byte \<Rightarrow> bool \<Rightarrow> byte" where
  "crc_in c b = crc_shift (c XOR (if b then 0x80 else 0))"

lemma crc_round:
  "(let c1 = (if c AND 0x80 \<noteq> 0 then push_bit 1 c XOR 0x31 else push_bit 1 c)
    in if b then c1 XOR 0x31 else c1) = crc_in c b"
proof -
  have "crc_shift 0x80 = 0x31" "crc_shift 0 = 0" by code_simp+
  then show ?thesis
    by (simp add: crc_in_def crc_shift_additive mask_bit) (simp add: crc_shift_def)
qed

lemma crc_bits_in: "i \<noteq> 0 \<Longrightarrow> crc_bits c d i = crc_bits (crc_in c (d AND i \<noteq> 0)) d (drop_bit 1 i)"
  by (subst crc_bits.simps) (simp add: crc_round [symmetric] Let_def)

lemma crc8_step_unfold: "crc8_step c d =
    crc_in (crc_in (crc_in (crc_in (crc_in (crc_in (crc_in (crc_in c
      (bit d 7)) (bit d 6)) (bit d 5)) (bit d 4)) (bit d 3)) (bit d 2)) (bit d 1)) (bit d 0)"
proof -
  have d: "drop_bit 1 (0x80 :: byte) = 0x40" "drop_bit 1 (0x40 :: byte) = 0x20"
      "drop_bit 1 (0x20 :: byte) = 0x10" "drop_bit 1 (0x10 :: byte) = 8" "drop_bit 1 (8 :: byte) = 4"
      "drop_bit 1 (4 :: byte) = 2" "drop_bit 1 (2 :: byte) = 1" "drop_bit 1 (1 :: byte) = 0"
    by code_simp+
  have nz: "(0x80 :: byte) \<noteq> 0" "(0x40 :: byte) \<noteq> 0" "(0x20 :: byte) \<noteq> 0" "(0x10 :: byte) \<noteq> 0"
      "(8 :: byte) \<noteq> 0" "(4 :: byte) \<noteq> 0" "(2 :: byte) \<noteq> 0" "(1 :: byte) \<noteq> 0"
    by simp_all
  have z: "crc_bits c d 0 = c" for c by (subst crc_bits.simps) simp
  show ?thesis
    unfolding crc8_step_def nz [THEN crc_bits_in] d mask_bit z ..
qed

text \<open>Feeding a byte adds it to the register and shifts eight times.\<close>

lemma crc_in_absorb:
  "crc_in (crc_shift x) b = crc_shift (crc_shift (x XOR (if b then 0x40 else 0)))"
proof -
  have "crc_shift 0x40 = 0x80" "crc_shift 0 = 0" by code_simp+
  then show ?thesis by (simp add: crc_in_def crc_shift_additive)
qed

lemma crc8_step_shift8: "crc8_step c d = crc_shift8 (c XOR d)"
proof -
  let ?e = "\<lambda>n. if bit d n then push_bit n 1 else 0 :: byte"
  have p: "push_bit 7 1 = (0x80 :: byte)" "push_bit 6 1 = (0x40 :: byte)"
      "push_bit 5 1 = (0x20 :: byte)" "push_bit 4 1 = (0x10 :: byte)" "push_bit 3 1 = (8 :: byte)"
      "push_bit 2 1 = (4 :: byte)" "push_bit 1 1 = (2 :: byte)" "push_bit 0 1 = (1 :: byte)"
    by code_simp+
  have t: "crc_shift 1 = 2" "crc_shift 2 = 4" "crc_shift 4 = 8" "crc_shift 8 = 0x10"
      "crc_shift 0x10 = 0x20" "crc_shift 0x20 = 0x40" "crc_shift 0x40 = 0x80" "crc_shift 0 = 0"
    by code_simp+
  have "crc8_step c d = crc_shift8 (c XOR (?e 7 XOR (?e 6 XOR (?e 5 XOR (?e 4 XOR (?e 3 XOR
      (?e 2 XOR (?e 1 XOR ?e 0))))))))"
    unfolding crc8_step_unfold p crc_in_def crc_shift8_def
    by (simp only: crc_shift_additive xor.assoc if_distrib [of crc_shift] t)
  also have "?e 7 XOR (?e 6 XOR (?e 5 XOR (?e 4 XOR (?e 3 XOR (?e 2 XOR (?e 1 XOR ?e 0)))))) = d"
  proof (rule bit_word_eqI)
    have e: "bit (?e m) n \<longleftrightarrow> bit d m \<and> n = m \<and> n < 8" for m n
      by (auto simp: bit_exp_iff possible_bit_word)
    fix n assume "n < LENGTH(8)"
    then have "n \<in> {0, 1, 2, 3, 4, 5, 6, 7}" by auto
    then show "bit (?e 7 XOR (?e 6 XOR (?e 5 XOR (?e 4 XOR (?e 3 XOR (?e 2 XOR (?e 1 XOR ?e 0))))))) n
        = bit d n"
      unfolding bit_xor_iff e by (elim insertE emptyE) simp_all
  qed
  finally show ?thesis .
qed

interpretation crc_chk: running_check crc8_step
proof
  show "crc8_step a b = 0 \<longleftrightarrow> a = b" for a b
    by (simp add: crc8_step_shift8 crc_shift8_zero xor_eq_zero)
  have inj: "crc_shift8 x = crc_shift8 y \<Longrightarrow> x = y" for x y
    by (metis crc_shift8_additive crc_shift8_zero xor_eq_zero)
  show "crc8_step a b = crc8_step a' b \<Longrightarrow> a = a'" for a a' b
    unfolding crc8_step_shift8 by (drule inj) (simp add: xor_right_cancel)
  show "crc8_step a b = crc8_step a b' \<Longrightarrow> b = b'" for a b b'
    unfolding crc8_step_shift8 by (drule inj) (simp add: xor_left_cancel)
qed

lemma crc8_loop_spec:
  "p + n \<le> length b \<Longrightarrow> crc8_loop n b p c = Some (foldl crc8_step c (take n (drop p b)))"
proof (induction n arbitrary: p c)
  case (Suc n)
  then have "take (Suc n) (drop p b) = b ! p # take n (drop (Suc p) b)"
    by (simp add: Cons_nth_drop_Suc [symmetric])
  with Suc show ?case by (simp add: rd_def)
qed simp

lemma Crc8CheckSum_spec:
  "unat len \<le> length b \<Longrightarrow> Crc8CheckSum b len = Some (run_check crc8_step (take (unat len) b))"
  by (simp add: Crc8CheckSum_def crc8_loop_spec run_check_def)

section \<open>Replies\<close>

definition check_addr_pro :: "st_proto \<Rightarrow> 'e gateway \<Rightarrow> bool option" where
  "check_addr_pro pro g = do { a \<leftarrow> rd (pay pro) 1; Some (a = rs_addr g) }"

definition check_485_addr :: "byte \<Rightarrow> 'e gateway \<Rightarrow> bool" where
  "check_485_addr des g = (rs_addr g = des)"

definition switch_addr :: "cbuf \<Rightarrow> cbuf option" where
  "switch_addr b =
     do { ad \<leftarrow> rd b 1; ch \<leftarrow> rd b 2; sa \<leftarrow> rd b 3; sc \<leftarrow> rd b 4;
          b1 \<leftarrow> wr b 1 sa; b2 \<leftarrow> wr b1 3 ad; b3 \<leftarrow> wr b2 2 sc; wr b3 4 ch }"

text \<open>\<open>rs->check\<close> is at 108, \<open>rs->body.body[rs->head.len - 1]\<close> at \<open>7 + len\<close>.\<close>

definition rs_sign :: "cbuf \<Rightarrow> cbuf option" where
  "rs_sign b =
     do { len \<leftarrow> rd b 6; crc \<leftarrow> Crc8CheckSum b (len + 7);
          b1 \<leftarrow> wr b 108 crc; wr b1 (7 + unat len) crc }"

definition rs_reply :: "st_proto \<Rightarrow> st_proto option" where
  "rs_reply pro = do { b \<leftarrow> switch_addr (pay pro); b' \<leftarrow> rs_sign b; Some (set_pay b' pro) }"

text \<open>\<open>rs485_check\<close> reads the struct copy: 0 when the check at 108 fits the bytes before it.\<close>

definition rs485_check :: "cbuf \<Rightarrow> bool option" where
  "rs485_check b =
     do { len \<leftarrow> rd b 6; chk \<leftarrow> rd b 108; cal \<leftarrow> Crc8CheckSum b (len + 7); Some (chk \<noteq> cal) }"

section \<open>The handlers\<close>

text \<open>A handler works on the receive buffer of its protocol; \<open>put_body k v\<close> is
  \<open>rs->body.body[k] = v\<close>.\<close>

type_synonym 'e rs_handler = "'e platform \<Rightarrow> st_proto \<Rightarrow> 'e gateway \<Rightarrow> (int \<times> st_proto \<times> 'e gateway) option"

definition get_body :: "nat \<Rightarrow> st_proto \<Rightarrow> byte option" where
  "get_body k pro = rd (pay pro) (8 + k)"

definition put_body :: "nat \<Rightarrow> byte \<Rightarrow> st_proto \<Rightarrow> st_proto option" where
  "put_body k v pro = do { b \<leftarrow> wr (pay pro) (8 + k) v; Some (set_pay b pro) }"

definition answer :: "st_proto \<Rightarrow> 'e gateway \<Rightarrow> (int \<times> st_proto \<times> 'e gateway) option" where
  "answer pro g = do { pro' \<leftarrow> rs_reply pro; Some (0, pro', g) }"

text \<open>The byte a volume is reported as: \<open>(volume * 5) >> 1\<close> and \<open>volume * 10 / 4\<close>.\<close>

definition vol_shift :: "'e platform \<Rightarrow> 'e gateway \<Rightarrow> byte" where
  "vol_shift pl g = word_of_int (ps_volume (status_of pl g) * 5 div 2)"

definition vol_quarter :: "'e platform \<Rightarrow> 'e gateway \<Rightarrow> byte" where
  "vol_quarter pl g = word_of_int ((ps_volume (status_of pl g) * 10) sdiv 4)"

definition off_cb :: "'e rs_handler" where "off_cb pl pro g = Some (0, pro, g)"
definition on_cb :: "'e rs_handler" where "on_cb pl pro g = Some (0, pro, g)"
definition effect_cb :: "'e rs_handler" where "effect_cb pl pro g = Some (0, pro, g)"
definition hdmi_cb :: "'e rs_handler" where "hdmi_cb pl pro g = Some (0, pro, g)"

text \<open>The status bytes; the code of the local playlist mode depends on the configuration.\<close>

definition play_byte :: "splayer_status \<Rightarrow> byte" where
  "play_byte st = (if ps_status st = STATUS_PLAYING then 1 else 2)"

definition mode_byte :: "'e platform \<Rightarrow> 'e gateway \<Rightarrow> byte" where
  "mode_byte pl g =
     (case ps_mode (status_of pl g) of
        MODE_PLAYLIST \<Rightarrow> (if list_mode_of pl 0 g \<noteq> 0 then 5 else 2)
      | MODE_BT \<Rightarrow> 1 | MODE_SAIR \<Rightarrow> 6 | MODE_AIMUSIC \<Rightarrow> 6 | _ \<Rightarrow> 0)"

definition loop_byte :: "splayer_status \<Rightarrow> byte" where
  "loop_byte st = (case ps_loop st of LOOP_SHUFFLE \<Rightarrow> 1 | LOOP_ALL \<Rightarrow> 2 | LOOP_ONE \<Rightarrow> 3 | _ \<Rightarrow> 0)"

definition status_fields :: "'e platform \<Rightarrow> 'e gateway \<Rightarrow> byte list" where
  "status_fields pl g = [play_byte (status_of pl g), mode_byte pl g, vol_shift pl g,
     loop_byte (status_of pl g), 0, 0]"

text \<open>The switch of \<open>_status_cb\<close>: case 0 clears the body, sets the length and falls through all
  cases; the others write the one byte they name.\<close>

definition status_bytes :: "'e platform \<Rightarrow> byte \<Rightarrow> 'e gateway \<Rightarrow> byte list" where
  "status_bytes pl sel g =
     (if sel = 0 then status_fields pl g
      else if sel \<le> 5 then [status_fields pl g ! (unat sel - 1)]
      else if sel = 0xF5 then [0] else [])"

definition status_cb :: "'e rs_handler" where
  "status_cb pl pro g =
     do { sel \<leftarrow> get_body 0 pro;
          len \<leftarrow> rd (pay pro) 6;
          b \<leftarrow> (if sel = 0
               then (if len = 0 then None
                     else do { b \<leftarrow> bset (pay pro) 8 (unat len - 1) 0; wr b 6 7 })
               else Some (pay pro));
          b' \<leftarrow> bput b 8 (status_bytes pl sel g);
          len' \<leftarrow> rd b' 6;
          let pro1 = pro\<lparr>recv_buf := (recv_buf pro)\<lparr>payload := b', blen := 7 + uint len' + 1\<rparr>\<rparr>;
          answer pro1 g }"

definition change_addr_cb :: "'e rs_handler" where
  "change_addr_cb pl pro g =
     do { a \<leftarrow> get_body 0 pro;
          let g1 = (if rs_addr g \<noteq> a
                    then snd (call (sync_config pl)
                      (snd (call (set_config pl CFG_RS485_ADDR (uint a)) (g\<lparr>rs_addr := a\<rparr>))))
                    else g);
          b \<leftarrow> wr (pay pro) 1 (rs_addr g1);
          pro1 \<leftarrow> put_body 0 0 (set_pay b pro);
          answer pro1 g1 }"

definition play_cb :: "'e rs_handler" where
  "play_cb pl pro g =
     (let st = status_of pl g;
          g1 = (if ps_mode st = MODE_PLAYLIST
                then (case ps_status st of
                    STATUS_PAUSE \<Rightarrow> snd (call (splayer_resume pl) g)
                  | STATUS_STOP \<Rightarrow> snd (call (splayer_play pl) (snd (call (splayer_set_index pl 0) g)))
                  | _ \<Rightarrow> g)
                else snd (halo_play pl 1 g))
      in do { pro1 \<leftarrow> put_body 0 1 pro; answer pro1 g1 })"

definition pause_cb :: "'e rs_handler" where
  "pause_cb pl pro g =
     (let g1 = snd (halo_play pl 0 g) in do { pro1 \<leftarrow> put_body 0 0 pro; answer pro1 g1 })"

definition pre_cb :: "'e rs_handler" where
  "pre_cb pl pro g =
     (let g1 = snd (halo_cut pl 0 g) in do { pro1 \<leftarrow> put_body 0 0 pro; answer pro1 g1 })"

definition next_cb :: "'e rs_handler" where
  "next_cb pl pro g =
     (let g1 = snd (halo_cut pl 1 g) in do { pro1 \<leftarrow> put_body 0 0 pro; answer pro1 g1 })"

definition vol_inc_cb :: "'e rs_handler" where
  "vol_inc_cb pl pro g =
     (let g1 = snd (halo_vol_ctrl pl 1 g)
      in do { pro1 \<leftarrow> put_body 0 (vol_shift pl g1) pro; answer pro1 g1 })"

definition vol_dec_cb :: "'e rs_handler" where
  "vol_dec_cb pl pro g =
     (let g1 = snd (halo_vol_ctrl pl 0 g)
      in do { pro1 \<leftarrow> put_body 0 (vol_shift pl g1) pro; answer pro1 g1 })"

definition src_cb :: "'e rs_handler" where
  "src_cb pl pro g =
     do { scene \<leftarrow> get_body 0 pro; index \<leftarrow> get_body 1 pro;
          let g1 = snd (call (broadcast_msg pl \<lparr>am_type = MSG_MUSIC_SCENE_CHANGE,
                     am_content = scene # int_bytes (uint index)\<rparr>) g);
          answer pro g1 }"

definition vol_cb :: "'e rs_handler" where
  "vol_cb pl pro g =
     do { v \<leftarrow> get_body 0 pro; (_, g1) \<leftarrow> halo_vol pl (uint v) 1 g;
          pro1 \<leftarrow> put_body 0 (vol_quarter pl g1) pro; answer pro1 g1 }"

definition halt_cb :: "'e rs_handler" where
  "halt_cb pl pro g =
     (let g1 = snd (call (splayer_stop pl) g);
          g2 = snd (call (broadcast_msg pl \<lparr>am_type = MSG_RS485_HALT, am_content = []\<rparr>) g1)
      in do { pro1 \<leftarrow> put_body 0 0 pro; answer pro1 g2 })"

definition mute_cb :: "'e rs_handler" where
  "mute_cb pl pro g =
     (let g1 = snd (halo_mute pl 1 g)
      in do { pro1 \<leftarrow> put_body 0 (vol_quarter pl g1) pro; answer pro1 g1 })"

definition demute_cb :: "'e rs_handler" where
  "demute_cb pl pro g =
     (let g1 = snd (halo_mute pl 0 g)
      in do { pro1 \<leftarrow> put_body 0 (vol_quarter pl g1) pro; answer pro1 g1 })"

definition model_cb :: "'e rs_handler" where
  "model_cb pl pro g =
     do { m \<leftarrow> get_body 0 pro;
          if m = 1 then answer pro (snd (halo_loop_set pl 1 g))
          else if m = 2 then answer pro (snd (halo_loop_set pl 2 g))
          else if m = 3 then answer pro (snd (halo_loop_set pl 3 g))
          else Some (0, pro, g) }"

text \<open>The song commands: a 16 bit index, low byte first, answered with the index that plays.\<close>

definition song_index :: "byte \<Rightarrow> byte \<Rightarrow> int" where
  "song_index lo hi = uint (of_le16 lo hi)"

definition song_cb :: "'e rs_handler" where
  "song_cb pl pro g =
     do { hi \<leftarrow> get_body 1 pro; lo \<leftarrow> get_body 0 pro;
          let g1 = snd (hope_music_play_index pl (song_index lo hi) g);
          let i = ps_index (status_of pl g1);
          pro1 \<leftarrow> put_body 0 (word_of_int i) pro;
          pro2 \<leftarrow> put_body 1 (word_of_int (i div 256)) pro1;
          answer pro2 g1 }"

definition list_song_cb :: "'e rs_handler" where
  "list_song_cb pl pro g = song_cb pl pro g"

definition screen_cb :: "'e rs_handler" where
  "screen_cb pl pro g =
     do { v \<leftarrow> get_body 0 pro;
          answer pro (snd (call (screensaver pl (v = 0)) g)) }"

definition reboot_cb :: "'e rs_handler" where
  "reboot_cb pl pro g =
     do { pro1 \<leftarrow> rs_reply pro;
          Some (0, pro1, snd (call (system_cmd pl (bytes ''reboot'')) g)) }"

section \<open>Dispatch\<close>

text \<open>The rows of \<open>rs_dis\<close> before its terminator.\<close>

definition rs_dis :: "(byte \<times> 'e rs_handler) list" where
  "rs_dis =
    [(0x00, off_cb), (0x64, on_cb), (0xB5, status_cb), (0xB6, change_addr_cb), (0xB7, play_cb),
     (0xB8, pause_cb), (0xB9, pre_cb), (0xBA, next_cb), (0xBB, vol_inc_cb), (0xBC, vol_dec_cb),
     (0xBD, src_cb), (0xBE, vol_cb), (0xC1, effect_cb), (0xE4, halt_cb), (0xE7, mute_cb),
     (0xE8, demute_cb), (0xE9, model_cb), (0xEA, song_cb), (0xEB, screen_cb), (0xEC, hdmi_cb),
     (0xED, reboot_cb), (0xEF, list_song_cb)]"

definition rs485_dispatch :: "'e rs_handler" where
  "rs485_dispatch pl pro g =
     do { s0 \<leftarrow> bget (pay pro) 0 109;
          len \<leftarrow> rd s0 6;
          chk \<leftarrow> rd s0 (7 + unat len);
          s \<leftarrow> wr s0 108 chk;
          let g1 = g\<lparr>rs_body := s\<rparr>;
          bad \<leftarrow> rs485_check s;
          if bad then Some (-1, pro, g1)
          else do {
            c \<leftarrow> rd s 7;
            let pro1 = pro\<lparr>private_buf := Some s\<rparr>;
            (case map_of rs_dis c of
               None \<Rightarrow> Some (0, pro1, g1)
             | Some cb \<Rightarrow> cb pl pro1 g1) } }"

definition init_485_addr :: "'e platform \<Rightarrow> 'e gateway \<Rightarrow> int \<times> 'e gateway" where
  "init_485_addr pl g =
     (case get_config pl CFG_RS485_ADDR (ext g) of
        None \<Rightarrow> (0, snd (call (sync_config pl)
                 (snd (call (set_config pl CFG_RS485_ADDR 0xff) (g\<lparr>rs_addr := 0xff\<rparr>)))))
      | Some a \<Rightarrow> (0, g\<lparr>rs_addr := word_of_int a\<rparr>))"

section \<open>Valid frames\<close>

definition flen :: "cbuf \<Rightarrow> nat" where
  "flen b = unat (b ! 6)"

text \<open>A buffer of the link's size with a frame whose command and body fit the struct, and one that
  carries its check.\<close>

definition rs_sized :: "cbuf \<Rightarrow> bool" where
  "rs_sized b = (length b = 128 \<and> 1 \<le> flen b \<and> flen b \<le> 100)"

definition rs_frame :: "cbuf \<Rightarrow> bool" where
  "rs_frame b = (rs_sized b \<and> run_check crc8_step (take (flen b + 8) b) = 0)"

lemma take_snoc_update: "n < length b \<Longrightarrow> take (Suc n) (b[n := v]) = take n b @ [v]"
  by (simp add: take_Suc_conv_app_nth)

lemma crc_len: "flen b \<le> 100 \<Longrightarrow> unat (b ! 6 + 7) = flen b + 7"
  by (simp add: flen_def unat_word_ariths)

lemma rs_sign_ok:
  assumes "rs_sized b"
  shows "\<exists>crc. rs_sign b = Some (b[108 := crc, 7 + flen b := crc]) \<and>
     rs_frame (b[108 := crc, 7 + flen b := crc])"
proof -
  let ?L = "flen b" and ?crc = "run_check crc8_step (take (flen b + 7) b)"
  let ?b = "b[108 := ?crc, 7 + ?L := ?crc]"
  have L: "length b = 128" "1 \<le> ?L" "?L \<le> 100" using assms by (simp_all add: rs_sized_def)
  have crc: "Crc8CheckSum b (b ! 6 + 7) = Some ?crc"
    using L crc_len [of b] Crc8CheckSum_spec [of "b ! 6 + 7" b] by simp
  have fl: "flen ?b = ?L" by (simp add: flen_def)
  have "take (?L + 8) ?b = take (?L + 7) b @ [?crc]"
    using L take_snoc_update [of "7 + ?L" "b[108 := ?crc]" ?crc]
    by (simp add: take_update_cancel add.commute)
  then have "rs_frame ?b"
    using L fl by (simp add: rs_frame_def rs_sized_def crc_chk.residue_check)
  moreover have "rs_sign b = Some ?b"
    using L crc by (simp add: rs_sign_def rd_def wr_def flen_def)
  ultimately show ?thesis by blast
qed

definition swapped_addr :: "cbuf \<Rightarrow> cbuf" where
  "swapped_addr b = b[1 := b ! 3, 3 := b ! 1, 2 := b ! 4, 4 := b ! 2]"

lemma switch_addr_ok: "rs_sized b \<Longrightarrow> switch_addr b = Some (swapped_addr b)"
  by (simp add: switch_addr_def swapped_addr_def rs_sized_def rd_def wr_def)

lemma swapped_addr_sized: "rs_sized b \<Longrightarrow> rs_sized (swapped_addr b) \<and> flen (swapped_addr b) = flen b"
  by (simp add: rs_sized_def swapped_addr_def flen_def)

lemma rs_reply_ok:
  assumes "rs_sized (pay pro)"
  shows "\<exists>crc b. rs_reply pro = Some (set_pay b pro) \<and> rs_frame b \<and>
     b = (swapped_addr (pay pro))[108 := crc, 7 + flen (pay pro) := crc]"
proof -
  obtain crc where "rs_sign (swapped_addr (pay pro)) =
      Some ((swapped_addr (pay pro))[108 := crc, 7 + flen (pay pro) := crc])"
      "rs_frame ((swapped_addr (pay pro))[108 := crc, 7 + flen (pay pro) := crc])"
    using rs_sign_ok [of "swapped_addr (pay pro)"] swapped_addr_sized [OF assms] by auto
  then show ?thesis using switch_addr_ok [OF assms] by (auto simp: rs_reply_def)
qed

section \<open>Every answer is a valid frame\<close>

text \<open>A protocol that holds a frame for this device, and what a reply to it is: a valid frame of
  the length that will be sent, with the addresses exchanged.\<close>

definition rs_request :: "st_proto \<Rightarrow> 'e gateway \<Rightarrow> bool" where
  "rs_request pro g = (rs_sized (pay pro) \<and> pay pro ! 1 = rs_addr g \<and>
     blen (recv_buf pro) = int (flen (pay pro)) + 8)"

definition replies :: "st_proto \<Rightarrow> (int \<times> st_proto \<times> 'e gateway) option \<Rightarrow> bool" where
  "replies pro r = (\<exists>pro' g'. r = Some (0, pro', g') \<and> rs_frame (pay pro') \<and>
     pay pro' ! 1 = pay pro ! 3 \<and> pay pro' ! 2 = pay pro ! 4 \<and>
     pay pro' ! 3 = rs_addr g' \<and> pay pro' ! 4 = pay pro ! 2 \<and> pay pro' ! 7 = pay pro ! 7 \<and>
     blen (recv_buf pro') = int (flen (pay pro')) + 8)"

definition same_head :: "st_proto \<Rightarrow> st_proto \<Rightarrow> bool" where
  "same_head pro pro' = (pay pro' ! 2 = pay pro ! 2 \<and> pay pro' ! 3 = pay pro ! 3 \<and>
     pay pro' ! 4 = pay pro ! 4 \<and> pay pro' ! 7 = pay pro ! 7)"

lemma same_head_refl [simp]: "same_head pro pro"
  by (simp add: same_head_def)

lemma rs_reply_replies:
  assumes "rs_request pro1 g" "same_head pro pro1"
  shows "\<exists>pro'. rs_reply pro1 = Some pro' \<and>
    (rs_addr g' = rs_addr g \<longrightarrow> replies pro (Some (0, pro', g')))"
proof -
  let ?p = "pay pro1"
  have s: "rs_sized ?p" using assms(1) by (simp add: rs_request_def)
  obtain crc b where r: "rs_reply pro1 = Some (set_pay b pro1)" "rs_frame b"
      "b = (swapped_addr ?p)[108 := crc, 7 + flen ?p := crc]"
    using rs_reply_ok [OF s] by blast
  have L: "1 \<le> flen ?p" "length ?p = 128" using s by (simp_all add: rs_sized_def)
  have "b ! 1 = ?p ! 3" "b ! 2 = ?p ! 4" "b ! 3 = ?p ! 1" "b ! 4 = ?p ! 2" "b ! 7 = ?p ! 7"
      "flen b = flen ?p"
    using L by (simp_all add: r(3) swapped_addr_def flen_def)
  then show ?thesis
    using r assms by (auto simp: replies_def rs_request_def same_head_def set_pay_def pay_def)
qed

lemma answer_replies: "rs_request pro1 g \<Longrightarrow> same_head pro pro1 \<Longrightarrow> replies pro (answer pro1 g)"
  using rs_reply_replies [of pro1 g pro g] by (auto simp: answer_def)

lemma put_body_ok:
  assumes "rs_request pro g" "k < 100"
  shows "\<exists>pro1. put_body k v pro = Some pro1 \<and> same_head pro pro1 \<and> rs_request pro1 g"
proof -
  have "length (pay pro) = 128" using assms(1) by (simp add: rs_request_def rs_sized_def)
  then show ?thesis
    using assms
    by (simp add: put_body_def wr_def same_head_def rs_request_def rs_sized_def flen_def set_pay_def pay_def)
qed

lemma rs_request_addr: "rs_addr g' = rs_addr g \<Longrightarrow> rs_request pro g' = rs_request pro g"
  by (simp add: rs_request_def)

lemma get_body_ok: "rs_request pro g \<Longrightarrow> k < 100 \<Longrightarrow> get_body k pro = Some (pay pro ! (8 + k))"
  by (simp add: get_body_def rs_request_def rs_sized_def rd_def)

text \<open>The common shape of the handlers: act, write the first body byte, answer.\<close>

lemma act_put_answer:
  assumes "rs_request pro g" "rs_addr g1 = rs_addr g"
  shows "replies pro (do { pro1 \<leftarrow> put_body 0 v pro; answer pro1 g1 })"
  using put_body_ok [OF assms(1), of 0 v] rs_request_addr [OF assms(2)] answer_replies [of _ g1 pro]
  by auto

lemma act_answer: "rs_request pro g \<Longrightarrow> rs_addr g1 = rs_addr g \<Longrightarrow> replies pro (answer pro g1)"
  using rs_request_addr [of g1 g pro] answer_replies [of pro g1 pro] by simp

lemma rs_addr_call [simp]: "rs_addr (snd (call f g)) = rs_addr g"
  by (simp add: call_simp)

lemma rs_addr_player [simp]:
  "rs_addr (snd (hope_to_local_mode pl i g)) = rs_addr g"
  "rs_addr (snd (hope_music_play_index pl i g)) = rs_addr g"
  "rs_addr (snd (halo_cut pl c g)) = rs_addr g"
  "rs_addr (snd (halo_vol_ctrl pl c g)) = rs_addr g"
  "rs_addr (snd (halo_mute pl c g)) = rs_addr g"
  "rs_addr (snd (halo_loop_set pl c g)) = rs_addr g"
  by (simp_all add: hope_to_local_mode_def hope_music_play_index_def halo_cut_def halo_vol_ctrl_def
      halo_mute_def halo_loop_set_def Let_def)

lemma rs_addr_play [simp]: "rs_addr (snd (halo_play pl c g)) = rs_addr g"
  by (simp add: halo_play_def hope_music_play_def Let_def split: play_state.split)

lemma halo_vol_byte: "\<exists>r g1. halo_vol pl (uint (v :: byte)) 1 g = Some (r, g1) \<and> rs_addr g1 = rs_addr g"
proof -
  have "uint v < 256" using uint_lt2p [of v] by simp
  moreover have "- 536870912 \<le> uint v" by (rule order_trans [OF _ uint_ge_0]) simp
  ultimately show ?thesis by (simp add: halo_vol_def int32_def call_simp)
qed

lemma status_bytes_length: "length (status_bytes pl sel g) \<le> 6"
  by (simp add: status_bytes_def status_fields_def)

lemma status_cb_replies:
  assumes "rs_request pro g"
  shows "replies pro (status_cb pl pro g)"
proof -
  let ?b = "pay pro" and ?L = "flen (pay pro)"
  let ?sel = "?b ! 8"
  have s: "length ?b = 128" "1 \<le> ?L" "?L \<le> 100" "?b ! 1 = rs_addr g" "blen (recv_buf pro) = int ?L + 8"
    using assms by (simp_all add: rs_request_def rs_sized_def)
  have l: "?b ! 6 \<noteq> 0" using s(2) by (auto simp: flen_def)
  define b where "b = (if ?sel = 0
    then (take 8 ?b @ replicate (?L - 1) 0 @ drop (8 + (?L - 1)) ?b)[6 := 7] else ?b)"
  have b: "length b = 128" "\<forall>i < 8. i \<noteq> 6 \<longrightarrow> b ! i = ?b ! i" "1 \<le> flen b" "flen b \<le> 100"
    using s by (auto simp: b_def flen_def nth_append)
  have b1: "(if ?sel = 0 then if ?b ! 6 = 0 then None
        else do { c \<leftarrow> bset ?b 8 (unat (?b ! 6) - 1) 0; wr c 6 7 } else Some ?b) = Some b"
    using s l by (auto simp: b_def bset_def wr_def flen_def)
  let ?v = "status_bytes pl ?sel g"
  define b' where "b' = take 8 b @ ?v @ drop (8 + length ?v) b"
  have v: "bput b 8 ?v = Some b'"
    using b(1) status_bytes_length [of pl ?sel g] by (simp add: bput_def b'_def)
  have b': "length b' = 128" "\<forall>i < 8. b' ! i = b ! i"
    using b(1) status_bytes_length [of pl ?sel g] by (auto simp: b'_def nth_append)
  let ?pro1 = "pro\<lparr>recv_buf := (recv_buf pro)\<lparr>payload := b', blen := 7 + uint (b' ! 6) + 1\<rparr>\<rparr>"
  have "rs_request ?pro1 g" "same_head pro ?pro1"
    using b b' s(4) by (simp_all add: rs_request_def rs_sized_def flen_def pay_def same_head_def)
  then have "replies pro (answer ?pro1 g)" by (rule answer_replies)
  moreover have "status_cb pl pro g = answer ?pro1 g"
    using s b1 v b' by (simp add: status_cb_def get_body_ok [OF assms] rd_def)
  ultimately show ?thesis by simp
qed

lemma change_addr_cb_replies:
  assumes "rs_request pro g"
  shows "replies pro (change_addr_cb pl pro g)"
proof -
  let ?a = "pay pro ! 8"
  obtain g1 where g1: "(if rs_addr g \<noteq> ?a
      then snd (call (sync_config pl) (snd (call (set_config pl CFG_RS485_ADDR (uint ?a)) (g\<lparr>rs_addr := ?a\<rparr>))))
      else g) = g1" "rs_addr g1 = ?a"
    by (cases "rs_addr g = ?a") auto
  let ?p = "set_pay ((pay pro)[1 := ?a]) pro"
  have len: "length (pay pro) = 128" using assms by (simp add: rs_request_def rs_sized_def)
  have p: "rs_request ?p g1" "same_head pro ?p"
    using assms g1(2) len
    by (simp_all add: rs_request_def rs_sized_def flen_def same_head_def) (simp_all add: set_pay_def)
  obtain pro1 where "put_body 0 0 ?p = Some pro1" "same_head ?p pro1" "rs_request pro1 g1"
    using put_body_ok [OF p(1), of 0 0] by auto
  moreover from this p(2) have "same_head pro pro1" by (simp add: same_head_def)
  ultimately show ?thesis
    using answer_replies [of pro1 g1 pro] g1 len
    by (simp add: change_addr_cb_def get_body_ok [OF assms] wr_def Let_def)
qed

lemma song_cb_replies:
  assumes "rs_request pro g"
  shows "replies pro (song_cb pl pro g)"
proof -
  let ?g = "snd (hope_music_play_index pl (song_index (pay pro ! 8) (pay pro ! 9)) g)"
  let ?i = "ps_index (status_of pl ?g)"
  have g: "rs_request pro ?g" using assms rs_request_addr [of ?g g pro] by simp
  obtain p1 where p1: "put_body 0 (word_of_int ?i) pro = Some p1" "same_head pro p1" "rs_request p1 ?g"
    using put_body_ok [OF g, of 0] by auto
  obtain p2 where p2: "put_body 1 (word_of_int (?i div 256)) p1 = Some p2" "same_head p1 p2"
      "rs_request p2 ?g"
    using put_body_ok [OF p1(3), of 1] by auto
  from p1(2) p2(2) have "same_head pro p2" by (simp add: same_head_def)
  from answer_replies [OF p2(3) this] p1 p2 show ?thesis
    by (simp add: song_cb_def get_body_ok [OF assms] Let_def)
qed

lemma reboot_cb_replies: "rs_request pro g \<Longrightarrow> replies pro (reboot_cb pl pro g)"
  using rs_reply_replies [of pro g pro "snd (call (system_cmd pl (bytes ''reboot'')) g)"]
  by (auto simp: reboot_cb_def)

lemma play_cb_replies: "rs_request pro g \<Longrightarrow> replies pro (play_cb pl pro g)"
  unfolding play_cb_def Let_def
  by (rule act_put_answer [where g = g]) (auto split: play_state.split)

lemma vol_cb_replies:
  assumes "rs_request pro g"
  shows "replies pro (vol_cb pl pro g)"
proof -
  obtain r g1 where "halo_vol pl (uint (pay pro ! 8)) 1 g = Some (r, g1)" "rs_addr g1 = rs_addr g"
    using halo_vol_byte by blast
  then show ?thesis
    using act_put_answer [OF assms, of g1 "vol_quarter pl g1"]
    by (simp add: vol_cb_def get_body_ok [OF assms])
qed

lemma put_handlers_reply:
  assumes "rs_request pro g"
  shows "replies pro (pause_cb pl pro g)" "replies pro (pre_cb pl pro g)"
    "replies pro (next_cb pl pro g)" "replies pro (vol_inc_cb pl pro g)"
    "replies pro (vol_dec_cb pl pro g)" "replies pro (halt_cb pl pro g)"
    "replies pro (mute_cb pl pro g)" "replies pro (demute_cb pl pro g)"
  unfolding pause_cb_def pre_cb_def next_cb_def vol_inc_cb_def vol_dec_cb_def halt_cb_def
    mute_cb_def demute_cb_def Let_def
  by (rule act_put_answer [OF assms], simp)+

lemma act_handlers_reply:
  assumes "rs_request pro g"
  shows "replies pro (src_cb pl pro g)" "replies pro (screen_cb pl pro g)"
    "replies pro (list_song_cb pl pro g)"
    "pay pro ! 8 \<in> {1, 2, 3} \<Longrightarrow> replies pro (model_cb pl pro g)"
  unfolding src_cb_def screen_cb_def list_song_cb_def model_cb_def get_body_ok [OF assms]
  by (auto simp: Let_def get_body_ok [OF assms] intro!: act_answer [OF assms] song_cb_replies [OF assms])

lemmas all_handlers_reply = put_handlers_reply act_handlers_reply status_cb_replies
  change_addr_cb_replies song_cb_replies reboot_cb_replies play_cb_replies vol_cb_replies

text \<open>The commands that answer; the others leave the buffer as it is.\<close>

definition silent_cmds :: "byte list" where
  "silent_cmds = [0x00, 0x64, 0xC1, 0xEC]"

definition answers :: "byte \<Rightarrow> cbuf \<Rightarrow> bool" where
  "answers c b = (c \<notin> set silent_cmds \<and> (c = 0xE9 \<longrightarrow> b ! 8 \<in> {1, 2, 3}))"

lemma handler_replies:
  assumes "(c, cb) \<in> set rs_dis" "answers c (pay pro)" "rs_request pro g"
  shows "replies pro (cb pl pro g)"
  using assms(1,2) unfolding rs_dis_def answers_def silent_cmds_def list.set
  by (elim insertE emptyE; clarsimp simp: all_handlers_reply [OF assms(3)])

interpretation rs_tab: dispatch_table "rs_dis :: (byte \<times> 'e rs_handler) list"
  by unfold_locales (simp add: rs_dis_def)

section \<open>Dispatch of a frame\<close>

definition rs_copy :: "cbuf \<Rightarrow> cbuf" where
  "rs_copy b = (take 109 b)[108 := b ! (7 + flen b)]"

lemma rs_copy_facts:
  assumes "rs_sized b"
  shows "length (rs_copy b) = 109" "rs_copy b ! 6 = b ! 6" "rs_copy b ! 7 = b ! 7"
    "rs_copy b ! 108 = b ! (7 + flen b)" "take (flen b + 7) (rs_copy b) = take (flen b + 7) b"
  using assms by (simp_all add: rs_copy_def rs_sized_def take_update_cancel)

lemma rs485_check_copy:
  assumes "rs_sized b"
  shows "rs485_check (rs_copy b) = Some (run_check crc8_step (take (flen b + 8) b) \<noteq> 0)"
proof -
  have L: "length b = 128" "flen b \<le> 100" using assms by (simp_all add: rs_sized_def)
  have u: "unat (b ! 6 + 7) = flen b + 7" using L crc_len by simp
  have "Crc8CheckSum (rs_copy b) (b ! 6 + 7)
      = Some (run_check crc8_step (take (flen b + 7) b))"
    using Crc8CheckSum_spec [of "b ! 6 + 7" "rs_copy b"] rs_copy_facts [OF assms] u L by simp
  moreover have "take (flen b + 8) b = take (flen b + 7) b @ [b ! (flen b + 7)]"
    using L take_Suc_conv_app_nth [of "flen b + 7" b] by (simp add: add.commute)
  ultimately show ?thesis
    using rs_copy_facts [OF assms]
    by (simp add: rs485_check_def rd_def crc_chk.residue add.commute)
qed

lemma rs485_dispatch_sized:
  assumes "rs_sized (pay pro)"
  shows "rs485_dispatch pl pro g =
    (let b = pay pro; s = rs_copy b; g1 = g\<lparr>rs_body := s\<rparr>; pro1 = pro\<lparr>private_buf := Some s\<rparr> in
     if run_check crc8_step (take (flen b + 8) b) \<noteq> 0 then Some (-1, pro, g1)
     else (case map_of rs_dis (b ! 7) of None \<Rightarrow> Some (0, pro1, g1) | Some cb \<Rightarrow> cb pl pro1 g1))"
proof -
  let ?b = "pay pro"
  have L: "length ?b = 128" "flen ?b \<le> 100" using assms by (simp_all add: rs_sized_def)
  have 1: "bget ?b 0 109 = Some (take 109 ?b)" using L by (simp add: bget_def)
  have 2: "rd (take 109 ?b) 6 = Some (?b ! 6)" "rd (take 109 ?b) (7 + unat (?b ! 6)) = Some (?b ! (7 + flen ?b))"
      "wr (take 109 ?b) 108 (?b ! (7 + flen ?b)) = Some (rs_copy ?b)"
    using L by (simp_all add: rd_def wr_def rs_copy_def flen_def)
  have 3: "rd (rs_copy ?b) 7 = Some (?b ! 7)" using rs_copy_facts [OF assms] by (simp add: rd_def)
  show ?thesis
    unfolding rs485_dispatch_def 1 Let_def using 2 3 rs485_check_copy [OF assms] by simp
qed

text \<open>C40: A valid frame for this device whose command answers is answered: the handler leaves a
  valid frame of the length that is sent, addressed to the sender, from this device.\<close>

theorem rs485_answer_valid:
  fixes g :: "'e gateway" and cb :: "'e rs_handler"
  assumes "rs_request pro g" "rs_frame (pay pro)" "(pay pro ! 7, cb) \<in> set rs_dis"
    "answers (pay pro ! 7) (pay pro)"
  shows "replies pro (rs485_dispatch pl pro g)"
proof -
  let ?p = "pro\<lparr>private_buf := Some (rs_copy (pay pro))\<rparr>" and ?g = "g\<lparr>rs_body := rs_copy (pay pro)\<rparr>"
  have p: "pay ?p = pay pro" "recv_buf ?p = recv_buf pro" by (simp_all add: pay_def)
  then have "rs_request ?p ?g" using assms(1) by (simp add: rs_request_def)
  with handler_replies [of "pay pro ! 7" cb ?p ?g pl] assms(3,4) p
  have "replies ?p (cb pl ?p ?g)" by simp
  moreover have "rs485_dispatch pl pro g = cb pl ?p ?g"
    using assms(1,2) rs_tab.row_reached [OF assms(3)] rs485_dispatch_sized [of pro pl g]
    by (simp add: rs_frame_def Let_def)
  ultimately show ?thesis using p by (simp add: replies_def)
qed

text \<open>C4: A frame with one corrupted byte, other than the length, is rejected without running a
  handler: the protocol, its buffer and the player are left alone.\<close>

theorem rs485_corruption_rejected:
  assumes "rs_frame b" "i < flen b + 8" "i \<noteq> 6" "b ! i \<noteq> v" "pay pro = b[i := v]"
  shows "rs485_dispatch pl pro g = Some (-1, pro, g\<lparr>rs_body := rs_copy (pay pro)\<rparr>)"
proof -
  have L: "length b = 128" "flen b \<le> 100" "run_check crc8_step (take (flen b + 8) b) = 0"
    using assms(1) by (simp_all add: rs_frame_def rs_sized_def)
  have f: "flen (b[i := v]) = flen b" using assms(3) by (simp add: flen_def)
  then have s: "rs_sized (pay pro)" using assms(1,5) by (simp add: rs_frame_def rs_sized_def)
  let ?t = "take (flen b + 8) b"
  have i: "i < length ?t" "?t ! i = b ! i" using assms(2) L by simp_all
  have "take i ?t @ ?t ! i # drop (Suc i) ?t = ?t" using id_take_nth_drop [OF i(1)] by (rule sym)
  then have z: "run_check crc8_step (take i ?t @ b ! i # drop (Suc i) ?t) = 0" using L(3) i(2) by simp
  have t': "take (flen b + 8) (b[i := v]) = take i ?t @ v # drop (Suc i) ?t"
    using upd_conv_take_nth_drop [OF i(1), of v] by (simp only: take_update_swap)
  have "run_check crc8_step (take (flen b + 8) (b[i := v])) \<noteq> 0"
    unfolding t' by (rule crc_chk.single_error_detected [OF z assms(4)])
  then show ?thesis
    using rs485_dispatch_sized [OF s, of pl g] f assms(5) by (simp add: Let_def)
qed

section \<open>Examples\<close>

text \<open>A request of device 9 to device 7 for a volume step, in a buffer of the link.\<close>

definition ex_rs_buf :: cbuf where
  "ex_rs_buf = [0xaa, 7, 1, 9, 2, 0, 2, 0xBB, 0, 0x5c] @ replicate 118 0"

definition ex_rs_pro :: st_proto where
  "ex_rs_pro = \<lparr>pname = bytes ''rs485'', config = LOOP_CFG_RETRY, timecount = 0, timeout = 1024,
     pfd = 4, recv_buf = \<lparr>payload = ex_rs_buf, max_len = 128, blen = 10, bbegin = 1\<rparr>,
     play_status = sim_status sim_start, callbacks = K_RS485, active = 1, private_buf = None\<rparr>"

lemma ex_rs_frame: "rs_frame ex_rs_buf"
  by code_simp

lemma ex_rs_request: "pay ex_rs_pro = ex_rs_buf" "rs_request ex_rs_pro sim_gateway"
  by (simp add: pay_def ex_rs_pro_def) code_simp

lemma rs485_answer_valid_witness:
  "replies ex_rs_pro (rs485_dispatch sim_platform ex_rs_pro sim_gateway)"
proof -
  have 1: "rs_frame (pay ex_rs_pro)" by (simp add: ex_rs_request ex_rs_frame)
  have 2: "(pay ex_rs_pro ! 7, vol_inc_cb) \<in> set rs_dis"
    by (simp add: ex_rs_request ex_rs_buf_def rs_dis_def)
  have 3: "answers (pay ex_rs_pro ! 7) (pay ex_rs_pro)"
    by (simp add: ex_rs_request) code_simp
  show ?thesis by (rule rs485_answer_valid [OF ex_rs_request(2) 1 2 3])
qed

lemma rs485_corruption_rejected_witness:
  "rs485_dispatch sim_platform (set_pay (ex_rs_buf[8 := 1]) ex_rs_pro) sim_gateway
     = Some (-1, set_pay (ex_rs_buf[8 := 1]) ex_rs_pro,
         sim_gateway\<lparr>rs_body := rs_copy (pay (set_pay (ex_rs_buf[8 := 1]) ex_rs_pro))\<rparr>)"
proof -
  have 1: "8 < flen ex_rs_buf + 8" "(8 :: nat) \<noteq> 6" "ex_rs_buf ! 8 \<noteq> 1"
    by code_simp+
  show ?thesis by (rule rs485_corruption_rejected [OF ex_rs_frame 1]) simp
qed

end
