(* ===== verification/Serial.thy ===== *)
theory Serial
  imports Rs485 Registry
begin

text \<open>
  The serial receiver, \<open>app/serial_rs485.c\<close>: one byte per call is stored behind what was
  collected, a byte 0xAA opens a frame, and the frame is handed to the dispatcher when the
  length byte says it is complete. \<open>serial_reply\<close> sends what the dispatcher left in the buffer,
  \<open>serial_to\<close> is the timeout, \<open>serial_close\<close> drops the port. The attributes of the port are a parameter;
  of their setting the model keeps the speed.
\<close>

section \<open>Receiving\<close>

definition set_len :: "int \<Rightarrow> st_proto \<Rightarrow> st_proto" where
  "set_len n pro = pro\<lparr>recv_buf := (recv_buf pro)\<lparr>blen := n\<rparr>\<rparr>"

definition set_begin :: "int \<Rightarrow> st_proto \<Rightarrow> st_proto" where
  "set_begin n pro = pro\<lparr>recv_buf := (recv_buf pro)\<lparr>bbegin := n\<rparr>\<rparr>"

definition wipe_pay :: "st_proto \<Rightarrow> st_proto option" where
  "wipe_pay pro = do { rb \<leftarrow> wipe (recv_buf pro); Some (pro\<lparr>recv_buf := rb\<rparr>) }"

text \<open>What \<open>serial_recv\<close> does with a byte it has read: a complete frame is copied to
  \<open>serial_handle.body\<close> and dispatched when it is addressed to this device.\<close>

definition serial_byte :: "'e platform \<Rightarrow> byte \<Rightarrow> st_proto \<Rightarrow> 'e gateway \<Rightarrow> (int \<times> st_proto \<times> 'e gateway) option" where
  "serial_byte pl c pro g =
     do { b \<leftarrow> (if blen (recv_buf pro) < 0 then None
               else wr (pay pro) (nat (blen (recv_buf pro))) c);
          let pro1 = reset_timer pl (set_pay b pro) g;
          if bbegin (recv_buf pro1) \<noteq> 0
          then do {
            let pro2 = set_len (blen (recv_buf pro1) + 1) pro1;
            len \<leftarrow> rd (pay pro2) 6;
            if len \<noteq> 0 \<and> blen (recv_buf pro2) \<ge> int (unat len) + 7 + 1
            then do {
              s \<leftarrow> bget (pay pro2) 0 109;
              chk \<leftarrow> rd (pay pro2) (7 + unat len);
              let g1 = g\<lparr>ser_body := s[108 := chk]\<rparr>;
              mine \<leftarrow> check_addr_pro pro2 g1;
              if mine then rs485_dispatch pl pro2 g1
              else do { pro3 \<leftarrow> wipe_pay pro2; Some (1, pro3, g1) } }
            else Some (1, pro2, g) }
          else do {
            c0 \<leftarrow> rd (pay pro1) 0;
            if c0 = 0xaa then Some (1, set_len (blen (recv_buf pro1) + 1) (set_begin 1 pro1), g)
            else Some (1, set_len 0 pro1, g) } }"

text \<open>\<open>read(fd, ..., 1)\<close> returns a byte, or nothing (0 or -1), which \<open>serial_recv\<close> ignores.\<close>

definition serial_recv :: "'e platform \<Rightarrow> st_proto \<Rightarrow> 'e gateway \<Rightarrow> (int \<times> st_proto \<times> 'e gateway) option" where
  "serial_recv pl pro g =
     (let (r, g1) = call (sock_recv pl (pfd pro) 1) g in
      (case r of
         Some (c # _) \<Rightarrow> serial_byte pl c pro g1
       | _ \<Rightarrow> Some (1, pro, g1)))"

section \<open>Sending\<close>

definition send_enable :: "'e platform \<Rightarrow> 'e gateway \<Rightarrow> 'e gateway" where
  "send_enable pl g = snd (call (system_cmd pl (bytes ''echo 1 > /sys/class/gpio/gpio103/value '')) g)"

definition send_disable :: "'e platform \<Rightarrow> 'e gateway \<Rightarrow> 'e gateway" where
  "send_disable pl g = snd (call (system_cmd pl (bytes ''echo 0 > /sys/class/gpio/gpio103/value '')) g)"

definition send_stop :: "'e platform \<Rightarrow> 'e gateway \<Rightarrow> int \<times> 'e gateway" where
  "send_stop pl g = (0, (send_disable pl g)\<lparr>ser_timer := -1\<rparr>)"

definition serial_send :: "'e platform \<Rightarrow> st_proto \<Rightarrow> 'e gateway \<Rightarrow> (int \<times> 'e gateway) option" where
  "serial_send pl pro g =
     (if blen (recv_buf pro) \<le> 0 then Some (0, g)
      else do {
        out \<leftarrow> bget (pay pro) 0 (nat (blen (recv_buf pro)));
        let g1 = snd (call (sock_send pl (pfd pro) out) (send_enable pl g));
        let g2 = (if ser_timer g1 < 0
                  then (let (t, h) = call (send_timer_start pl (blen (recv_buf pro))) g1
                        in h\<lparr>ser_timer := t\<rparr>)
                  else g1);
        Some (if ser_timer g2 \<ge> 0 then 0 else -1, g2) })"

definition serial_reply :: "'e platform \<Rightarrow> st_proto \<Rightarrow> 'e gateway \<Rightarrow> (int \<times> st_proto \<times> 'e gateway) option" where
  "serial_reply pl pro g =
     (if pfd pro \<ge> 0 \<and> active pro \<noteq> 0
      then do { (_, g1) \<leftarrow> serial_send pl pro g;
                pro1 \<leftarrow> wipe_pay pro;
                Some (0, set_len 0 pro1, g1) }
      else Some (-1, pro, g))"

definition serial_act :: "st_proto \<Rightarrow> int" where "serial_act pro = 0"
definition serial_dispro :: "st_proto \<Rightarrow> int" where "serial_dispro pro = 0"

definition serial_to :: "st_proto \<Rightarrow> (int \<times> st_proto) option" where
  "serial_to pro =
     (if blen (recv_buf pro) \<noteq> 0
      then do { pro1 \<leftarrow> wipe_pay (set_len 0 pro); Some (0, pro1) }
      else Some (0, pro))"

definition serial_close :: "'e platform \<Rightarrow> st_proto \<Rightarrow> 'e gateway \<Rightarrow> (int \<times> st_proto \<times> 'e gateway) option" where
  "serial_close pl pro g =
     (if pfd pro \<ge> 0
      then do {
        let g1 = snd (call (sock_close pl (pfd pro)) g);
        pro1 \<leftarrow> wipe_pay (pro\<lparr>pfd := -1, active := 0\<rparr>);
        Some (0, set_len 0 pro1, g1) }
      else Some (-1, pro, g))"

text \<open>The protocol \<open>add_serial\<close> builds; the block from \<open>malloc\<close> holds the bytes \<open>junk\<close>.\<close>

definition serial_proto :: "byte list \<Rightarrow> splayer_status \<Rightarrow> st_proto" where
  "serial_proto junk st0 = \<lparr>pname = bytes ''rs485'', config = LOOP_CFG_RETRY, timecount = 0,
     timeout = 1024, pfd = 0, recv_buf = \<lparr>payload = junk, max_len = 128, blen = 0, bbegin = 0\<rparr>,
     play_status = st0, callbacks = K_RS485, active = 0, private_buf = None\<rparr>"

section \<open>Opening and registering\<close>

definition serial_fail :: "'e platform \<Rightarrow> 'e gateway \<Rightarrow> int \<times> 'e gateway" where
  "serial_fail pl g =
     (-1, if serial_fd g \<ge> 0 then (snd (call (sock_close pl (serial_fd g)) g))\<lparr>serial_fd := -1\<rparr> else g)"

definition serial_open :: "'e platform \<Rightarrow> 'e gateway \<Rightarrow> int \<times> 'e gateway" where
  "serial_open pl g =
     (let (fd, g1) = call (tty_open pl) g; g2 = g1\<lparr>serial_fd := fd\<rparr> in
      if fd < 0 then serial_fail pl g2
      else let (r, g3) = call (tty_blocking pl fd) g2 in
        if r < 0 then serial_fail pl g3 else (0, g3))"

definition serial_cfg :: "'e platform \<Rightarrow> 'e gateway \<Rightarrow> int \<times> 'e gateway" where
  "serial_cfg pl g =
     (if tty_get pl (serial_fd g) (ext g) \<noteq> 0 then serial_fail pl g
      else let (r, g1) = call (tty_set pl (serial_fd g) 9600) g in
        if r \<noteq> 0 then serial_fail pl g1 else (0, g1))"

definition serial_init :: "'e platform \<Rightarrow> 'e pcb" where
  "serial_init pl pro g =
     (let (r, g1) = serial_open pl g in
      if r \<noteq> 0 then Some (-1, pro\<lparr>pfd := -1, active := 0\<rparr>, g1)
      else let (q, g2) = serial_cfg pl g1 in
        if q \<noteq> 0 then Some (-1, pro\<lparr>pfd := -1, active := 0\<rparr>, g2)
        else Some (0, pro\<lparr>pfd := serial_fd g2, active := 1\<rparr>, g2))"

definition ser_cbs :: "'e platform \<Rightarrow> 'e callback_table" where
  "ser_cbs pl = \<lparr>
     init_cb = Some (on_proto (serial_init pl)), recv_cb = Some (on_proto (serial_recv pl)),
     reply_cb = Some (on_proto (serial_reply pl)), active_send_cb = Some (on_proto (\<lambda>pro g. Some (serial_act pro, pro, g))),
     disproto_cb = Some (on_msg (\<lambda>m pro g. Some (serial_dispro pro, pro, g))),
     timeout_cb = Some (on_proto (\<lambda>pro g. map_option (\<lambda>(r, p). (r, p, g)) (serial_to pro))),
     close_cb = Some (on_proto (serial_close pl))\<rparr>"

definition add_serial :: "'e platform \<Rightarrow> byte list \<Rightarrow> splayer_status \<Rightarrow> 'e gateway \<Rightarrow> int \<times> 'e gateway" where
  "add_serial pl junk st0 g = add_proto (serial_proto junk st0) (snd (init_485_addr pl g))"

section \<open>Feeding bytes\<close>

text \<open>Bytes that arrive one per call while no frame completes: every call returns 1.\<close>

fun feed :: "'e platform \<Rightarrow> byte list \<Rightarrow> st_proto \<Rightarrow> 'e gateway \<Rightarrow> (int \<times> st_proto \<times> 'e gateway) option" where
  "feed pl [] pro g = Some (1, pro, g)"
| "feed pl (c # cs) pro g =
     do { (r, pro1, g1) \<leftarrow> serial_byte pl c pro g;
          if cs = [] then Some (r, pro1, g1)
          else if r = 1 then feed pl cs pro1 g1
          else Some (r, pro1, g1) }"

text \<open>A link with \<open>d\<close> collected, in a block of the link's size.\<close>

definition holds :: "st_proto \<Rightarrow> byte list \<Rightarrow> int \<Rightarrow> bool" where
  "holds pro d bg = (pay pro = d @ replicate (128 - length d) 0 \<and> length d \<le> 128 \<and>
     blen (recv_buf pro) = int (length d) \<and> max_len (recv_buf pro) = 128 \<and> bbegin (recv_buf pro) = bg)"

text \<open>A frame is not complete as long as fewer than its length plus eight bytes are there.\<close>

definition incomplete :: "byte list \<Rightarrow> bool" where
  "incomplete d = (length d \<le> 6 \<or> d ! 6 = 0 \<or> length d < unat (d ! 6) + 8)"

lemma holds_nth6: "holds pro d bg \<Longrightarrow> pay pro ! 6 = (if length d \<le> 6 then 0 else d ! 6)"
  by (auto simp: holds_def nth_append)

lemma pay_updates [simp]:
  "pay (set_len n pro) = pay pro" "pay (set_begin n pro) = pay pro"
  "pay (reset_timer pl pro g) = pay pro"
  by (simp_all add: pay_def set_len_def set_begin_def reset_timer_def)

lemma buf_updates [simp]:
  "blen (recv_buf (set_len n pro)) = n" "bbegin (recv_buf (set_len n pro)) = bbegin (recv_buf pro)"
  "max_len (recv_buf (set_len n pro)) = max_len (recv_buf pro)"
  "blen (recv_buf (set_begin n pro)) = blen (recv_buf pro)" "bbegin (recv_buf (set_begin n pro)) = n"
  "max_len (recv_buf (set_begin n pro)) = max_len (recv_buf pro)"
  "recv_buf (reset_timer pl pro g) = recv_buf pro"
  "blen (recv_buf (set_pay b pro)) = blen (recv_buf pro)"
  "bbegin (recv_buf (set_pay b pro)) = bbegin (recv_buf pro)"
  "max_len (recv_buf (set_pay b pro)) = max_len (recv_buf pro)"
  by (simp_all add: set_len_def set_begin_def reset_timer_def set_pay_def)

lemma store_byte:
  assumes "holds pro d bg" "length d < 128"
  shows "wr (pay pro) (nat (blen (recv_buf pro))) c
     = Some ((d @ [c]) @ replicate (128 - length (d @ [c])) 0)"
proof -
  have "128 - length d = Suc (128 - length (d @ [c]))" using assms(2) by simp
  then show ?thesis
    using assms wr_append [of d 0 "replicate (128 - length (d @ [c])) 0" c]
    by (simp add: holds_def)
qed

lemma serial_byte_collect:
  assumes "holds pro d 1" "length d < 128" "incomplete (d @ [c])"
  shows "\<exists>pro'. serial_byte pl c pro g = Some (1, pro', g) \<and> holds pro' (d @ [c]) 1"
proof -
  let ?b = "(d @ [c]) @ replicate (128 - length (d @ [c])) 0"
  let ?pro = "set_len (int (length d) + 1) (reset_timer pl (set_pay ?b pro) g)"
  have h: "holds ?pro (d @ [c]) 1" using assms(1,2) by (simp add: holds_def)
  have w: "wr (pay pro) (nat (blen (recv_buf pro))) c = Some ?b" using store_byte [OF assms(1,2)] .
  have l: "blen (recv_buf pro) = int (length d)" "bbegin (recv_buf pro) = 1"
    using assms(1) by (simp_all add: holds_def)
  have six: "rd ?b 6 = Some (?b ! 6)" using assms(2) by (simp add: rd_def)
  have "?b ! 6 = (if length (d @ [c]) \<le> 6 then 0 else (d @ [c]) ! 6)"
    using holds_nth6 [OF h] by simp
  then have "\<not> (?b ! 6 \<noteq> 0 \<and> int (length d) + 1 \<ge> int (unat (?b ! 6)) + 7 + 1)"
    using assms(3) by (auto simp: incomplete_def simp del: of_nat_unat split: if_splits)
  then have "serial_byte pl c pro g = Some (1, ?pro, g)"
    using w l six by (auto simp: serial_byte_def Let_def simp del: of_nat_unat)
  with h show ?thesis by blast
qed

lemma serial_byte_start:
  assumes "holds pro [] 0"
  shows "\<exists>pro'. serial_byte pl 0xaa pro g = Some (1, pro', g) \<and> holds pro' [0xaa] 1"
proof -
  let ?b = "[0xaa] @ replicate 127 0"
  let ?pro = "set_len 1 (set_begin 1 (reset_timer pl (set_pay ?b pro) g))"
  have "wr (pay pro) (nat (blen (recv_buf pro))) 0xaa = Some ?b"
    using store_byte [OF assms, of "0xaa"] by simp
  moreover have "blen (recv_buf pro) = 0" "bbegin (recv_buf pro) = 0"
    using assms by (simp_all add: holds_def)
  ultimately have "serial_byte pl 0xaa pro g = Some (1, ?pro, g)"
    by (simp add: serial_byte_def Let_def rd_def)
  moreover have "holds ?pro [0xaa] 1" using assms by (simp add: holds_def)
  ultimately show ?thesis by blast
qed

text \<open>Noise in front of a frame: anything but 0xAA is overwritten by the next byte.\<close>

lemma serial_byte_noise:
  assumes "blen (recv_buf pro) = 0" "bbegin (recv_buf pro) = 0" "length (pay pro) = 128" "c \<noteq> 0xaa"
  shows "\<exists>pro'. serial_byte pl c pro g = Some (1, pro', g) \<and> pay pro' = (pay pro)[0 := c] \<and>
     blen (recv_buf pro') = 0 \<and> bbegin (recv_buf pro') = 0"
  using assms by (cases "pay pro") (auto simp: serial_byte_def Let_def rd_def wr_def)

lemma feed_incomplete:
  assumes "holds pro d 1" "length d + length cs \<le> 128"
    and "\<And>k. k \<le> length cs \<Longrightarrow> 0 < k \<Longrightarrow> incomplete (d @ take k cs)"
  shows "\<exists>pro'. feed pl cs pro g = Some (1, pro', g) \<and> holds pro' (d @ cs) 1"
  using assms
proof (induction cs arbitrary: d pro)
  case Nil
  then show ?case by simp
next
  case (Cons c cs)
  have "incomplete (d @ [c])" using Cons.prems(3) [of 1] by simp
  then obtain pro1 where p: "serial_byte pl c pro g = Some (1, pro1, g)" "holds pro1 (d @ [c]) 1"
    using serial_byte_collect [OF Cons.prems(1)] Cons.prems(2) by fastforce
  have "\<exists>pro'. feed pl cs pro1 g = Some (1, pro', g) \<and> holds pro' ((d @ [c]) @ cs) 1"
  proof (rule Cons.IH [OF p(2)])
    show "length (d @ [c]) + length cs \<le> 128" using Cons.prems(2) by simp
    fix k assume "k \<le> length cs" "0 < k"
    then show "incomplete ((d @ [c]) @ take k cs)" using Cons.prems(3) [of "Suc k"] by simp
  qed
  then show ?case using p by auto
qed

section \<open>A whole frame\<close>

text \<open>The bytes of a frame as they arrive: 0xAA first, and as many as the length byte announces.\<close>

definition whole_frame :: "byte list \<Rightarrow> bool" where
  "whole_frame f = (7 < length f \<and> hd f = 0xaa \<and> f ! 6 \<noteq> 0 \<and> length f = unat (f ! 6) + 8)"

lemma whole_frame_prefix:
  assumes "whole_frame f" "k < length f"
  shows "incomplete (take k f)"
proof (cases "k \<le> 6")
  case False
  then have "take k f ! 6 = f ! 6" by simp
  with assms show ?thesis by (simp add: whole_frame_def incomplete_def)
qed (use assms in \<open>simp add: incomplete_def\<close>)

lemma serial_byte_complete:
  assumes "holds pro d 1" "whole_frame (d @ [c])" "length (d @ [c]) \<le> 108"
  shows "\<exists>pro' s. holds pro' (d @ [c]) 1 \<and>
     serial_byte pl c pro g =
       (if (d @ [c]) ! 1 = rs_addr g then rs485_dispatch pl pro' (g\<lparr>ser_body := s\<rparr>)
        else do { pro'' \<leftarrow> wipe_pay pro'; Some (1, pro'', g\<lparr>ser_body := s\<rparr>) })"
proof -
  let ?f = "d @ [c]"
  let ?b = "?f @ replicate (128 - length ?f) 0"
  let ?pro = "set_len (int (length d) + 1) (reset_timer pl (set_pay ?b pro) g)"
  have len: "length d < 128" using assms(3) by simp
  have h: "holds ?pro ?f 1" using assms(1,3) by (simp add: holds_def)
  have w: "wr (pay pro) (nat (blen (recv_buf pro))) c = Some ?b" using store_byte [OF assms(1) len] .
  have l: "blen (recv_buf pro) = int (length d)" "bbegin (recv_buf pro) = 1"
    using assms(1) by (simp_all add: holds_def)
  have b6: "?b ! 6 = ?f ! 6" "?b ! 1 = ?f ! 1"
    using assms(2) by (simp_all add: whole_frame_def nth_append)
  have six: "rd ?b 6 = Some (?f ! 6)" "rd ?b 1 = Some (?f ! 1)"
    using assms(3) b6 by (simp_all add: rd_def)
  have L: "unat (?f ! 6) + 8 = length ?f" "?f ! 6 \<noteq> 0" using assms(2) by (simp_all add: whole_frame_def)
  then have "unat (?f ! 6) + 7 = length d" by simp
  then have ge: "int (length d) + 1 \<ge> int (unat (?f ! 6)) + 7 + 1" by linarith
  obtain s where s: "bget ?b 0 109 = Some s" using assms(3) by (simp add: bget_def)
  obtain chk where chk: "rd ?b (7 + unat (?f ! 6)) = Some chk" using L assms(3) by (simp add: rd_def)
  have "serial_byte pl c pro g =
       (if ?f ! 1 = rs_addr g then rs485_dispatch pl ?pro (g\<lparr>ser_body := s[108 := chk]\<rparr>)
        else do { pro'' \<leftarrow> wipe_pay ?pro; Some (1, pro'', g\<lparr>ser_body := s[108 := chk]\<rparr>) })"
    using w l six L(2) ge s chk
    by (simp add: serial_byte_def Let_def check_addr_pro_def del: of_nat_unat)
  with h show ?thesis by blast
qed

lemma feed_last:
  "cs \<noteq> [] \<Longrightarrow> feed pl cs pro g = Some (1, pro1, g1) \<Longrightarrow>
     feed pl (cs @ [c]) pro g = serial_byte pl c pro1 g1"
proof (induction cs arbitrary: pro g)
  case (Cons x cs)
  obtain r p h where x: "serial_byte pl x pro g = Some (r, p, h)"
    using Cons.prems(2) by (auto split: bind_splits)
  show ?case
  proof (cases "cs = []")
    case True
    with Cons.prems(2) x show ?thesis by (auto split: bind_splits)
  next
    case False
    with Cons.prems(2) x have "r = 1" "feed pl cs p h = Some (1, pro1, g1)"
      by (auto split: if_splits)
    with Cons.IH [OF False this(2)] x False show ?thesis by simp
  qed
qed simp

lemma feed_frame:
  assumes "holds pro [] 0" "whole_frame f" "length f \<le> 108"
  shows "\<exists>pro' s. holds pro' f 1 \<and> feed pl f pro g =
       (if f ! 1 = rs_addr g then rs485_dispatch pl pro' (g\<lparr>ser_body := s\<rparr>)
        else do { pro'' \<leftarrow> wipe_pay pro'; Some (1, pro'', g\<lparr>ser_body := s\<rparr>) })"
proof -
  obtain cs c where f: "f = 0xaa # cs @ [c]" "cs \<noteq> []"
  proof -
    have "7 < length f" "hd f = 0xaa" using assms(2) by (simp_all add: whole_frame_def)
    then obtain t where t: "f = 0xaa # t" "6 < length t" by (cases f) auto
    then have "t = butlast t @ [last t]" "butlast t \<noteq> []" by (cases t; auto)+
    then show thesis using that t(1) by metis
  qed
  obtain p1 where p1: "serial_byte pl 0xaa pro g = Some (1, p1, g)" "holds p1 [0xaa] 1"
    using serial_byte_start [OF assms(1)] by blast
  have "\<exists>p2. feed pl cs p1 g = Some (1, p2, g) \<and> holds p2 ([0xaa] @ cs) 1"
  proof (rule feed_incomplete [OF p1(2)])
    show "length [0xaa :: byte] + length cs \<le> 128" using assms(3) f by simp
    fix k assume "k \<le> length cs" "0 < k"
    then have "[0xaa] @ take k cs = take (Suc k) f" "Suc k < length f" using f by simp_all
    then show "incomplete ([0xaa] @ take k cs)" using whole_frame_prefix [OF assms(2)] by simp
  qed
  then obtain p2 where p2: "feed pl cs p1 g = Some (1, p2, g)" "holds p2 (0xaa # cs) 1" by auto
  have "feed pl f pro g = serial_byte pl c p2 g"
    using p1(1) p2(1) feed_last [OF f(2) p2(1), of c] f by simp
  with serial_byte_complete [OF p2(2), of c pl g] assms(2,3) f show ?thesis by simp
qed


text \<open>C23: A frame for another device wipes the buffer but not the collected length, and the link
  stays deaf: whatever follows is collected behind it and never dispatched, until the buffer
  is full and the next byte is written outside of it.\<close>

theorem foreign_frame_deafens:
  assumes "holds pro [] 0" "whole_frame f" "length f \<le> 108" "f ! 1 \<noteq> rs_addr g"
    "length cs = 128 - length f"
  shows "\<exists>pro1 g1. feed pl f pro g = Some (1, pro1, g1) \<and>
     pay pro1 = replicate 128 0 \<and> blen (recv_buf pro1) = int (length f) \<and>
     (\<exists>pro2. feed pl cs pro1 g1 = Some (1, pro2, g1) \<and> serial_byte pl c pro2 g1 = None)"
proof -
  obtain pro' s where p: "holds pro' f 1" "feed pl f pro g =
      do { pro'' \<leftarrow> wipe_pay pro'; Some (1, pro'', g\<lparr>ser_body := s\<rparr>) }"
    using feed_frame [OF assms(1-3), of pl g] assms(4) by auto
  let ?pro1 = "set_pay (replicate 128 0) pro'" and ?g1 = "g\<lparr>ser_body := s\<rparr>"
  have "length (payload (recv_buf pro')) = 128" using p(1) by (simp add: holds_def pay_def)
  then have "wipe_pay pro' = Some ?pro1"
    using p(1) by (simp add: wipe_pay_def wipe_def holds_def bset_def set_pay_def)
  with p have f: "feed pl f pro g = Some (1, ?pro1, ?g1)" by simp
  let ?d = "replicate (length f) (0 :: byte)"
  have h1: "holds ?pro1 ?d 1" using p(1) by (simp add: holds_def flip: replicate_add)
  have len: "7 < length f" using assms(2) by (simp add: whole_frame_def)
  have "\<exists>pro2. feed pl cs ?pro1 ?g1 = Some (1, pro2, ?g1) \<and> holds pro2 (?d @ cs) 1"
    by (rule feed_incomplete [OF h1]) (use assms(3,5) len in \<open>auto simp: incomplete_def nth_append\<close>)
  then obtain pro2 where q: "feed pl cs ?pro1 ?g1 = Some (1, pro2, ?g1)" "holds pro2 (?d @ cs) 1"
    by blast
  have "length (?d @ cs) = 128" using assms(3,5) by simp
  then have "wr (pay pro2) (nat (blen (recv_buf pro2))) c = None"
    using q(2) by (simp add: holds_def wr_def)
  then have "serial_byte pl c pro2 ?g1 = None" by (simp add: serial_byte_def)
  with f q(1) h1 show ?thesis by (auto simp: holds_def)
qed

text \<open>A length byte of 121 or more makes the receiver run past its 128 byte block: it takes 128
  bytes and writes the next one outside.\<close>

theorem serial_overflow:
  assumes "holds pro [] 0" "length f = 128" "hd f = 0xaa" "121 \<le> unat (f ! 6)"
  shows "\<exists>pro'. feed pl f pro g = Some (1, pro', g) \<and> serial_byte pl c pro' g = None"
proof -
  obtain cs where f: "f = 0xaa # cs" "length cs = 127" using assms(2,3) by (cases f) auto
  obtain p1 where p1: "serial_byte pl 0xaa pro g = Some (1, p1, g)" "holds p1 [0xaa] 1"
    using serial_byte_start [OF assms(1)] by blast
  have "\<exists>p2. feed pl cs p1 g = Some (1, p2, g) \<and> holds p2 ([0xaa] @ cs) 1"
  proof (rule feed_incomplete [OF p1(2)])
    show "length [0xaa :: byte] + length cs \<le> 128" using f by simp
    fix k assume k: "k \<le> length cs" "0 < k"
    show "incomplete ([0xaa] @ take k cs)"
    proof (cases "k \<le> 5")
      case False
      then have "([0xaa] @ take k cs) ! 6 = f ! 6" using f by simp
      with assms(4) k f show ?thesis by (simp add: incomplete_def)
    qed (use k in \<open>simp add: incomplete_def\<close>)
  qed
  then obtain p2 where p2: "feed pl cs p1 g = Some (1, p2, g)" "holds p2 f 1" using f by auto
  have "wr (pay p2) (nat (blen (recv_buf p2))) c = None"
    using p2(2) assms(2) by (simp add: holds_def wr_def)
  then have "serial_byte pl c p2 g = None" by (simp add: serial_byte_def)
  moreover have "cs \<noteq> []" using f by auto
  ultimately show ?thesis using p1(1) p2(1) f by auto
qed

section \<open>Examples\<close>

definition ex_idle :: st_proto where
  "ex_idle = serial_proto (replicate 128 0) (sim_status sim_start)"

definition ex_frame :: "byte list" where
  "ex_frame = [0xaa, 7, 1, 9, 2, 0, 2, 0xBB, 0, 0x5c]"

lemma ex_idle_holds: "holds ex_idle [] 0"
  by (simp add: holds_def ex_idle_def serial_proto_def pay_def)

lemma ex_frame_whole: "whole_frame ex_frame" "length ex_frame \<le> 108"
  by code_simp+


lemma foreign_frame_deafens_witness:
  "\<exists>pro1 g1. feed sim_platform ex_frame ex_idle (sim_gateway\<lparr>rs_addr := 8\<rparr>) = Some (1, pro1, g1) \<and>
     (\<exists>pro2. feed sim_platform (replicate 118 0xaa) pro1 g1 = Some (1, pro2, g1) \<and>
        serial_byte sim_platform 0xaa pro2 g1 = None)"
proof -
  have 1: "ex_frame ! 1 \<noteq> rs_addr (sim_gateway\<lparr>rs_addr := 8\<rparr>)"
      "length (replicate 118 (0xaa :: byte)) = 128 - length ex_frame"
    by (simp_all add: ex_frame_def)
  show ?thesis
    using foreign_frame_deafens [OF ex_idle_holds ex_frame_whole 1, of sim_platform "0xaa"] by blast
qed

lemma serial_overflow_witness:
  "\<exists>pro'. feed sim_platform (0xaa # replicate 127 0xff) ex_idle sim_gateway = Some (1, pro', sim_gateway) \<and>
     serial_byte sim_platform 1 pro' sim_gateway = None"
  by (rule serial_overflow [OF ex_idle_holds]) simp_all

end
