(* ===== verification/Regist_Flow.thy ===== *)
theory Regist_Flow
  imports Regist
begin

text \<open>
  A registration from its start to its end: what the configuration store, the network and the
  cloud have to do for \<open>regist_proc\<close> to register the gateway, and that it is registered then, now
  and after its next start.
\<close>

section \<open>The world\<close>

text \<open>The configuration store keeps what is written, and nothing else writes to it.\<close>

definition store_laws :: "'e platform \<Rightarrow> bool" where
  "store_laws pl =
     ((\<forall>k k' v e. get_config_mem pl k' (snd (set_config_mem pl k v e)) = (if k' = k then Some v else get_config_mem pl k' e)) \<and>
      (\<forall>k e. get_config_mem pl k (snd (sync_config pl e)) = get_config_mem pl k e) \<and>
      (\<forall>k n e. get_config_mem pl k (snd (wait_us pl n e)) = get_config_mem pl k e) \<and>
      (\<forall>k u h b e. get_config_mem pl k (snd (http_post pl u h b e)) = get_config_mem pl k e))"

text \<open>The network is up, the device has an address, and the printer writes short texts.\<close>

definition device_laws :: "'e platform \<Rightarrow> bool" where
  "device_laws pl =
     ((\<forall>e. wifi_connected pl e) \<and> (\<exists>a. 6 \<le> length a \<and> (\<forall>e. hw_addr pl e = Some a)) \<and>
      (\<forall>j. cjson_print pl j \<noteq> [] \<and> 0 \<notin> set (cjson_print pl j) \<and> length (cjson_print pl j) < 10000))"

definition accepted :: "'e platform \<Rightarrow> byte list \<Rightarrow> json \<Rightarrow> bool" where
  "accepted pl s root = (0 \<notin> set s \<and> length s < 1024 \<and> cjson_parse pl s = Some root \<and>
     GetObjectItem root (bytes ''code'') = Some (JNumber 100000))"

text \<open>The answer to the registration of the device carries the code of the account and the reference.\<close>

definition identified :: "'e platform \<Rightarrow> byte list \<Rightarrow> byte list \<Rightarrow> byte list \<Rightarrow> bool" where
  "identified pl acct r s = (\<exists>root obj pre gap c post. accepted pl s root \<and>
     GetObjectItem root (bytes ''object'') = Some obj \<and> GetObjectItem obj (bytes ''authCode'') = Some (JString acct) \<and>
     s = pre @ bytes ''refrenceId\":'' @ gap @ r @ c # post \<and>
     find_sub (bytes ''refrenceId\":'') s = Some (length pre) \<and> (\<forall>x \<in> set gap. \<not> ref_char x) \<and> \<not> ref_char c)"

definition server_laws :: "'e platform \<Rightarrow> byte list \<Rightarrow> byte list \<Rightarrow> bool" where
  "server_laws pl acct r =
     (\<forall>u h b e. \<exists>s. fst (http_post pl u h b e) = Some (200, s) \<and> (\<exists>root. accepted pl s root) \<and>
        (find_sub (bytes ''device/register'') u \<noteq> None \<longrightarrow> identified pl acct r s))"

text \<open>The texts of the store that a registration reads leave room for their terminator.\<close>

definition short_names :: "'e platform \<Rightarrow> 'e gateway \<Rightarrow> bool" where
  "short_names pl g = (\<forall>k \<in> {CFG_AI_SN, CFG_AI_UUID}. \<forall>b. get_config_mem pl k (ext g) = Some b \<longrightarrow> length b < 64)"

definition handle_ok :: "'e gateway \<Rightarrow> bool" where
  "handle_ok g = (length (h_auth g) = 100 \<and> length (h_ref_ori g) = 100 \<and> length (h_ref_str g) = 100 \<and>
     length (h_ref_hex g) = 100)"

section \<open>Building the requests\<close>

lemma mac_text:
  assumes "device_laws pl"
  obtains m where "\<And>g :: 'e gateway. get_mac_string pl g = Some (17, m)" "length m = 17" "0 \<notin> set m"
proof -
  obtain a where a: "6 \<le> length a" "\<And>e. hw_addr pl e = Some a" using assms by (auto simp: device_laws_def)
  let ?b = "take 6 a"
  let ?m = "hex2 (?b ! 0) @ [0x3a] @ hex2 (?b ! 1) @ [0x3a] @ hex2 (?b ! 2) @ [0x3a] @ hex2 (?b ! 3) @ [0x3a]
    @ hex2 (?b ! 4) @ [0x3a] @ hex2 (?b ! 5)"
  have "get_mac_string pl g = Some (17, ?m)" for g :: "'e gateway"
    using a by (simp add: get_mac_string_def bget_def)
  moreover have "length ?m = 17" by (simp add: hex2_def)
  moreover have "0 \<notin> set ?m" using hex2_clean by simp
  ultimately show ?thesis by (rule that)
qed

lemma cstr_takeWhile: "cstr (b @ 0 # z) = Some (takeWhile (\<lambda>c. c \<noteq> 0) b)"
proof -
  have d: "b @ 0 # z = takeWhile (\<lambda>c. c \<noteq> 0) b @ 0 # drop 1 (dropWhile (\<lambda>c. c \<noteq> 0) b @ 0 # z)"
    by (induction b) auto
  have "0 \<notin> set (takeWhile (\<lambda>c. c \<noteq> 0) b)" by (auto dest: set_takeWhileD)
  then show ?thesis by (subst d) (rule cstr_append)
qed

lemma config_read_short:
  assumes "\<And>b. get_config_mem pl k (ext g) = Some b \<Longrightarrow> length b < n" "0 < n"
  shows "\<exists>x buf t. config_read pl k (replicate n 0) n g = Some (x, buf) \<and> cstr buf = Some t"
proof (cases "get_config_mem pl k (ext g)")
  case None
  obtain m where "n = Suc m" using assms(2) by (cases n) auto
  then have "cstr (replicate n 0) = Some []" using cstr_takeWhile [of "[]" "replicate m 0"] by simp
  then show ?thesis using None by (simp add: config_read_def)
next
  case (Some b)
  then obtain m where "n - length b = Suc m" using assms(1) by (metis Suc_diff_Suc)
  then have "cstr (b @ replicate (n - length b) 0) = Some (takeWhile (\<lambda>c. c \<noteq> 0) b)" using cstr_takeWhile by simp
  then show ?thesis using Some assms(1) [OF Some] by (simp add: config_read_def bput_def)
qed

lemma config_read_full:
  "get_config_mem pl k (ext g) = Some b \<Longrightarrow> length b = n \<Longrightarrow> length buf = m \<Longrightarrow> n \<le> m \<Longrightarrow>
   config_read pl k buf n g = Some (int n, b @ drop n buf)"
  by (simp add: config_read_def bput_def)

lemma post_form:
  assumes "device_laws pl"
  obtains b s left where "signed_bodies (cjson_print pl j) = Some b"
    "\<And>posts u cb. add_post_hash_bodies posts (Some u) None b cb
      = Some (add_post_node posts \<lparr>po_uri = u, po_heads = None, po_payload = s, po_cb = cb\<rparr>, left)"
    "\<And>later u cb. add_post_hash_bodies_dy later (Some u) None b cb
      = Some ((0, \<lparr>po_uri = u, po_heads = None, po_payload = s, po_cb = cb\<rparr> # later), left)"
proof -
  have "0 \<notin> set (cjson_print pl j)" "cjson_print pl j \<noteq> []" "length (cjson_print pl j) < 10000"
    using assms by (auto simp: device_laws_def)
  then obtain b s left where "signed_bodies (cjson_print pl j) = Some b" "form_body b = Some (s, left)"
    using signed_bodies_form by blast
  then show ?thesis
    by (intro that [of b s left]) (simp_all add: add_post_hash_bodies_def add_post_hash_bodies_dy_def add_post_def add_post_dynamic_def)
qed

lemma sn_text: "short_names pl g \<Longrightarrow> \<exists>x buf t. get_dev_sn pl (replicate 64 0) g = Some (x, buf) \<and> cstr buf = Some t"
  using config_read_short [of pl CFG_AI_SN g 64] by (simp add: get_dev_sn_def short_names_def)

text \<open>A request of the registration: no headers of its own, and the callback that only looks at the code.\<close>

definition plain_post :: "st_post \<Rightarrow> bool" where
  "plain_post p = (po_heads p = None \<and> po_cb p = CB_REGIST)"

lemma first_requests:
  assumes "device_laws pl" "short_names pl g"
  shows "\<exists>p q. regist_mac pl [] g = Some (0, [p]) \<and> regist_device pl [p] g = Some (0, [p, q]) \<and> plain_post p \<and>
    po_heads q = None \<and> po_cb q = CB_REGIST_DEV \<and> po_uri q = server_uri pl (bytes ''device/register'') g"
proof -
  obtain m where m: "get_mac_string pl g = Some (17, m)" using mac_text [OF assms(1)] by metis
  obtain x buf t where sn: "get_dev_sn pl (replicate 64 0) g = Some (x, buf)" "cstr buf = Some t"
    using sn_text [OF assms(2)] by blast
  let ?j1 = "add_strings [(bytes ''deviceGuid'', m), (bytes ''deviceSN'', t)] (JObject [])"
  let ?j2 = "add_strings (device_fields t m) (JObject [])"
  obtain b1 s1 l1 where f1: "signed_bodies (cjson_print pl ?j1) = Some b1"
    "\<And>posts u cb. add_post_hash_bodies posts (Some u) None b1 cb
      = Some (add_post_node posts \<lparr>po_uri = u, po_heads = None, po_payload = s1, po_cb = cb\<rparr>, l1)"
    using post_form [OF assms(1)] by metis
  obtain b2 s2 l2 where f2: "signed_bodies (cjson_print pl ?j2) = Some b2"
    "\<And>posts u cb. add_post_hash_bodies posts (Some u) None b2 cb
      = Some (add_post_node posts \<lparr>po_uri = u, po_heads = None, po_payload = s2, po_cb = cb\<rparr>, l2)"
    using post_form [OF assms(1)] by metis
  let ?p = "\<lparr>po_uri = server_uri pl (bytes ''upgrade/mac'') g, po_heads = None, po_payload = s1, po_cb = CB_REGIST\<rparr>"
  let ?q = "\<lparr>po_uri = server_uri pl (bytes ''device/register'') g, po_heads = None, po_payload = s2, po_cb = CB_REGIST_DEV\<rparr>"
  have p: "regist_mac pl [] g = Some (0, [?p])"
    unfolding regist_mac_def m sn(1) Option.bind.bind_lunit prod.case sn(2) Let_def f1(1) f1(2)
    by (simp add: add_post_node_def)
  have "take MAX_URL_LEN (server_uri pl (bytes ''upgrade/mac'') g) \<noteq> take MAX_URL_LEN (server_uri pl (bytes ''device/register'') g)"
    by (simp add: MAX_URL_LEN_def server_uri_def Let_def bytes_def)
  then have "regist_device pl [?p] g = Some (0, [?p, ?q])"
    unfolding regist_device_def m sn(1) Option.bind.bind_lunit prod.case sn(2) Let_def f2(1) f2(2)
    by (simp add: add_post_node_def)
  with p show ?thesis by (intro exI [of _ ?p] exI [of _ ?q]) (simp add: plain_post_def)
qed

section \<open>The answers\<close>

text \<open>What the handle and the store hold about a registered gateway.\<close>

definition known_as :: "'e platform \<Rightarrow> byte list \<Rightarrow> byte list \<Rightarrow> 'e gateway \<Rightarrow> bool" where
  "known_as pl acct r g =
     (h_auth g = acct @ replicate (100 - length acct) 0 \<and> handle_ok g \<and>
      take 10 (h_ref_hex g) = ref_hex_of (ref_text r @ replicate 80 0) \<and>
      get_config_mem pl CFG_HREG_AUTH (ext g) = Some (acct @ replicate (100 - length acct) 0) \<and>
      get_config_mem pl CFG_HREG_REF_ORI (ext g) = Some (r @ replicate (100 - length r) 0) \<and>
      get_config_mem pl CFG_HREG_REF (ext g) = Some (ref_text r @ replicate 80 0) \<and>
      get_config_mem pl CFG_HREG_SID (ext g) = Some (ref_hex_of (ref_text r @ replicate 80 0)))"

text \<open>A step that only talks to the outside and leaves the store alone.\<close>

definition quiet :: "'e platform \<Rightarrow> 'e gateway \<Rightarrow> 'e gateway \<Rightarrow> bool" where
  "quiet pl g g' = (\<exists>e. g' = g\<lparr>ext := e\<rparr> \<and> (\<forall>k. get_config_mem pl k e = get_config_mem pl k (ext g)))"

lemma quiet_ext: "(\<And>k. get_config_mem pl k e = get_config_mem pl k (ext g)) \<Longrightarrow> quiet pl g (g\<lparr>ext := e\<rparr>)"
  unfolding quiet_def by (intro exI [of _ e]) simp

lemma quiet_refl [simp]: "quiet pl g g"
  using quiet_ext [of pl "ext g" g] by simp

lemma quiet_trans: "quiet pl g h \<Longrightarrow> quiet pl h k \<Longrightarrow> quiet pl g k"
  by (auto simp: quiet_def)

lemma quiet_wait: "store_laws pl \<Longrightarrow> quiet pl g (snd (call (wait_us pl n) g))"
  by (simp add: call_simp quiet_ext store_laws_def)

lemma quiet_post: "store_laws pl \<Longrightarrow> quiet pl g (snd (call (http_post pl u h b) g))"
  by (simp add: call_simp quiet_ext store_laws_def)

lemma quiet_fields:
  assumes "quiet pl g g'"
  shows "h_auth g' = h_auth g" "h_ref_ori g' = h_ref_ori g" "h_ref_str g' = h_ref_str g" "h_ref_hex g' = h_ref_hex g"
    and "http_handle g' = http_handle g"
  using assms by (auto simp: quiet_def)

lemma quiet_store: "quiet pl g g' \<Longrightarrow> get_config_mem pl k (ext g') = get_config_mem pl k (ext g)"
  by (auto simp: quiet_def)

lemma quiet_known: "quiet pl g g' \<Longrightarrow> known_as pl acct r g' = known_as pl acct r g"
  by (simp add: known_as_def handle_ok_def quiet_fields quiet_store)

lemma quiet_names: "quiet pl g g' \<Longrightarrow> short_names pl g' = short_names pl g"
  by (simp add: short_names_def quiet_store)

lemma pad_zero: "length s < n \<Longrightarrow> s @ replicate (n - length s) 0 = s @ 0 # replicate (n - Suc (length s)) 0"
  by (metis Suc_diff_Suc replicate_Suc)

definition answer_buf :: "byte list \<Rightarrow> cbuf" where
  "answer_buf s = strncpy_bytes s MAX_BODY_LEN"

lemma answer_buf_text:
  assumes "length s < 1024"
  shows "answer_buf s = s @ 0 # replicate (1023 - length s) 0"
  using assms pad_zero [of s 1024] by (simp add: answer_buf_def strncpy_bytes_def MAX_BODY_LEN_def)

lemma accepted_code:
  assumes "accepted pl s root"
  shows "answer_code pl (answer_buf s) = Some (root, 100000)"
proof -
  have "cstr (answer_buf s) = Some s" using assms by (simp add: accepted_def answer_buf_text cstr_append)
  then show ?thesis using assms by (simp add: answer_code_def accepted_def)
qed

lemma stored_text:
  assumes "get_config_mem pl k (ext g) = Some (t @ replicate (100 - length t) 0)" "0 \<notin> set t" "length t < 100"
  shows "config_read pl k (replicate 100 0) 100 g = Some (100, t @ replicate (100 - length t) 0) \<and>
    cstr (t @ replicate (100 - length t) 0) = Some t"
proof -
  have "length (t @ replicate (100 - length t) 0) = 100" using assms(3) by simp
  from config_read_full [OF assms(1) this, of "replicate 100 0" 100] have
    "config_read pl k (replicate 100 0) 100 g = Some (100, t @ replicate (100 - length t) 0)" by simp
  moreover have "cstr (t @ replicate (100 - length t) 0) = Some t"
    unfolding pad_zero [OF assms(3)] using assms(2) by (rule cstr_append)
  ultimately show ?thesis by blast
qed

lemma join_later:
  assumes "device_laws pl" "short_names pl g" "known_as pl acct r g" "is_reference r"
    and "acct \<noteq> []" "0 \<notin> set acct" "length acct < 100"
  shows "\<exists>x ps. regist_join_dy pl later g = Some (x, ps @ later) \<and> length ps \<le> 1 \<and> (\<forall>p \<in> set ps. plain_post p)"
proof -
  note r = reference_chars [OF assms(4)]
  have ne: "r \<noteq> []" using assms(4) by (auto simp: is_reference_def)
  have rr: "config_read pl CFG_HREG_REF_ORI (replicate 100 0) 100 g = Some (100, r @ replicate (100 - length r) 0)"
    "cstr (r @ replicate (100 - length r) 0) = Some r"
    using stored_text [of pl CFG_HREG_REF_ORI g r] assms(3) r by (simp_all add: known_as_def)
  have ra: "config_read pl CFG_HREG_AUTH (replicate 100 0) 100 g = Some (100, acct @ replicate (100 - length acct) 0)"
    "cstr (acct @ replicate (100 - length acct) 0) = Some acct"
    using stored_text [of pl CFG_HREG_AUTH g acct] assms(3,6,7) by (simp_all add: known_as_def)
  obtain x buf t where ru: "config_read pl CFG_AI_UUID (replicate 64 0) 64 g = Some (x, buf)" "cstr buf = Some t"
    using config_read_short [of pl CFG_AI_UUID g 64] assms(2) by (auto simp: short_names_def)
  let ?j = "add_strings [(bytes ''deviceId'', r), (bytes ''authCode'', acct),
    (bytes ''platformId'', bytes ''774702725827940352''), (bytes ''uuid'', t)] (JObject [])"
  obtain b s left where f: "signed_bodies (cjson_print pl ?j) = Some b"
    "\<And>later u cb. add_post_hash_bodies_dy later (Some u) None b cb
      = Some ((0, \<lparr>po_uri = u, po_heads = None, po_payload = s, po_cb = cb\<rparr> # later), left)"
    using post_form [OF assms(1)] by metis
  let ?p = "\<lparr>po_uri = server_uri pl (bytes ''device/editJoin'') g, po_heads = None, po_payload = s, po_cb = CB_REGIST\<rparr>"
  have "regist_join_dy pl later g = (if t = [] then Some (-1, later) else Some (0, ?p # later))"
    unfolding regist_join_dy_def rr ra ru Option.bind.bind_lunit prod.case Let_def f
    using ne assms(5) by simp
  then show ?thesis
    by (cases "t = []") (auto simp: plain_post_def intro: exI [of _ "[]"] exI [of _ "[?p]"])
qed

lemma property_later:
  assumes "device_laws pl" "known_as pl acct r g" "is_reference r"
  shows "\<exists>p. regist_property_dy pl later g = Some (0, p # later) \<and> plain_post p"
proof -
  note r = reference_chars [OF assms(3)]
  obtain m where m: "get_mac_string pl g = Some (17, m)" using mac_text [OF assms(1)] by metis
  have rr: "config_read pl CFG_HREG_REF_ORI (replicate 100 0) 100 g = Some (100, r @ replicate (100 - length r) 0)"
    "cstr (r @ replicate (100 - length r) 0) = Some r"
    using stored_text [of pl CFG_HREG_REF_ORI g r] assms(2) r by (simp_all add: known_as_def)
  obtain b s left where f: "signed_bodies (cjson_print pl (AddItemToObject (bytes ''profile'') profile_json
      (AddItemToObject (bytes ''deviceId'') (JString r) (JObject [])))) = Some b"
    "\<And>later u cb. add_post_hash_bodies_dy later (Some u) None b cb
      = Some ((0, \<lparr>po_uri = u, po_heads = None, po_payload = s, po_cb = cb\<rparr> # later), left)"
    using post_form [OF assms(1)] by metis
  show ?thesis
    unfolding regist_property_dy_def m rr Option.bind.bind_lunit prod.case Let_def f by (simp add: plain_post_def)
qed

lemma identity_stored:
  assumes "store_laws pl" "identified pl acct r s" "is_reference r" "0 \<notin> set acct" "length acct < 100" "handle_ok g"
  shows "\<exists>root g1 g2. answer_code pl (answer_buf s) = Some (root, 100000) \<and>
    (\<exists>obj. GetObjectItem root (bytes ''object'') = Some obj \<and> take_auth pl obj g = Some g1) \<and>
    get_ref_from_json pl (answer_buf s) g1 = Some (0, g2) \<and> known_as pl acct r g2 \<and> http_handle g2 = http_handle g \<and>
    (\<forall>k \<in> {CFG_AI_SN, CFG_AI_UUID}. get_config_mem pl k (ext g2) = get_config_mem pl k (ext g))"
proof -
  obtain root obj pre gap c post where id: "accepted pl s root" "GetObjectItem root (bytes ''object'') = Some obj"
      "GetObjectItem obj (bytes ''authCode'') = Some (JString acct)"
      "s = pre @ bytes ''refrenceId\":'' @ gap @ r @ c # post" "find_sub (bytes ''refrenceId\":'') s = Some (length pre)"
      "\<forall>x \<in> set gap. \<not> ref_char x" "\<not> ref_char c"
    using assms(2) by (auto simp: identified_def)
  have s: "0 \<notin> set s" "length s < 1024" using id(1) by (simp_all add: accepted_def)
  let ?a = "acct @ replicate (100 - length acct) 0"
  let ?g1 = "g\<lparr>h_auth := ?a, ext := snd (sync_config pl (snd (set_config_mem pl CFG_HREG_AUTH ?a (ext g))))\<rparr>"
  have a: "strncpy_bytes acct 100 = ?a" "length ?a = 100" using assms(5) by (simp_all add: strncpy_bytes_def)
  have tw: "takeWhile (\<lambda>c. c \<noteq> 0) ?a = acct"
    using assms(4) unfolding pad_zero [OF assms(5)] by (auto simp: takeWhile_append takeWhile_eq_all_conv [THEN iffD2])
  have cp: "strncpy (h_auth g) acct 100 = Some ?a"
    using a assms(6) by (simp add: strncpy_def bput_def handle_ok_def)
  have w: "config_write pl CFG_HREG_AUTH ?a 100 g = Some (g\<lparr>ext := snd (set_config_mem pl CFG_HREG_AUTH ?a (ext g))\<rparr>)"
    using a(2) by (simp add: config_write_def bget_def call_simp)
  have hand: "length (h_ref_ori ?g1) = 100" "length (h_ref_str ?g1) = 100" "length (h_ref_hex ?g1) = 100"
    using assms(6) by (simp_all add: handle_ok_def)
  obtain e where ref: "get_ref_from_json pl (answer_buf s) ?g1 = Some (0, ?g1\<lparr>h_ref_ori := r @ replicate (100 - length r) 0,
      h_ref_str := ref_text r @ replicate 80 0,
      h_ref_hex := ref_hex_of (ref_text r @ replicate 80 0) @ drop 10 (h_ref_hex ?g1), ext := e\<rparr>)"
    "e = snd (sync_config pl (snd (set_config_mem pl CFG_HREG_SID (ref_hex_of (ref_text r @ replicate 80 0))
      (snd (set_config_mem pl CFG_HREG_REF (ref_text r @ replicate 80 0)
        (snd (set_config_mem pl CFG_HREG_REF_ORI (r @ replicate (100 - length r) 0) (ext ?g1))))))))"
    using get_ref_runs [OF assms(3) id(5,4) s(1) answer_buf_text [OF s(2)] id(6,7) hand] by blast
  let ?g2 = "?g1\<lparr>h_ref_ori := r @ replicate (100 - length r) 0, h_ref_str := ref_text r @ replicate 80 0,
    h_ref_hex := ref_hex_of (ref_text r @ replicate 80 0) @ drop 10 (h_ref_hex ?g1), ext := e\<rparr>"
  have mem: "get_config_mem pl k (ext ?g2) =
    (if k = CFG_HREG_SID then Some (ref_hex_of (ref_text r @ replicate 80 0))
     else if k = CFG_HREG_REF then Some (ref_text r @ replicate 80 0)
     else if k = CFG_HREG_REF_ORI then Some (r @ replicate (100 - length r) 0)
     else if k = CFG_HREG_AUTH then Some ?a else get_config_mem pl k (ext g))" for k
    using assms(1) unfolding ref(2) by (simp add: store_laws_def)
  have "length (ref_hex_of (ref_text r @ replicate 80 0)) = 10" by (simp add: ref_hex_of_def)
  then have "known_as pl acct r ?g2"
    using mem a(2) assms(6) reference_chars(3) [OF assms(3)] ref_text_reference(1) [OF assms(3)]
    by (simp add: known_as_def handle_ok_def)
  moreover have "\<forall>k \<in> {CFG_AI_SN, CFG_AI_UUID}. get_config_mem pl k (ext ?g2) = get_config_mem pl k (ext g)"
    using mem by simp
  moreover have "answer_code pl (answer_buf s) = Some (root, 100000)" by (rule accepted_code [OF id(1)])
  moreover have "take_auth pl obj g = Some ?g1"
    unfolding take_auth_def id(3) option.case valuestring.simps Option.bind.bind_lunit Let_def a(1) w tw
    by (simp add: cp call_simp)
  ultimately show ?thesis
    using id(2) ref(1) by (intro exI [of _ root] exI [of _ ?g1] exI [of _ ?g2]) simp
qed

section \<open>The run\<close>

lemma plain_tries:
  assumes "store_laws pl" "device_laws pl" "server_laws pl acct r" "plain_post p"
  shows "\<exists>g'. post_tries (Suc n) pl (regist_fns pl) 3 p 0 later g = Some (True, later, g') \<and> quiet pl g g'"
proof -
  let ?g1 = "snd (call (wait_us pl 100000) g)"
  let ?hdr = "[(bytes ''Content-Type'', bytes ''application/x-www-form-urlencoded'')]"
  let ?g2 = "snd (call (http_post pl (po_uri p) ?hdr (po_payload p)) ?g1)"
  obtain s root where s: "fst (http_post pl (po_uri p) ?hdr (po_payload p) (ext ?g1)) = Some (200, s)" "accepted pl s root"
    using assms(3) unfolding server_laws_def by blast
  have w: "wifi_connected pl (ext g)" using assms(2) by (simp add: device_laws_def)
  have cb: "regist_fns pl (po_cb p) 200 (strncpy_bytes s MAX_BODY_LEN) later ?g2 = Some (0, later, ?g2)"
    using accepted_code [OF s(2)] assms(4)
    by (simp add: plain_post_def regist_fns_def regist_resultcb_def answer_buf_def)
  have run: "post_tries (Suc n) pl (regist_fns pl) 3 p 0 later g = Some (True, later, ?g2)"
    using w s(1) cb assms(4) by (simp add: plain_post_def http_headers_def call_simp Let_def)
  have "quiet pl g ?g2" by (rule quiet_trans [OF quiet_wait [OF assms(1)] quiet_post [OF assms(1)]])
  with run show ?thesis by blast
qed

lemma plain_loop:
  assumes "store_laws pl" "device_laws pl" "server_laws pl acct r" "\<forall>p \<in> set later. plain_post p" "length later \<le> n"
  shows "\<exists>g'. http_loop n (Suc k) pl (regist_fns pl) 3 sent later g = Some (True, sent @ later, g') \<and> quiet pl g g'"
  using assms(4,5)
proof (induction later arbitrary: n sent g)
  case (Cons p later)
  then obtain m where m: "n = Suc m" "length later \<le> m" by (cases n) auto
  obtain g1 where g1: "post_tries (Suc k) pl (regist_fns pl) 3 p 0 later g = Some (True, later, g1)" "quiet pl g g1"
    using plain_tries [OF assms(1-3)] Cons.prems(1) by (metis list.set_intros(1))
  obtain g2 where g2: "http_loop m (Suc k) pl (regist_fns pl) 3 (sent @ [p]) later g1 = Some (True, (sent @ [p]) @ later, g2)"
      "quiet pl g1 g2"
    using Cons.IH [of m "sent @ [p]" g1] Cons.prems(1) m(2) by auto
  have "http_loop n (Suc k) pl (regist_fns pl) 3 sent (p # later) g = Some (True, sent @ p # later, g2)"
    unfolding m(1) http_loop.simps g1(1) Option.bind.bind_lunit prod.case using g2(1) by simp
  with quiet_trans [OF g1(2) g2(2)] show ?case by blast
qed simp

lemma device_tries:
  assumes "store_laws pl" "device_laws pl" "server_laws pl acct r" "is_reference r"
    and "acct \<noteq> []" "0 \<notin> set acct" "length acct < 100"
    and "short_names pl g" "handle_ok g"
    and "po_heads q = None" "po_cb q = CB_REGIST_DEV" "find_sub (bytes ''device/register'') (po_uri q) \<noteq> None"
  shows "\<exists>ps g'. post_tries (Suc n) pl (regist_fns pl) 3 q 0 [] g = Some (True, ps, g') \<and>
    (\<forall>p \<in> set ps. plain_post p) \<and> length ps \<le> 2 \<and> known_as pl acct r g' \<and> http_handle g' = http_handle g"
proof -
  let ?g1 = "snd (call (wait_us pl 100000) g)"
  let ?hdr = "[(bytes ''Content-Type'', bytes ''application/x-www-form-urlencoded'')]"
  let ?g2 = "snd (call (http_post pl (po_uri q) ?hdr (po_payload q)) ?g1)"
  obtain s where s: "fst (http_post pl (po_uri q) ?hdr (po_payload q) (ext ?g1)) = Some (200, s)" "identified pl acct r s"
    using assms(3,12) unfolding server_laws_def by blast
  have w: "wifi_connected pl (ext g)" using assms(2) by (simp add: device_laws_def)
  have qt: "quiet pl g ?g2" by (rule quiet_trans [OF quiet_wait [OF assms(1)] quiet_post [OF assms(1)]])
  have "handle_ok ?g2" using assms(9) quiet_fields [OF qt] by (simp add: handle_ok_def)
  then obtain root g3 g4 obj where d: "answer_code pl (answer_buf s) = Some (root, 100000)"
      "GetObjectItem root (bytes ''object'') = Some obj" "take_auth pl obj ?g2 = Some g3"
      "get_ref_from_json pl (answer_buf s) g3 = Some (0, g4)" "known_as pl acct r g4" "http_handle g4 = http_handle ?g2"
      "\<forall>k \<in> {CFG_AI_SN, CFG_AI_UUID}. get_config_mem pl k (ext g4) = get_config_mem pl k (ext ?g2)"
    using identity_stored [OF assms(1) s(2) assms(4,6,7)] by blast
  have sn: "short_names pl g4" using assms(8) d(7) quiet_store [OF qt] by (simp add: short_names_def)
  obtain x ps where j: "regist_join_dy pl [] g4 = Some (x, ps @ [])" "length ps \<le> 1" "\<forall>p \<in> set ps. plain_post p"
    using join_later [OF assms(2) sn d(5) assms(4-7)] by blast
  obtain p where p: "regist_property_dy pl ps g4 = Some (0, p # ps)" "plain_post p"
    using property_later [OF assms(2) d(5) assms(4)] by blast
  have cb: "regist_fns pl (po_cb q) 200 (strncpy_bytes s MAX_BODY_LEN) [] ?g2 = Some (0, p # ps, g4)"
    unfolding assms(11) regist_fns_def post_cb.case regist_dev_cb_def answer_buf_def [symmetric] d(1) Option.bind.bind_lunit prod.case
    using d(2-4) j(1) p(1) by simp
  have "post_tries (Suc n) pl (regist_fns pl) 3 q 0 [] g = Some (True, p # ps, g4)"
    using w s(1) cb assms(10) by (simp add: http_headers_def call_simp Let_def)
  moreover have "http_handle g4 = http_handle g" using d(6) quiet_fields(5) [OF qt] by simp
  ultimately show ?thesis using j(2,3) p(2) d(5) by (intro exI [of _ "p # ps"] exI [of _ g4]) auto
qed

lemma uri_register: "find_sub (bytes ''device/register'') (server_uri pl (bytes ''device/register'') g) \<noteq> None"
proof -
  have "find_sub (bytes ''device/register'') (bytes ''http://open.nbhope.cn/hopeApi/'' @ bytes ''device/register'') \<noteq> None"
    "find_sub (bytes ''device/register'') (bytes ''http://192.168.2.9:8080/hopeApi/'' @ bytes ''device/register'') \<noteq> None"
    by code_simp+
  then show ?thesis unfolding server_uri_def Let_def by (simp split: if_split)
qed

text \<open>A gateway that the store knows passes the check of its next start.\<close>

lemma known_checks:
  assumes "device_laws pl" "get_mac_string pl g = Some (17, m)" "length m = 17" "known_as pl acct r g" "is_reference r"
    and "acct \<noteq> []" "0 \<notin> set acct" "length acct < 100"
    and "get_config_mem pl CFG_HREG_MAC (ext g) = Some (m @ replicate 15 0)"
  shows "\<exists>g'. regist_check pl g = Some (0, g')"
proof -
  let ?a = "acct @ replicate (100 - length acct) 0" and ?t = "ref_text r @ replicate 80 0"
  let ?r = "r @ replicate (100 - length r) 0"
  have lens: "length (ref_hex_of ?t) = 10" "length ?t = 100" "length ?a = 100" "length ?r = 100"
    using ref_text_reference(1) [OF assms(5)] assms(8) reference_chars(3) [OF assms(5)] by (simp_all add: ref_hex_of_def)
  have h: "length (h_ref_hex g) = 100" "length (h_auth g) = 100" "length (h_ref_ori g) = 100" "length (h_ref_str g) = 100"
    using assms(4,8) by (simp_all add: known_as_def handle_ok_def)
  have mem: "get_config_mem pl CFG_HREG_SID (ext g) = Some (ref_hex_of ?t)" "get_config_mem pl CFG_HREG_AUTH (ext g) = Some ?a"
    "get_config_mem pl CFG_HREG_REF_ORI (ext g) = Some ?r" "get_config_mem pl CFG_HREG_REF (ext g) = Some ?t"
    using assms(4) by (simp_all add: known_as_def)
  have full: "config_read pl k buf n g1 = Some (int n, b @ drop n buf)"
    if "get_config_mem pl k (ext g) = Some b" "length b = n" "n \<le> length buf" "ext g1 = ext g" for k buf n b g1
    using config_read_full [of pl k g1 b n buf "length buf"] that by simp
  obtain x xs where x: "acct = x # xs" "x \<noteq> 0" using assms(6,7) by (cases acct) auto
  have rd0: "rd ?a 0 = Some x" using x(1) by (simp add: rd_def)
  show ?thesis
    unfolding regist_check_def assms(2) Option.bind.bind_lunit prod.case Let_def
    using full [OF assms(9), of 32 "replicate 32 0" g] assms(3) lens h rd0 x(2)
    by (simp add: strncmp_eq_def full [OF mem(1)] full [OF mem(2)] full [OF mem(3)] full [OF mem(4)])
qed

lemma known_handle [simp]: "known_as pl acct r (g\<lparr>http_handle := h\<rparr>) = known_as pl acct r g"
  "known_as pl acct r (g\<lparr>hope_regist_st := n\<rparr>) = known_as pl acct r g"
  by (simp_all add: known_as_def handle_ok_def)

lemma registration_run:
  assumes "store_laws pl" "device_laws pl" "server_laws pl acct r" "is_reference r"
    and "acct \<noteq> []" "0 \<notin> set acct" "length acct < 100" "short_names pl g" "handle_ok g" "5 \<le> fuel"
  shows "\<exists>g' m. regist_proc fuel pl g = Some g' \<and> regist_status g' = 1 \<and> \<not> is_http_busy g' \<and> known_as pl acct r g' \<and>
    length m = 17 \<and> get_mac_string pl g' = Some (17, m) \<and> get_config_mem pl CFG_HREG_MAC (ext g') = Some (m @ replicate 15 0)"
proof -
  obtain m where m: "\<And>g :: 'a gateway. get_mac_string pl g = Some (17, m)" "length m = 17" using mac_text [OF assms(2)] by metis
  obtain n where n: "fuel = Suc (Suc (Suc n))" "2 \<le> n"
    using assms(10) by (intro that [of "fuel - 3"]) auto
  obtain p q where pq: "regist_mac pl [] g = Some (0, [p])" "regist_device pl [p] g = Some (0, [p, q])" "plain_post p"
      "po_heads q = None" "po_cb q = CB_REGIST_DEV" "po_uri q = server_uri pl (bytes ''device/register'') g"
    using first_requests [OF assms(2,8)] by blast
  define h where "h = \<lparr>ht_posts = Some [p, q], ht_retry = 3, ht_detach = 0, ht_end_cb = None, ht_busy = 1\<rparr>"
  define g2 where "g2 = g\<lparr>http_handle := Some h\<rparr>"
  have start: "snd (halo_http_start (snd (init_http (Some [p, q]) 3 0 None g))) = g2"
    by (simp add: halo_http_start_def init_http_def g2_def h_def)
  have g2: "short_names pl g2" "handle_ok g2" "http_handle g2 = Some h"
    using assms(8,9) by (simp_all add: g2_def short_names_def handle_ok_def)
  let ?g3 = "snd (call (wait_us pl 1000000) g2)"
  have wait: "wifi_wait fuel pl g2 = Some ?g3"
    using assms(2) by (simp add: n(1) device_laws_def Let_def)
  have q3: "quiet pl g2 ?g3" by (rule quiet_wait [OF assms(1)])
  obtain g4 where g4: "post_tries fuel pl (regist_fns pl) 3 p 0 [q] ?g3 = Some (True, [q], g4)" "quiet pl ?g3 g4"
    using plain_tries [OF assms(1-3) pq(3)] n(1) by metis
  have q4: "quiet pl g2 g4" by (rule quiet_trans [OF q3 g4(2)])
  have ok4: "short_names pl g4" "handle_ok g4" "http_handle g4 = Some h"
    using g2 quiet_fields [OF q4] quiet_names [OF q4] by (simp_all add: handle_ok_def)
  obtain ps g5 where g5: "post_tries fuel pl (regist_fns pl) 3 q 0 [] g4 = Some (True, ps, g5)"
      "\<forall>p \<in> set ps. plain_post p" "length ps \<le> 2" "known_as pl acct r g5" "http_handle g5 = http_handle g4"
    using device_tries [OF assms(1-7) ok4(1,2) pq(4,5)] pq(6) uri_register n(1) by metis
  obtain g6 where g6: "http_loop (Suc n) fuel pl (regist_fns pl) 3 ([] @ [p] @ [q]) ps g5 = Some (True, ([] @ [p] @ [q]) @ ps, g6)"
      "quiet pl g5 g6"
    using plain_loop [OF assms(1-3) g5(2), of "Suc n" "Suc (Suc n)" "[] @ [p] @ [q]" g5] g5(3) n by auto
  have loop: "http_loop fuel fuel pl (regist_fns pl) 3 [] [p, q] ?g3 = Some (True, p # q # ps, g6)"
    using g4(1) g5(1) g6(1) by (simp add: n(1))
  let ?g7 = "set_posts (p # q # ps) g6"
  have proc: "http_proc fuel pl (regist_fns pl) (\<lambda>_ g. g) g2 = Some (0, ?g7)"
    unfolding http_proc_def g2(3) Option.bind.bind_lunit wait h_def using loop by simp
  have k7: "known_as pl acct r ?g7" using g5(4) quiet_known [OF g6(2)] by (simp add: set_posts_def)
  let ?b = "m @ replicate 15 0"
  let ?e = "snd (sync_config pl (snd (set_config_mem pl CFG_HREG_MAC ?b (ext ?g7))))"
  have wr: "config_write pl CFG_HREG_MAC (m @ replicate (32 - length m) 0) 32 ?g7
      = Some (?g7\<lparr>ext := snd (set_config_mem pl CFG_HREG_MAC ?b (ext ?g7))\<rparr>)"
    using m(2) by (simp add: config_write_def bget_def call_simp)
  let ?g8 = "?g7\<lparr>ext := ?e, hope_regist_st := 1, http_handle := None\<rparr>"
  have h7: "http_handle ?g7 \<noteq> None"
    using ok4(3) g5(5) quiet_fields(5) [OF g6(2)] by (simp add: set_posts_def)
  have run: "regist_proc fuel pl g = Some ?g8"
    unfolding regist_proc_def pq(1) Option.bind.bind_lunit prod.case pq(2) Let_def start proc m(1) wr halo_http_result_def
    using h7 by (auto simp: call_simp deinit_http_def)
  have mem: "get_config_mem pl k ?e = (if k = CFG_HREG_MAC then Some ?b else get_config_mem pl k (ext ?g7))" for k
    using assms(1) by (simp add: store_laws_def)
  have "known_as pl acct r ?g8"
    using k7 mem assms(7) by (simp add: known_as_def handle_ok_def)
  then show ?thesis
    using run mem m by (intro exI [of _ ?g8] exI [of _ m]) (simp add: regist_status_def is_http_busy_def)
qed


section \<open>Examples\<close>

definition ex_answer :: "byte list" where
  "ex_answer = bytes ''{\"code\":100000,\"object\":{\"authCode\":\"ab\",\"refrenceId\":\"-42\"}}''"

definition ex_answer_json :: json where
  "ex_answer_json = JObject [(bytes ''code'', JNumber 100000), (bytes ''object'',
     JObject [(bytes ''authCode'', JString (bytes ''ab'')), (bytes ''refrenceId'', JString (bytes ''-42''))])]"

definition ex_cloud :: "sim platform" where
  "ex_cloud = sim_platform\<lparr>http_post := (\<lambda>_ _ _ e. (Some (200, ex_answer), e)),
     cjson_parse := (\<lambda>s. if s = ex_answer then Some ex_answer_json else None)\<rparr>"

lemma ex_answer_parts:
  "0 \<notin> set ex_answer" "length ex_answer < 1024"
  "ex_answer = bytes ''{\"code\":100000,\"object\":{\"authCode\":\"ab\",\"'' @ bytes ''refrenceId\":'' @ bytes ''\"'' @ bytes ''-42'' @ 0x22 # bytes ''}}''"
  "find_sub (bytes ''refrenceId\":'') ex_answer = Some (length (bytes ''{\"code\":100000,\"object\":{\"authCode\":\"ab\",\"''))"
  "\<forall>x \<in> set (bytes ''\"''). \<not> ref_char x" "\<not> ref_char 0x22"
  by code_simp+

lemma ex_answer_items:
  "GetObjectItem ex_answer_json (bytes ''code'') = Some (JNumber 100000)"
  "GetObjectItem ex_answer_json (bytes ''object'') = Some (JObject [(bytes ''authCode'', JString (bytes ''ab'')), (bytes ''refrenceId'', JString (bytes ''-42''))])"
  "GetObjectItem (JObject [(bytes ''authCode'', JString (bytes ''ab'')), (bytes ''refrenceId'', JString (bytes ''-42''))]) (bytes ''authCode'') = Some (JString (bytes ''ab''))"
  by code_simp+

lemma ex_reference: "is_reference (bytes ''-42'')"
  unfolding is_reference_def by (intro exI [of _ "bytes ''42''"]) code_simp

lemma ex_server: "server_laws ex_cloud (bytes ''ab'') (bytes ''-42'')"
proof -
  have a: "accepted ex_cloud ex_answer ex_answer_json"
    using ex_answer_parts(1,2) ex_answer_items(1) by (simp add: accepted_def ex_cloud_def)
  then have "identified ex_cloud (bytes ''ab'') (bytes ''-42'') ex_answer"
    unfolding identified_def using ex_answer_items(2,3) ex_answer_parts(3-6) by blast
  with a show ?thesis unfolding server_laws_def by (auto simp: ex_cloud_def)
qed

lemma ex_device: "device_laws ex_cloud"
proof -
  have "[of_nat (nat (json_type j)) + 0x30 :: byte] \<noteq> [0]" for j by (cases j) simp_all
  then show ?thesis by (auto simp: device_laws_def ex_cloud_def sim_platform_def sim_print_def)
qed

lemma ex_store: "store_laws ex_cloud"
  by (simp add: store_laws_def ex_cloud_def sim_platform_def)



end
