(* ===== verification/Halo_Main.thy ===== *)
theory Halo_Main
  imports Speech Music_List Discovery Status_Pipe Villa Serial Regist_Flow
begin

text \<open>
  The program itself, \<open>app/main.c\<close>: the start that registers the links, the messages of the other
  services and of the system, and the timer that opens the music directory. A handler of a system
  message that starts the upload thread returns the directory the thread gets.
\<close>

section \<open>Requests of other services\<close>

datatype srv_type = HOPE_DEV_UNBIND | HOPE_TP_DEV_CTRL | SRV_OTHER int

datatype reply_type = MSG_REPLY_SUCCESS | MSG_REPLY_FAILED | MSG_REPLY_OTHER int

record srv_reply =
  rp_type :: reply_type
  rp_size :: int
  rp_content :: cbuf

text \<open>\<open>lit\<close> is the memory from the literal \<open>"ffff"\<close> on, of which \<open>set_config\<close> reads 32 bytes.\<close>

definition proc_srv_msg :: "'e platform \<Rightarrow> cbuf \<Rightarrow> srv_type \<Rightarrow> cbuf \<Rightarrow> srv_reply \<Rightarrow> 'e gateway \<Rightarrow>
    (int \<times> srv_reply \<times> 'e gateway) option" where
  "proc_srv_msg pl lit ty req reply g =
     (case ty of
        HOPE_DEV_UNBIND \<Rightarrow> do {
          g1 \<leftarrow> config_write pl CFG_HREG_MAC lit 32 g;
          (r, g2) \<leftarrow> hope_unbind g1;
          Some (0, reply\<lparr>rp_size := 0, rp_type := (if r \<ge> 0 then MSG_REPLY_SUCCESS else MSG_REPLY_FAILED)\<rparr>, g2) }
      | HOPE_TP_DEV_CTRL \<Rightarrow> do {
          i \<leftarrow> bget req 0 4;
          st \<leftarrow> bget req 4 4;
          let (ret, g1) = smart_home_tp_dev_ctrl pl (of_le_word i) (of_le_word st) g;
          c \<leftarrow> bput (rp_content reply) 0 (int_bytes ret);
          Some (0, reply\<lparr>rp_type := MSG_REPLY_SUCCESS, rp_size := 4, rp_content := c\<rparr>, g1) }
      | SRV_OTHER _ \<Rightarrow> Some (0, reply, g))"

section \<open>Messages of the system\<close>

datatype sys_type =
    MSG_APP_QUIT | MSG_SAIR_CLOUD_CUSTOM_COMMAND | MSG_CARD_OUT | MSG_CARD_IN | MSG_USB_HOST_DISK_IN
  | MSG_USB_HOST_DISK_OUT | MSG_USB_B_OUT | MSG_USB_B_IN | MSG_SPLAYER_MODE_CHANGE | MSG_MEDIA_NAVI_UPDATE
  | MSG_LUA_DEMO | SYS_OTHER int

text \<open>\<open>_get_items\<close>, the callback of the timer \<open>mlist_timer\<close>.\<close>

definition get_items_timer :: "'e platform \<Rightarrow> 'e gateway \<Rightarrow> (int \<times> 'e gateway) option" where
  "get_items_timer pl g =
     do { (r, g1) \<leftarrow> get_items pl g;
          if r = 0
          then do {
            n \<leftarrow> int32 (mlist_retry g1 + 1);
            let g2 = g1\<lparr>mlist_retry := n\<rparr>;
            let g3 = (if n \<ge> 3 then (snd (call (kill_timer pl (mlist_timer g2)) g2))\<lparr>mlist_timer := -1\<rparr> else g2);
            Some (0, g3) }
          else Some (1, g1) }"

definition disk_changed :: "'e platform \<Rightarrow> 'e gateway \<Rightarrow> 'e gateway" where
  "disk_changed pl g =
     (if \<not> wifi_connected pl (ext g) then g
      else let mdisk = (case get_config pl CFG_MAIN_DISK (ext g) of None \<Rightarrow> 0 | Some d \<Rightarrow> d) in
        if main_disk g = mdisk then g
        else let g1 = g\<lparr>main_disk := mdisk\<rparr>;
                 g2 = (if mlist_timer g1 \<ge> 0 then snd (call (kill_timer pl (mlist_timer g1)) g1) else g1);
                 (t, g3) = call (start_timer pl 5000) (g2\<lparr>mlist_retry := 0\<rparr>)
             in g3\<lparr>mlist_timer := t\<rparr>)"

definition started :: "'e platform \<Rightarrow> 'e gateway \<Rightarrow> int option" where
  "started pl g = (if mlist_update pl (mlist_fd g) g = 0 then Some (mlist_fd g) else None)"

definition mode_changed :: "'e platform \<Rightarrow> 'e gateway \<Rightarrow> int option \<times> 'e gateway" where
  "mode_changed pl g =
     (let g1 = g\<lparr>local_list := None\<rparr>;
          st = snd (splayer_get_status pl (ext g1));
          g2 = g1\<lparr>last_mode := Some (ps_mode st)\<rparr>
      in if last_mode g1 \<noteq> Some MODE_AIMUSIC \<and> last_mode g1 \<noteq> Some MODE_CLOUDMUSIC then (None, g2)
         else let list_mode = (case get_config pl CFG_MUSIC_LIST_MODE (ext g2) of None \<Rightarrow> 1 | Some v \<Rightarrow> v) in
           if ps_mode st = MODE_PLAYLIST \<and> list_mode = 0
           then let g3 = g2\<lparr>mlist_fd := (case media_list_fd pl (ext g2) of None \<Rightarrow> mlist_fd g2 | Some f \<Rightarrow> f)\<rparr> in
             if mlist_fd g3 = 0 then (None, g3)
             else let g4 = snd (call (media_add_owner pl (mlist_fd g3)) g3) in (started pl g4, g4)
           else (None, g2))"

definition navi_updated :: "'e platform \<Rightarrow> 'e gateway \<Rightarrow> int option \<times> 'e gateway" where
  "navi_updated pl g =
     (let (ret, cnt, finish) = media_item_num pl (mlist_fd g) (ext g); g1 = g\<lparr>music_num := cnt\<rparr>
      in (if finish \<noteq> 0 then started pl g1 else None, g1))"

definition proc_sys_msg :: "'e platform \<Rightarrow> sys_type \<Rightarrow> byte list \<Rightarrow> 'e gateway \<Rightarrow>
    (int \<times> int option \<times> 'e gateway) option" where
  "proc_sys_msg pl ty text g =
     (case ty of
        MSG_APP_QUIT \<Rightarrow> Some (0, None, (snd (call (exit_msg_loop pl) g))\<lparr>s_quit := True\<rparr>)
      | MSG_SAIR_CLOUD_CUSTOM_COMMAND \<Rightarrow> do { (_, g1) \<leftarrow> parse_speech_cmd pl text g; Some (0, None, g1) }
      | MSG_SPLAYER_MODE_CHANGE \<Rightarrow> (let (t, g1) = mode_changed pl g in Some (0, t, g1))
      | MSG_MEDIA_NAVI_UPDATE \<Rightarrow> (let (t, g1) = navi_updated pl g in Some (0, t, g1))
      | MSG_LUA_DEMO \<Rightarrow> Some (0, None, g)
      | SYS_OTHER _ \<Rightarrow> Some (0, None, g)
      | _ \<Rightarrow> Some (0, None, disk_changed pl g))"

definition exit_handle :: "'e platform \<Rightarrow> bool \<Rightarrow> 'e gateway \<Rightarrow> 'e gateway" where
  "exit_handle pl sigint g = (if sigint then (snd (call (exit_msg_loop pl) g))\<lparr>s_quit := True\<rparr> else g)"

section \<open>The start\<close>

text \<open>The blocks that the links allocate, in the order of their allocation.\<close>

record blocks =
  bk_pipe :: cbuf
  bk_serial :: cbuf
  bk_udp :: cbuf
  bk_cli :: cbuf

definition boot :: "'e platform \<Rightarrow> blocks \<Rightarrow> splayer_status \<Rightarrow> 'e gateway \<Rightarrow> 'e gateway" where
  "boot pl b st0 g =
     (let g1 = snd (halo_init g);
          g2 = snd (add_pipe (bk_pipe b) st0 g1);
          g3 = snd (add_serial pl (bk_serial b) st0 g2);
          g4 = snd (udp_service_init (bk_udp b) st0 g3);
          g5 = snd (add_tcp_cli pl (bk_cli b) st0 g4);
          g6 = snd (add_tcp_ser st0 g5);
          g7 = add_http_regist st0 g6
      in snd (add_villa_pro pl st0 g7))"

text \<open>The callbacks of all links. The pipe reports to the links of this table; its own entry in it has no
  report, so it is left empty there.\<close>

definition no_cbs :: "'e callback_table" where
  "no_cbs = \<lparr>init_cb = None, recv_cb = None, reply_cb = None, active_send_cb = None, disproto_cb = None,
     timeout_cb = None, close_cb = None\<rparr>"

definition link_tables :: "nat \<Rightarrow> 'e platform \<Rightarrow> cbuf \<Rightarrow> splayer_status \<Rightarrow> 'e tables" where
  "link_tables fuel pl junk st0 k =
     (case k of
        K_PIPE \<Rightarrow> no_cbs
      | K_RS485 \<Rightarrow> ser_cbs pl
      | K_UDP \<Rightarrow> udp_cbs fuel pl
      | K_TCP_CLI \<Rightarrow> cli_cbs fuel pl
      | K_TCP_SER \<Rightarrow> tcp_ser_cbs pl junk st0
      | K_SER_CLI \<Rightarrow> ser_cli_cbs fuel pl
      | K_HTTP_REGIST \<Rightarrow> regist_cbs pl
      | K_VILLA \<Rightarrow> villa_cbs fuel pl)"

definition gateway_tables :: "nat \<Rightarrow> 'e platform \<Rightarrow> cbuf \<Rightarrow> splayer_status \<Rightarrow> 'e tables" where
  "gateway_tables fuel pl junk st0 =
     (link_tables fuel pl junk st0)(K_PIPE := pipe_cbs fuel pl (link_tables fuel pl junk st0))"

section \<open>Control of a device\<close>

lemma base_step: "(x :: int) mod 256 + 256 * (x div 256) = x"
  by simp

lemma base_256:
  assumes "0 \<le> u" "u < 4294967296"
  shows "u mod 256 + 256 * (u div 256 mod 256 + 256 * (u div 65536 mod 256 + 256 * (u div 16777216 mod 256))) = (u :: int)"
proof -
  have d: "u div 65536 = u div 256 div 256" "u div 16777216 = u div 256 div 256 div 256"
    by (simp_all add: zdiv_zmult2_eq [symmetric])
  have top: "u div 256 div 256 div 256 mod 256 = u div 256 div 256 div 256"
    using assms unfolding d(2) [symmetric] by (intro mod_pos_pos_trivial) (simp_all add: pos_imp_zdiv_nonneg_iff)
  show ?thesis by (simp only: d top base_step)
qed

lemma word_bytes_read:
  fixes w :: "32 word"
  shows "foldr (\<lambda>(c :: byte) n. uint c + 256 * n) [ucast w, ucast (drop_bit 8 w), ucast (drop_bit 16 w), ucast (drop_bit 24 w)] 0 = uint w"
proof -
  have lt: "uint w < 4294967296" "0 \<le> uint w" using uint_lt2p [of w] by simp_all
  then have m: "uint w mod 4294967296 = uint w" by simp
  have p: "uint (ucast (drop_bit k w) :: byte) = (uint w div 2 ^ k) mod 256" for k
    using m by (simp add: unsigned_ucast_eq unsigned_drop_bit_eq take_bit_eq_mod drop_bit_eq_div [where ?'a = int])
  have pw: "(2 :: int) ^ 8 = 256" "(2 :: int) ^ 16 = 65536" "(2 :: int) ^ 24 = 16777216" by simp_all
  have q: "uint (ucast (drop_bit 8 w) :: byte) = uint w div 256 mod 256"
    "uint (ucast (drop_bit 16 w) :: byte) = uint w div 65536 mod 256"
    "uint (ucast (drop_bit 24 w) :: byte) = uint w div 16777216 mod 256"
    "uint (ucast w :: byte) = uint w mod 256"
    using p [of 8] p [of 16] p [of 24] p [of 0] by (simp_all only: pw power_0 drop_bit_0 id_apply div_by_1)
  show ?thesis
    by (simp only: foldr.simps o_apply id_apply q mult_zero_right add_0_right base_256 [OF lt(2,1)])
qed

lemma int_bytes_read: "- (2 ^ 31) \<le> i \<Longrightarrow> i < 2 ^ 31 \<Longrightarrow> of_le_word (int_bytes i) = i"
  unfolding of_le_word_def int_bytes_def Let_def word_bytes_read word_of_int_uint
  by (simp add: sint_sbintrunc' signed_take_bit_int_eq_self)

lemma int_bytes_length [simp]: "length (int_bytes i) = 4"
  by (simp add: int_bytes_def Let_def)

text \<open>A service that asks for a device gets what the device answered: the handler reads the number of the
  device and its state from the request, calls the device with them, and the four bytes of the reply
  are the result; a request that is shorter than two numbers is read behind its end.\<close>

theorem device_control_answers:
  assumes "- (2 ^ 31) \<le> i" "i < 2 ^ 31" "- (2 ^ 31) \<le> st" "st < 2 ^ 31"
    and "tp_dev_ctrl pl i st (ext g) = (ret, e)" "- (2 ^ 31) \<le> ret" "ret < 2 ^ 31" "4 \<le> length (rp_content reply)"
  shows "(\<exists>reply'. proc_srv_msg pl lit HOPE_TP_DEV_CTRL (int_bytes i @ int_bytes st @ rest) reply g
      = Some (0, reply', g\<lparr>ext := e\<rparr>) \<and> rp_type reply' = MSG_REPLY_SUCCESS \<and>
      of_le_word (take (nat (rp_size reply')) (rp_content reply')) = ret) \<and>
    (\<forall>req. length req < 8 \<longrightarrow> proc_srv_msg pl lit HOPE_TP_DEV_CTRL req reply g = None)"
proof
  have "bget (int_bytes i @ int_bytes st @ rest) 0 4 = Some (int_bytes i)"
    "bget (int_bytes i @ int_bytes st @ rest) 4 4 = Some (int_bytes st)" by (simp_all add: bget_def)
  moreover have "bput (rp_content reply) 0 (int_bytes ret) = Some (int_bytes ret @ drop 4 (rp_content reply))"
    using assms(8) by (simp add: bput_def)
  ultimately show "\<exists>reply'. proc_srv_msg pl lit HOPE_TP_DEV_CTRL (int_bytes i @ int_bytes st @ rest) reply g
      = Some (0, reply', g\<lparr>ext := e\<rparr>) \<and> rp_type reply' = MSG_REPLY_SUCCESS \<and>
      of_le_word (take (nat (rp_size reply')) (rp_content reply')) = ret"
    using assms by (simp add: proc_srv_msg_def smart_home_tp_dev_ctrl_def int_bytes_read call_simp)
  show "\<forall>req. length req < 8 \<longrightarrow> proc_srv_msg pl lit HOPE_TP_DEV_CTRL req reply g = None"
    by (simp add: proc_srv_msg_def bget_def split: bind_splits)
qed

section \<open>Giving the gateway up\<close>

lemma mac_not_f: "get_mac_string pl g = Some (n, m) \<Longrightarrow> m = [] \<or> (\<exists>c t. m = c # t \<and> c \<noteq> 0x66)"
proof -
  have "num_to_hex b \<noteq> 0x66" for b
  proof -
    let ?n = "b AND 0x0f"
    have "unat ?n < 16" using word_and_le1 [of b "0x0f"] by (simp add: word_le_nat_alt)
    then have "?n \<in> set (map of_nat [0..<16])"
      by (simp only: set_map set_upt) (intro image_eqI [of _ _ "unat ?n"]; simp)
    moreover have "list_all (\<lambda>n :: byte. (if n \<ge> 10 then 0x41 + n - 10 else 0x30 + n) \<noteq> 0x66) (map of_nat [0..<16])"
      by code_simp
    ultimately show ?thesis unfolding list_all_iff num_to_hex_def Let_def by blast
  qed
  then show "get_mac_string pl g = Some (n, m) \<Longrightarrow> m = [] \<or> (\<exists>c t. m = c # t \<and> c \<noteq> 0x66)"
    by (auto simp: get_mac_string_def hex2_def split: option.splits bind_splits)
qed

lemma cloud_msg_store: "cloud_msg ty c t g = Some (r, g') \<Longrightarrow> ext g' = ext g \<and> r = 0"
  by (auto simp: cloud_msg_def add_msg_def split: bind_splits if_splits)

text \<open>C38: A gateway that is given up is not registered at its next start: the handler overwrites the address
  in the store with a text that no address equals, and the cloud is told. The write reads 32 bytes
  of a literal that has five: without 27 more bytes behind it the behaviour is undefined.\<close>

theorem unbind_unregisters:
  assumes "store_laws pl" "lit = bytes ''ffff'' @ [0] @ tail"
  shows "(length tail < 27 \<longrightarrow> proc_srv_msg pl lit HOPE_DEV_UNBIND req reply g = None) \<and>
    (\<forall>r reply' g'. proc_srv_msg pl lit HOPE_DEV_UNBIND req reply g = Some (r, reply', g') \<longrightarrow>
      rp_type reply' = MSG_REPLY_SUCCESS \<and> (\<forall>k g2. regist_check pl g' = Some (k, g2) \<longrightarrow> k = -1 \<and> g2 = g'))"
proof (intro conjI allI impI)
  show "proc_srv_msg pl lit HOPE_DEV_UNBIND req reply g = None" if "length tail < 27"
    using that by (simp add: proc_srv_msg_def config_write_def bget_def assms(2) bytes_def)
next
  fix r reply' g'
  assume "proc_srv_msg pl lit HOPE_DEV_UNBIND req reply g = Some (r, reply', g')"
  then obtain b n where b: "bget lit 0 32 = Some b" "hope_unbind (snd (call (set_config_mem pl CFG_HREG_MAC b) g)) = Some (n, g')"
      "reply' = reply\<lparr>rp_size := 0, rp_type := (if n \<ge> 0 then MSG_REPLY_SUCCESS else MSG_REPLY_FAILED)\<rparr>"
    by (auto simp: proc_srv_msg_def config_write_def split: bind_splits)
  have n: "n = 0" "ext g' = snd (set_config_mem pl CFG_HREG_MAC b (ext g))"
    using cloud_msg_store [of C_DEV_UNBIND C_DEV_UNBIND "[]" _ n g'] b(2) by (simp_all add: hope_unbind_def call_simp)
  have lb: "length b = 32" "\<exists>t. b = 0x66 # t" using b(1) by (auto simp: bget_def assms(2) bytes_def split: if_splits)
  have cfg: "get_config_mem pl CFG_HREG_MAC (ext g') = Some b"
    using assms(1) n(2) by (simp add: store_laws_def)
  have "k = -1 \<and> g2 = g'" if chk: "regist_check pl g' = Some (k, g2)" for k g2
  proof -
    obtain j m where m: "get_mac_string pl g' = Some (j, m)"
      using chk by (auto simp: regist_check_def split: bind_splits)
    have rd: "config_read pl CFG_HREG_MAC (replicate 32 0) 32 g' = Some (32, b)"
      using config_read_full [OF cfg lb(1), of "replicate 32 0" 32] lb(1) by simp
    obtain t where t: "b = 0x66 # t" using lb(2) by blast
    have "take 1 (takeWhile (\<lambda>c. c \<noteq> 0) (take 32 b)) = [0x66]" unfolding t by simp
    moreover have "take 1 (takeWhile (\<lambda>c. c \<noteq> 0) (take 32 (m @ replicate (32 - length m) 0))) \<noteq> [0x66]"
      using mac_not_f [OF m] by (auto split: if_splits)
    ultimately have "takeWhile (\<lambda>c. c \<noteq> 0) (take 32 b) \<noteq> takeWhile (\<lambda>c. c \<noteq> 0) (take 32 (m @ replicate (32 - length m) 0))"
      by metis
    then show ?thesis using chk unfolding regist_check_def m rd by (simp add: strncmp_eq_def eq_commute)
  qed
  then show "rp_type reply' = MSG_REPLY_SUCCESS" "\<And>k g2. regist_check pl g' = Some (k, g2) \<Longrightarrow> k = -1"
      "\<And>k g2. regist_check pl g' = Some (k, g2) \<Longrightarrow> g2 = g'"
    using b(3) n(1) by simp_all
qed

section \<open>The registered links\<close>

definition registered :: "'e gateway \<Rightarrow> (byte list \<times> proto_kind) list" where
  "registered g = map (\<lambda>a. case pget a g of None \<Rightarrow> ([], K_PIPE) | Some p \<Rightarrow> (pname p, callbacks p)) (order (protos g))"

lemma added_protos:
  "protos (snd (add_pipe bp st0 h)) = il_add (pipe_proto bp st0) (protos h)"
  "protos (snd (add_serial pl bs st0 h)) = il_add (serial_proto bs st0) (protos h)"
  "protos (snd (udp_service_init bu st0 h)) = il_add (udp_proto bu st0) (protos h)"
  "protos (snd (add_tcp_cli pl bc st0 h)) = il_add (cli_proto bc st0) (protos h)"
  "protos (snd (add_tcp_ser st0 h)) = il_add (tcp_ser_proto st0) (protos h)"
  "protos (add_http_regist st0 h) = il_add (http_regist_proto st0) (protos h)"
  "\<exists>k. protos (snd (add_villa_pro pl st0 h)) = il_add (villa_proto pl st0 k) (protos h)"
  by (simp_all add: add_villa_pro_def add_http_regist_def add_tcp_ser_def add_tcp_cli_def udp_service_init_def
      add_serial_def add_pipe_def add_proto_def set_villa_def Let_def init_485_addr_def call_simp
      pipe_proto_def serial_proto_def udp_proto_def cli_proto_def tcp_ser_proto_def http_regist_proto_def villa_proto_def
      split: option.splits) blast

lemma added_rest:
  "msgs (snd (add_pipe bp st0 h)) = msgs h \<and> halo_up (snd (add_pipe bp st0 h)) = halo_up h"
  "msgs (snd (add_serial pl bs st0 h)) = msgs h \<and> halo_up (snd (add_serial pl bs st0 h)) = halo_up h"
  "msgs (snd (udp_service_init bu st0 h)) = msgs h \<and> halo_up (snd (udp_service_init bu st0 h)) = halo_up h"
  "msgs (snd (add_tcp_cli pl bc st0 h)) = msgs h \<and> halo_up (snd (add_tcp_cli pl bc st0 h)) = halo_up h"
  "msgs (snd (add_tcp_ser st0 h)) = msgs h \<and> halo_up (snd (add_tcp_ser st0 h)) = halo_up h"
  "msgs (add_http_regist st0 h) = msgs h \<and> halo_up (add_http_regist st0 h) = halo_up h \<and> hope_regist_st (add_http_regist st0 h) = 0"
  "msgs (snd (add_villa_pro pl st0 h)) = msgs h \<and> halo_up (snd (add_villa_pro pl st0 h)) = halo_up h \<and>
     hope_regist_st (snd (add_villa_pro pl st0 h)) = hope_regist_st h"
  by (simp_all add: add_villa_pro_def add_http_regist_def add_tcp_ser_def add_tcp_cli_def udp_service_init_def
      add_serial_def add_pipe_def add_proto_def set_villa_def Let_def init_485_addr_def call_simp split: option.splits)

lemma boot_state:
  assumes "\<not> halo_up g" "protos g = no_nodes" "msgs g = no_nodes"
  shows "\<exists>k. protos (boot pl b st0 g) = il_add (villa_proto pl st0 k) (il_add (http_regist_proto st0) (il_add (tcp_ser_proto st0)
      (il_add (cli_proto (bk_cli b) st0) (il_add (udp_proto (bk_udp b) st0) (il_add (serial_proto (bk_serial b) st0)
        (il_add (pipe_proto (bk_pipe b) st0) no_nodes)))))) \<and>
    msgs (boot pl b st0 g) = no_nodes \<and> halo_up (boot pl b st0 g) \<and> hope_regist_st (boot pl b st0 g) = 0"
proof -
  have i: "protos (snd (halo_init g)) = no_nodes" "msgs (snd (halo_init g)) = no_nodes" "halo_up (snd (halo_init g))"
    using assms by (simp_all add: halo_init_def)
  let ?h = "add_http_regist st0 (snd (add_tcp_ser st0 (snd (add_tcp_cli pl (bk_cli b) st0
    (snd (udp_service_init (bk_udp b) st0 (snd (add_serial pl (bk_serial b) st0 (snd (add_pipe (bk_pipe b) st0 (snd (halo_init g))))))))))))"
  obtain k where k: "protos (snd (add_villa_pro pl st0 ?h)) = il_add (villa_proto pl st0 k) (protos ?h)"
    using added_protos(7) by blast
  show ?thesis
    unfolding boot_def Let_def k by (intro exI [of _ k]) (simp add: added_protos(1-6) added_rest i)
qed

text \<open>C24: The start registers the seven links of the gateway, each under its name and with its callbacks, in
  the order in which the loop serves them; both lists are well formed, every link is a retrying one, none is
  open and no phone is connected.\<close>

theorem boot_ready:
  assumes "\<not> halo_up g" "protos g = no_nodes" "msgs g = no_nodes" "g' = boot pl b st0 g"
  shows "registered g' = [(bytes ''syspipe'', K_PIPE), (bytes ''rs485'', K_RS485), (bytes ''udp_ser'', K_UDP),
      (bytes ''tcp_cli'', K_TCP_CLI), (bytes ''tcp_ser'', K_TCP_SER), (bytes ''http_regist'', K_HTTP_REGIST),
      (bytes ''vaillakit'', K_VILLA)] \<and> halo_up g' \<and> gw_ok g' \<and> all_retry g' \<and> phones g' = [] \<and>
    (\<forall>a \<in> set (order (protos g')). \<forall>p. pget a g' = Some p \<longrightarrow> active p = 0) \<and> regist_status g' = 0"
proof -
  obtain k where t: "protos g' = il_add (villa_proto pl st0 k) (il_add (http_regist_proto st0) (il_add (tcp_ser_proto st0)
      (il_add (cli_proto (bk_cli b) st0) (il_add (udp_proto (bk_udp b) st0) (il_add (serial_proto (bk_serial b) st0)
        (il_add (pipe_proto (bk_pipe b) st0) no_nodes))))))" "msgs g' = no_nodes" "halo_up g'" "hope_regist_st g' = 0"
    using boot_state [OF assms(1-3)] unfolding assms(4) by blast
  have ok: "gw_ok g'" unfolding gw_ok_def t(1,2) by (simp add: il_ok_add il_ok_no_nodes)
  show ?thesis
    using ok t
    by (simp add: registered_def LOOP_CFG_RETRY_def LOOP_CFG_WIFI_def LOOP_CFG_ALINK_def LOOP_CFG_HOPE_def all_retry_def ident_def phones_def is_phone_def regist_status_def pget_def il_add_def no_nodes_def
        pipe_proto_def serial_proto_def udp_proto_def cli_proto_def tcp_ser_proto_def http_regist_proto_def villa_proto_def)
qed

section \<open>Examples\<close>

definition ex_reply :: srv_reply where
  "ex_reply = \<lparr>rp_type = MSG_REPLY_FAILED, rp_size = 0, rp_content = replicate 16 0\<rparr>"

lemma device_control_answers_witness:
  "\<exists>reply'. proc_srv_msg sim_platform [] HOPE_TP_DEV_CTRL (int_bytes 3 @ int_bytes 1 @ []) ex_reply sim_gateway
     = Some (0, reply', sim_gateway) \<and> of_le_word (take (nat (rp_size reply')) (rp_content reply')) = 0"
proof -
  have d: "tp_dev_ctrl sim_platform 3 1 (ext sim_gateway) = (0, ext sim_gateway)" by (simp add: sim_platform_def)
  have r: "4 \<le> length (rp_content ex_reply)" by (simp add: ex_reply_def)
  from device_control_answers [OF _ _ _ _ d _ _ r, of "[]" "[]"] show ?thesis by auto
qed

lemma unbind_unregisters_witness:
  "\<exists>r reply' g'. proc_srv_msg sim_platform (bytes ''ffff'' @ [0] @ replicate 27 0) HOPE_DEV_UNBIND [] ex_reply sim_gateway
      = Some (r, reply', g') \<and> rp_type reply' = MSG_REPLY_SUCCESS"
proof -
  have laws: "store_laws sim_platform" by (simp add: store_laws_def sim_platform_def)
  let ?lit = "bytes ''ffff'' @ [0] @ replicate 27 0"
  have b: "bget ?lit 0 32 = Some ?lit" by (simp add: bget_def bytes_def)
  have c: "cloud_msg C_DEV_UNBIND C_DEV_UNBIND [] sim_gateway \<noteq> None" by code_simp
  have "cloud_msg C_DEV_UNBIND C_DEV_UNBIND [] (sim_gateway\<lparr>ext := e\<rparr>) \<noteq> None" for e
    using c by (auto simp: cloud_msg_def add_msg_def split: bind_splits if_splits)
  then obtain n g1 where "hope_unbind (snd (call (set_config_mem sim_platform CFG_HREG_MAC ?lit) sim_gateway)) = Some (n, g1)"
    by (force simp: hope_unbind_def call_simp)
  then obtain rp where "proc_srv_msg sim_platform ?lit HOPE_DEV_UNBIND [] ex_reply sim_gateway = Some (0, rp, g1)"
    using b by (simp add: proc_srv_msg_def config_write_def)
  then show ?thesis using unbind_unregisters [OF laws refl] by blast
qed

definition ex_blocks :: blocks where
  "ex_blocks = \<lparr>bk_pipe = replicate 4096 0, bk_serial = replicate 128 0, bk_udp = replicate 1024 0, bk_cli = replicate 2048 0\<rparr>"

lemma boot_ready_witness:
  "gw_ok (boot sim_platform ex_blocks (sim_status sim_start) (sim_gateway\<lparr>halo_up := False\<rparr>))"
proof -
  let ?g = "sim_gateway\<lparr>halo_up := False\<rparr>"
  have "\<not> halo_up ?g" "protos ?g = no_nodes" "msgs ?g = no_nodes" by (simp_all add: sim_gateway_def)
  from boot_ready [OF this refl] show ?thesis by blast
qed

end
