(* ===== verification/Gateway.thy ===== *)
theory Gateway
  imports Halo_Main
begin

text \<open>
  The whole gateway in its first round of the event loop, \<open>app/main.c\<close> with \<open>app/main_loop.c\<close>: what
  the loop does to the links that the start registered, with the callbacks of all links.
\<close>

section \<open>Callbacks that only touch their own link\<close>

definition only :: "addr \<Rightarrow> 'e gateway \<Rightarrow> 'e gateway \<Rightarrow> bool" where
  "only a s s' = (order (protos s') = order (protos s) \<and> fresh (protos s') = fresh (protos s) \<and> (\<forall>b. b \<noteq> a \<longrightarrow> pget b s' = pget b s) \<and>
     ident a s' = ident a s)"

definition local_cb :: "'e cb \<Rightarrow> bool" where
  "local_cb f = (\<forall>a s r s'. f a s = Some (r, s') \<longrightarrow> r \<noteq> 9 \<and> only a s s')"

lemma only_refl [simp]: "only a s s"
  by (simp add: only_def)

lemma only_trans [trans]: "only a s t \<Longrightarrow> only a t u \<Longrightarrow> only a s u"
  by (simp add: only_def)

lemma only_live: "only a s s' \<Longrightarrow> (pget b s' = None) = (pget b s = None)"
  by (cases "b = a") (simp_all add: only_def flip: ident_None)

lemma only_pget:
  assumes "only a s s'" "pget a s = Some p"
  obtains q where "pget a s' = Some q" "config q = config p" "callbacks q = callbacks p"
  using assms unfolding only_def ident_def by (cases "pget a s'") auto

lemma only_pset:
  assumes "protos s' = protos s" "pget a s = Some p" "pname q = pname p" "config q = config p" "callbacks q = callbacks p"
  shows "only a s (pset a q s')"
  using assms by (simp add: only_def pset_def pget_def ident_def)

lemma only_pupd: "pupd a f s = Some s' \<Longrightarrow> (\<And>p. pname (f p) = pname p \<and> config (f p) = config p \<and> callbacks (f p) = callbacks p) \<Longrightarrow>
    only a s s'"
  by (auto simp: pupd_def intro!: only_pset split: bind_splits)

lemma local_on_proto:
  assumes "\<And>p g r p' g'. f p g = Some (r, p', g') \<Longrightarrow>
      r \<noteq> 9 \<and> protos g' = protos g \<and> pname p' = pname p \<and> config p' = config p \<and> callbacks p' = callbacks p"
  shows "local_cb (on_proto f)"
  unfolding local_cb_def on_proto_def
proof (intro allI impI)
  fix a s r s'
  assume "do { p \<leftarrow> pget a s; (r, p1, g1) \<leftarrow> f p s; Some (r, pset a p1 g1) } = Some (r, s')"
  then obtain p p1 g1 where p: "pget a s = Some p" "f p s = Some (r, p1, g1)" "s' = pset a p1 g1"
    by (auto split: bind_splits)
  from assms [OF p(2)] only_pset [of g1 s a p p1] p(1,3) show "r \<noteq> 9 \<and> only a s s'" by simp
qed

lemma local_cbD: "local_cb f \<Longrightarrow> f a s = Some (r, s') \<Longrightarrow> r \<noteq> 9 \<and> only a s s'"
  by (simp add: local_cb_def)

text \<open>The three stages of the manager on a link that is kept.\<close>

definition local_link :: "'e tables \<Rightarrow> st_proto \<Rightarrow> bool" where
  "local_link tabs p = (config p AND LOOP_CFG_RETRY \<noteq> 0 \<and> (\<forall>f. init_cb (table_of tabs p) = Some f \<longrightarrow> local_cb f) \<and>
     (\<forall>f. timeout_cb (table_of tabs p) = Some f \<longrightarrow> local_cb f) \<and> (\<forall>f. close_cb (table_of tabs p) = Some f \<longrightarrow> local_cb f))"

lemma local_link_cong: "config q = config p \<Longrightarrow> callbacks q = callbacks p \<Longrightarrow> local_link tabs q = local_link tabs p"
  by (simp add: local_link_def table_of_def)

lemma close_only:
  assumes "close_proto tabs a s = Some (r, s')" "pget a s = Some p" "local_link tabs p"
  shows "only a s s'"
proof (cases "close_cb (table_of tabs p)")
  case None
  then show ?thesis using assms by (simp add: close_proto_def local_link_def)
next
  case (Some f)
  show ?thesis
  proof (cases "pfd p \<ge> 0")
    case False
    then show ?thesis using assms Some by (simp add: close_proto_def local_link_def)
  next
    case True
    then obtain q g1 where f: "f a s = Some (q, g1)"
        "s' = g1 \<or> pupd a (\<lambda>p. p\<lparr>active := 0\<rparr>) g1 = Some s'"
      using assms Some by (auto simp: close_proto_def local_link_def split: bind_splits if_splits)
    have "only a s g1" using local_cbD [of f a s q g1] f(1) assms(3) Some by (simp add: local_link_def)
    moreover have "only a g1 s'" using f(2) only_pupd [of a "\<lambda>p. p\<lparr>active := 0\<rparr>" g1 s'] by auto
    ultimately show ?thesis by (rule only_trans)
  qed
qed

lemma init_only:
  assumes "manage_init pl tabs env a s = Some s'" "pget a s = Some p" "local_link tabs p"
  shows "only a s s'"
proof (cases "met env p \<and> active p = 0 \<and> init_cb (table_of tabs p) \<noteq> None")
  case False
  then show ?thesis using assms by (auto simp: manage_init_def split: if_splits option.splits)
next
  case True
  then obtain f where f: "init_cb (table_of tabs p) = Some f" by blast
  then obtain r g1 where r: "f a s = Some (r, g1)"
    using assms True by (auto simp: manage_init_def split: bind_splits)
  have l: "r \<noteq> 9" "only a s g1" using local_cbD [of f a s r g1] r assms(3) f by (simp_all add: local_link_def)
  have "s' = g1 \<or> pupd a (\<lambda>p. p\<lparr>timecount := get_now_ms pl g1\<rparr>) g1 = Some s'"
    using assms True f r l(1) by (auto simp: manage_init_def split: if_splits)
  then have "only a g1 s'" using only_pupd [of a "\<lambda>p. p\<lparr>timecount := get_now_ms pl g1\<rparr>" g1 s'] by auto
  with l(2) show ?thesis by (rule only_trans)
qed

lemma timeout_only:
  assumes "manage_timeout tabs now a s = Some s'" "pget a s = Some p" "local_link tabs p"
  shows "only a s s'"
proof (cases "active p = 0 \<or> timeout_cb (table_of tabs p) = None \<or> \<not> timeout p \<le> now - timecount p")
  case True
  then show ?thesis using assms by (auto simp: manage_timeout_def split: option.splits if_splits)
next
  case False
  then obtain f where f: "timeout_cb (table_of tabs p) = Some f" by (cases "timeout_cb (table_of tabs p)") auto
  with False assms obtain g1 r g2 where g: "pupd a (\<lambda>p. p\<lparr>timecount := now\<rparr>) s = Some g1" "f a g1 = Some (r, g2)"
      "s' = g2 \<or> r \<noteq> 9 \<and> r \<noteq> 0 \<and> map_option snd (close_proto tabs a g2) = Some s' \<or> r = 9"
    by (auto simp: manage_timeout_def split: bind_splits if_splits)
  have o1: "only a s g1" using only_pupd [OF g(1)] by simp
  have o2: "r \<noteq> 9" "only a g1 g2" using local_cbD [of f a g1 r g2] g(2) assms(3) f by (simp_all add: local_link_def)
  have o3: "only a s g2" using o1 o2(2) by (rule only_trans)
  obtain q where q: "pget a g2 = Some q" "config q = config p" "callbacks q = callbacks p"
    using only_pget [OF o3 assms(2)] .
  have "only a g2 s'" using g(3) o2(1) close_only [OF _ q(1)] local_link_cong [OF q(2,3), of tabs] assms(3) by auto
  with o3 show ?thesis by (rule only_trans)
qed

lemma manage_only:
  assumes "manage_proto pl tabs env ch now a s = Some (r, s')" "pget a s = Some p" "local_link tabs p"
  shows "r = None \<and> only a s s'"
proof -
  obtain g1 g2 where g: "manage_init pl tabs env a s = Some g1" "manage_change tabs env ch (met env p) a g1 = Some g2"
      "manage_timeout tabs now a g2 = Some s'" "r = None"
    using assms(1,2) by (auto simp: manage_proto_def split: bind_splits)
  have o1: "only a s g1" using init_only [OF g(1) assms(2,3)] .
  obtain q where q: "pget a g1 = Some q" "config q = config p" "callbacks q = callbacks p"
    using only_pget [OF o1 assms(2)] .
  have "local_link tabs q" using local_link_cong [OF q(2,3), of tabs] assms(3) by simp
  then have "only a g1 g2"
    using g(2) q(1) close_only by (fastforce simp: manage_change_def split: if_splits bind_splits)
  with o1 have o2: "only a s g2" by (rule only_trans)
  obtain q2 where q2: "pget a g2 = Some q2" "config q2 = config p" "callbacks q2 = callbacks p"
    using only_pget [OF o2 assms(2)] .
  have "only a g2 s'" using timeout_only [OF g(3) q2(1)] local_link_cong [OF q2(2,3), of tabs] assms(3) by simp
  with o2 g(4) show ?thesis using only_trans by blast
qed

text \<open>A traversal that leaves the later nodes as they are reaches the node at which it is undefined.\<close>

lemma walk_reaches:
  assumes step: "\<And>y s r s'. y \<in> set ys \<Longrightarrow> pget y s = pget y start \<Longrightarrow> body y s = Some (r, s') \<Longrightarrow> r = None \<and> only y s s'"
    and stuck: "\<And>s. pget z s = pget z start \<Longrightarrow> body z s = None"
  shows "order (protos s) = xs @ ys @ z # zs \<Longrightarrow> il_ok (protos s) \<Longrightarrow> \<forall>b \<in> set (ys @ [z]). pget b s = pget b start \<Longrightarrow>
    il_next (protos s) (hd (ys @ [z])) = Some n \<Longrightarrow>
    for_each_safe fuel (\<lambda>g. il_next (protos g)) body 0 (hd (ys @ [z])) n s = None"
  using step
proof (induction ys arbitrary: xs s n fuel)
  case Nil
  then have "z \<noteq> 0" by (auto simp: il_ok_def)
  with Nil stuck show ?case by (cases fuel) auto
next
  case (Cons y ys)
  show ?case
  proof (cases fuel)
    case (Suc k)
    have y0: "y \<noteq> 0" using Cons.prems(1,2) by (auto simp: il_ok_def)
    show ?thesis
    proof (cases "body y s")
      case (Some rs)
      then obtain r s' where rs: "body y s = Some (r, s')" by (cases rs) auto
      have st: "r = None" "only y s s'" using Cons.prems(5) [OF _ _ rs] Cons.prems(3) by simp_all
      have live: "(cell (protos s') b = None) = (cell (protos s) b = None)" for b
        using only_live [OF st(2)] by (simp add: pget_def)
      have ord: "order (protos s') = (xs @ [y]) @ ys @ z # zs" using st(2) Cons.prems(1) by (simp add: only_def)
      have fr: "il_next (protos s') b = il_next (protos s) b" for b
        using st(2) live by (simp add: il_next_def only_def)
      have dist: "distinct (xs @ y # ys @ z # zs)" using Cons.prems(1,2) by (simp add: il_ok_def)
      then have rest: "\<forall>b \<in> set (ys @ [z]). pget b s' = pget b start"
        using Cons.prems(3) st(2) by (auto simp: only_def)
      have nx: "n = hd (ys @ [z])"
        using Cons.prems(1,2,4) node_list.rep_next [of "protos s" 0 xs y "ys @ z # zs"]
        by (cases ys) (auto simp: il_rep_def)
      obtain m where m: "il_next (protos s') (hd (ys @ [z])) = Some m"
        using node_list.rep_next [of "protos s" 0 "xs @ [y]" "hd (ys @ [z])" "tl (ys @ [z]) @ zs"] Cons.prems(1,2)
        unfolding fr by (cases ys) (auto simp: il_rep_def)
      have "il_ok (protos s')" using Cons.prems(2) st(2) live by (auto simp: il_ok_def only_def)
      from Cons.IH [OF ord this rest m, of k] Cons.prems(5)
      have "for_each_safe k (\<lambda>g. il_next (protos g)) body 0 (hd (ys @ [z])) m s' = None" by (metis list.set_intros(2))
      then show ?thesis using rs st(1) nx m y0 Suc by simp
    qed (simp add: Suc y0)
  qed simp
qed


section \<open>The callbacks of the links\<close>

lemma closed_pipe: "local_cb (on_proto (close_pipe pl))"
  by (rule local_on_proto) (auto simp: close_pipe_def call_simp Let_def)

lemma opened_pipe: "local_cb (on_proto (init_pipe pl))"
  by (rule local_on_proto) (auto simp: init_pipe_def call_simp Let_def split: prod.splits if_splits)

lemma serial_frame:
  "protos (snd (serial_open pl g)) = protos g" "protos (snd (serial_cfg pl g)) = protos g"
  by (auto simp: serial_open_def serial_cfg_def serial_fail_def call_simp Let_def split: prod.splits)

lemma opened_serial: "local_cb (on_proto (serial_init pl))"
proof (rule local_on_proto)
  fix p g r p' g'
  assume "serial_init pl p g = Some (r, p', g')"
  then show "r \<noteq> 9 \<and> protos g' = protos g \<and> pname p' = pname p \<and> config p' = config p \<and> callbacks p' = callbacks p"
    using serial_frame(1) [of pl g] serial_frame(2) [of pl "snd (serial_open pl g)"]
    by (auto simp: serial_init_def Let_def split: prod.splits if_splits)
qed

lemma closed_serial: "local_cb (on_proto (serial_close pl))"
  by (rule local_on_proto)
    (auto simp: serial_close_def wipe_pay_def set_pay_def set_len_def call_simp Let_def split: if_splits bind_splits)

lemma timed_serial: "local_cb (on_proto (\<lambda>pro g. map_option (\<lambda>(r, p). (r, p, g)) (serial_to pro)))"
  by (rule local_on_proto)
    (auto simp: serial_to_def wipe_pay_def set_pay_def set_len_def split: if_splits bind_splits)

lemma opened_udp: "local_cb (on_proto (udp_init pl))"
  by (rule local_on_proto) (auto simp: udp_init_def udp_init_error_def call_simp Let_def split: prod.splits if_splits)

lemma closed_udp: "local_cb (on_proto (udp_close pl))"
  by (rule local_on_proto) (auto simp: udp_close_def call_simp Let_def split: bind_splits)

lemma opened_ser: "local_cb (on_proto (tcp_ser_init pl))"
  by (rule local_on_proto) (auto simp: tcp_ser_init_def call_simp Let_def split: prod.splits if_splits)

lemma closed_ser: "local_cb (on_proto (tcp_ser_close pl))"
  by (rule local_on_proto) (auto simp: tcp_ser_close_def call_simp Let_def split: if_splits)

lemmas link_callbacks = closed_pipe opened_pipe opened_serial closed_serial timed_serial opened_udp closed_udp
  opened_ser closed_ser

lemma table_links [simp]:
  "gateway_tables n pl junk st0 K_PIPE = pipe_cbs n pl (link_tables n pl junk st0)"
  "gateway_tables n pl junk st0 K_RS485 = ser_cbs pl"
  "gateway_tables n pl junk st0 K_UDP = udp_cbs n pl"
  "gateway_tables n pl junk st0 K_TCP_SER = tcp_ser_cbs pl junk st0"
  "gateway_tables n pl junk st0 K_HTTP_REGIST = regist_cbs pl"
  by (simp_all add: gateway_tables_def link_tables_def)

lemma links_local [simp]:
  "local_link (gateway_tables n pl junk st0) (pipe_proto bp st1)"
  "local_link (gateway_tables n pl junk st0) (serial_proto bs st1)"
  "local_link (gateway_tables n pl junk st0) (udp_proto bu st1)"
  "local_link (gateway_tables n pl junk st0) (tcp_ser_proto st1)"
  by (auto simp: local_link_def table_of_def pipe_proto_def pipe_cbs_def serial_proto_def ser_cbs_def udp_proto_def udp_cbs_def
      tcp_ser_proto_def tcp_ser_cbs_def LOOP_CFG_RETRY_def LOOP_CFG_WIFI_def intro: link_callbacks)

section \<open>The first round\<close>

lemma regist_asks_deletion: "regist_init_cb pl p g = Some (r, p', g') \<Longrightarrow> r = 9"
  by (auto simp: regist_init_cb_def split: bind_splits if_splits)

lemma idle_unmet: "pget a s = Some p \<Longrightarrow> \<not> met env p \<Longrightarrow> active p = 0 \<Longrightarrow> manage_proto pl tabs env ch now a s = Some (None, s)"
  by (simp add: manage_proto_def manage_init_def manage_change_def manage_timeout_def)

lemma regist_stuck:
  assumes "pget a s = Some (http_regist_proto st0\<lparr>active := 0\<rparr>)" "a \<noteq> 0" "env AND (LOOP_CFG_WIFI OR LOOP_CFG_ALINK) = LOOP_CFG_WIFI OR LOOP_CFG_ALINK"
  shows "manage_proto pl (gateway_tables n pl junk st1) env ch now a s = None"
proof -
  let ?p = "http_regist_proto st0\<lparr>active := 0\<rparr>"
  have n: "needs ?p = LOOP_CFG_WIFI OR LOOP_CFG_ALINK"
    by (simp add: needs_def http_regist_proto_def LOOP_CFG_WIFI_def LOOP_CFG_ALINK_def LOOP_CFG_RETRY_def)
  have m: "met env ?p" "active ?p = 0" unfolding met_def n using assms(3) by (simp_all add: and.commute)
  have t: "init_cb (table_of (gateway_tables n pl junk st1) ?p) = Some (on_proto (regist_init_cb pl))"
    by (simp add: table_of_def http_regist_proto_def regist_cbs_def)
  show ?thesis
  proof (cases "regist_init_cb pl ?p s")
    case None
    then show ?thesis using assms(1) m t by (simp add: manage_proto_def manage_init_def on_proto_def)
  next
    case (Some x)
    then obtain r p' g' where x: "regist_init_cb pl ?p s = Some (r, p', g')" by (cases x) auto
    then have "on_proto (regist_init_cb pl) a s = Some (9, pset a p' g')"
      using regist_asks_deletion [OF x] assms(1) by (simp add: on_proto_def)
    then show ?thesis using init_freed [OF assms(2,1) m t] by blast
  qed
qed

text \<open>C5: A gateway that starts with a network and the music service has undefined behaviour in its first
  round of the manager, whatever the callbacks of the links before it do: the registration asks
  for its own deletion whether or not the gateway is registered, and the manager reads the
  protocol after it freed it. Without the music service the registration is not started and
  the round ends (\<open>quiet_round\<close>).\<close>

theorem first_round_undefined:
  assumes "\<not> halo_up g" "protos g = no_nodes" "msgs g = no_nodes" "g' = (boot pl b st0 g)\<lparr>ext := e\<rparr>"
    and "wifi_connected pl e" "music_connected pl e > 0"
  shows "manager fuel pl (gateway_tables n pl junk st1) g' = None"
proof -
  let ?T = "gateway_tables n pl junk st1"
  obtain k where t: "protos g' = il_add (villa_proto pl st0 k) (il_add (http_regist_proto st0) (il_add (tcp_ser_proto st0)
      (il_add (cli_proto (bk_cli b) st0) (il_add (udp_proto (bk_udp b) st0) (il_add (serial_proto (bk_serial b) st0)
        (il_add (pipe_proto (bk_pipe b) st0) no_nodes))))))" "hope_regist_st g' = 0"
    using boot_state [OF assms(1-3), of pl b st0] by (auto simp: assms(4))
  have ok: "il_ok (protos g')" unfolding t(1) by (simp add: il_ok_add il_ok_no_nodes)
  have ord: "order (protos g') = [] @ [1, 2, 3, 4, 5] @ 6 # [7]" unfolding t(1) by (simp add: il_add_def no_nodes_def)
  have at: "pget 1 g' = Some (pipe_proto (bk_pipe b) st0)" "pget 2 g' = Some (serial_proto (bk_serial b) st0)"
      "pget 3 g' = Some (udp_proto (bk_udp b) st0)" "pget 4 g' = Some (cli_proto (bk_cli b) st0)"
      "pget 5 g' = Some (tcp_ser_proto st0)" "pget 6 g' = Some (http_regist_proto st0\<lparr>active := 0\<rparr>)"
    unfolding pget_def t(1) by (simp_all add: il_add_def no_nodes_def http_regist_proto_def)
  let ?env = "LOOP_CFG_WIFI OR LOOP_CFG_ALINK"
  have env: "env_now pl g' = ?env" using assms(4-6) t(2) by (simp add: env_now_def)
  have unmet: "\<not> met ?env (cli_proto (bk_cli b) st0)" "active (cli_proto (bk_cli b) st0) = 0"
    by (simp_all add: met_def needs_def cli_proto_def LOOP_CFG_WIFI_def LOOP_CFG_ALINK_def LOOP_CFG_RETRY_def LOOP_CFG_HOPE_def)
  have walk: "for_each_safe fuel (\<lambda>g. il_next (protos g)) (manage_proto pl ?T ?env ch now) 0 1 m s = None"
    if s: "protos s = protos g'" "il_next (protos s) 1 = Some m" for ch now m and s
  proof -
    have "for_each_safe fuel (\<lambda>g. il_next (protos g)) (manage_proto pl ?T ?env ch now) 0 (hd ([1, 2, 3, 4, 5] @ [6])) m s = None"
    proof (rule walk_reaches [where start = g' and ys = "[1, 2, 3, 4, 5]" and z = 6 and xs = "[]" and zs = "[7]"])
      show "manage_proto pl ?T ?env ch now 6 s = None" if "pget 6 s = pget 6 g'" for s
        using regist_stuck [of 6 s st0 ?env] that at(6) by simp
      show "r = None \<and> only y s s'"
        if "y \<in> set [1, 2, 3, 4, 5]" "pget y s = pget y g'" "manage_proto pl ?T ?env ch now y s = Some (r, s')" for y s r s'
        using that at idle_unmet [of 4 s, OF _ unmet] manage_only [OF that(3)] by (auto simp del: One_nat_def)
      show "\<forall>b \<in> set ([1, 2, 3, 4, 5] @ [6]). pget b s = pget b g'" using s(1) by (simp add: pget_def)
    qed (use s ok ord in simp_all)
    then show ?thesis by simp
  qed
  have loop: "list_for_each_safe fuel (\<lambda>g. il_next (protos g)) (manage_proto pl ?T ?env ch now) 0 s = None"
    if "protos s = protos g'" for ch now s
    using walk [OF that] that ord unfolding list_for_each_safe_def
    by (cases "il_next (protos s) 1") (simp_all add: il_next_def)
  show ?thesis unfolding manager_def Let_def env by (simp add: loop)
qed

section \<open>Example\<close>

text \<open>The same start without the music service: the registration is not started and the round ends.\<close>

definition ex_quiet :: "sim platform" where
  "ex_quiet = sim_platform\<lparr>music_connected := (\<lambda>_. 0)\<rparr>"

definition ex_small :: blocks where
  "ex_small = \<lparr>bk_pipe = replicate 16 0, bk_serial = replicate 128 0, bk_udp = replicate 16 0, bk_cli = replicate 16 0\<rparr>"

definition ex_start :: "sim platform \<Rightarrow> sim gateway" where
  "ex_start pl = boot pl ex_small (sim_status sim_start) (sim_gateway\<lparr>halo_up := False\<rparr>)"

lemma quiet_round:
  "\<exists>h. manager 8 ex_quiet (gateway_tables 1 ex_quiet [] (sim_status sim_start)) (ex_start ex_quiet) = Some (0, h)"
proof -
  have "map_option fst (manager 8 ex_quiet (gateway_tables 1 ex_quiet [] (sim_status sim_start)) (ex_start ex_quiet)) = Some 0"
    by code_simp
  then show ?thesis by auto
qed

lemma first_round_undefined_witness:
  "manager 8 sim_platform (gateway_tables 1 sim_platform [] (sim_status sim_start)) (ex_start sim_platform) = None"
proof -
  let ?g = "sim_gateway\<lparr>halo_up := False\<rparr>" and ?pl = sim_platform
  have g: "\<not> halo_up ?g" "protos ?g = no_nodes" "msgs ?g = no_nodes" by (simp_all add: sim_gateway_def)
  have s: "ex_start ?pl = (boot ?pl ex_small (sim_status sim_start) ?g)\<lparr>ext := ext (ex_start ?pl)\<rparr>"
    by (simp add: ex_start_def)
  have w: "wifi_connected ?pl e" "music_connected ?pl e > 0" for e by (simp_all add: sim_platform_def)
  show ?thesis by (rule first_round_undefined [OF g s w])
qed

end
