(* ===== verification/Cjson.thy ===== *)
theory Cjson
  imports Complex_Main Json Halo_Text
begin

text \<open>
  The JSON library of the gateway, \<open>app/cJSON.c\<close>: the parser, the two printers, the minifier and the
  operations on values. A pointer into a text is the rest of its block from there on, so a
  read at the end of the list is a read behind the block. Numbers are C doubles: a double is a
  rational, and rounding, powers of ten and the formats of \<open>sprintf\<close> are the parameter
  \<open>doubles\<close>; None is an infinite result. The error pointer \<open>ep\<close> is the result of a failed parse.
\<close>

section \<open>Values and doubles\<close>

datatype cjson =
    CFalse | CTrue | CNull | CNumber int rat | CString "byte list" | CArray "cjson list"
  | CObject "(byte list \<times> cjson) list"

record doubles =
  rounded :: "rat \<Rightarrow> rat option"
  pow10 :: "int \<Rightarrow> rat option"
  fmt_f0 :: "rat \<Rightarrow> byte list"
  fmt_e :: "rat \<Rightarrow> byte list"
  fmt_f :: "rat \<Rightarrow> byte list"

text \<open>What the gateway keeps of a value; it never looks at \<open>valuedouble\<close>.\<close>

fun to_json :: "cjson \<Rightarrow> json" where
  "to_json CFalse = JFalse"
| "to_json CTrue = JTrue"
| "to_json CNull = JNull"
| "to_json (CNumber i d) = JNumber i"
| "to_json (CString s) = JString s"
| "to_json (CArray vs) = JArray (map to_json vs)"
| "to_json (CObject ms) = JObject (map (\<lambda>(k, v). (k, to_json v)) ms)"

text \<open>A value built by \<open>cJSON_CreateNumber\<close> from an \<open>int\<close>.\<close>

fun of_json :: "json \<Rightarrow> cjson" where
  "of_json JFalse = CFalse"
| "of_json JTrue = CTrue"
| "of_json JNull = CNull"
| "of_json (JNumber i) = CNumber i (of_int i)"
| "of_json (JString s) = CString s"
| "of_json (JArray vs) = CArray (map of_json vs)"
| "of_json (JObject ms) = CObject (map (\<lambda>(k, v). (k, of_json v)) ms)"

section \<open>Parsing numbers\<close>

definition deref :: "byte list \<Rightarrow> byte option" where
  "deref s = (case s of [] \<Rightarrow> None | c # _ \<Rightarrow> Some c)"

lemma deref_Cons [simp]: "deref (c # t) = Some c"
  by (simp add: deref_def)

fun num_digits :: "doubles \<Rightarrow> rat \<Rightarrow> int \<Rightarrow> byte list \<Rightarrow> (rat \<times> int \<times> byte list) option" where
  "num_digits fp n k [] = None"
| "num_digits fp n k (c # cs) =
     (if is_digit c
      then do { m \<leftarrow> rounded fp (n * 10); m1 \<leftarrow> rounded fp (m + of_int (digit_val c)); num_digits fp m1 (k + 1) cs }
      else Some (n, k, c # cs))"

fun exp_digits :: "int \<Rightarrow> byte list \<Rightarrow> (int \<times> byte list) option" where
  "exp_digits n [] = None"
| "exp_digits n (c # cs) =
     (if is_digit c
      then do { n1 \<leftarrow> int32 (n * 10); n2 \<leftarrow> int32 (n1 + digit_val c); exp_digits n2 cs }
      else Some (n, c # cs))"

text \<open>The conversion of a double to \<open>int\<close> drops the fraction and is undefined outside of the type.\<close>

definition to_int :: "rat \<Rightarrow> int option" where
  "to_int d = int32 (if d \<ge> 0 then \<lfloor>d\<rfloor> else - \<lfloor>- d\<rfloor>)"

definition parse_frac :: "doubles \<Rightarrow> rat \<Rightarrow> byte list \<Rightarrow> (rat \<times> int \<times> byte list) option" where
  "parse_frac fp n s =
     do { c \<leftarrow> deref s;
          if c = 0x2e
          then do { d \<leftarrow> deref (drop 1 s);
                    if is_digit d then do { (n1, k, s1) \<leftarrow> num_digits fp n 0 (drop 1 s); Some (n1, - k, s1) }
                    else Some (n, 0, s) }
          else Some (n, 0, s) }"

definition parse_exp :: "byte list \<Rightarrow> (int \<times> byte list) option" where
  "parse_exp s =
     do { c \<leftarrow> deref s;
          if c = 0x65 \<or> c = 0x45
          then do { d \<leftarrow> deref (drop 1 s);
                    (e, s1) \<leftarrow> exp_digits 0 (if d = 0x2b \<or> d = 0x2d then drop 2 s else drop 1 s);
                    Some (if d = 0x2d then - e else e, s1) }
          else Some (0, s) }"

text \<open>The digits in front of the point, behind the sign: a zero and more digits, or digits that do not begin
  with a zero.\<close>

definition parse_lead :: "doubles \<Rightarrow> byte list \<Rightarrow> (rat \<times> byte list) option" where
  "parse_lead fp s =
     do { d \<leftarrow> deref s;
          let s2 = (if d = 0x30 then drop 1 s else s);
          e \<leftarrow> deref s2;
          if 0x31 \<le> e \<and> e \<le> 0x39 then do { (n, _, s3) \<leftarrow> num_digits fp 0 0 s2; Some (n, s3) } else Some (0, s2) }"

definition parse_number :: "doubles \<Rightarrow> byte list \<Rightarrow> (cjson \<times> byte list) option" where
  "parse_number fp s =
     do { c \<leftarrow> deref s;
          (n, s3) \<leftarrow> parse_lead fp (if c = 0x2d then drop 1 s else s);
          (n1, scale, s4) \<leftarrow> parse_frac fp n s3;
          (subscale, s5) \<leftarrow> parse_exp s4;
          p \<leftarrow> pow10 fp (scale + subscale);
          v \<leftarrow> rounded fp ((if c = 0x2d then - n1 else n1) * p);
          i \<leftarrow> to_int v;
          Some (CNumber i v, s5) }"

section \<open>Parsing strings\<close>

definition hex_nibble :: "byte \<Rightarrow> 32 word option" where
  "hex_nibble c =
     (if 0x30 \<le> c \<and> c \<le> 0x39 then Some (ucast c - 0x30)
      else if 0x41 \<le> c \<and> c \<le> 0x46 then Some (10 + ucast c - 0x41)
      else if 0x61 \<le> c \<and> c \<le> 0x66 then Some (10 + ucast c - 0x61) else None)"

fun hex_loop :: "nat \<Rightarrow> 32 word \<Rightarrow> byte list \<Rightarrow> 32 word option" where
  "hex_loop 0 h s = Some h"
| "hex_loop (Suc k) h [] = None"
| "hex_loop (Suc k) h (c # cs) =
     (case hex_nibble c of None \<Rightarrow> Some 0 | Some d \<Rightarrow> hex_loop k (push_bit 4 h + d) cs)"

definition parse_hex4 :: "byte list \<Rightarrow> 32 word option" where
  "parse_hex4 s = hex_loop 4 0 s"

definition cont_byte :: "32 word \<Rightarrow> byte" where
  "cont_byte uc = ucast ((uc OR 0x80) AND 0xBF)"

definition utf8_bytes :: "32 word \<Rightarrow> byte list" where
  "utf8_bytes uc =
     (if uc < 0x80 then [ucast uc]
      else if uc < 0x800 then [ucast (drop_bit 6 uc OR 0xC0), cont_byte uc]
      else if uc < 0x10000 then [ucast (drop_bit 12 uc OR 0xE0), cont_byte (drop_bit 6 uc), cont_byte uc]
      else [ucast (drop_bit 18 uc OR 0xF0), cont_byte (drop_bit 12 uc), cont_byte (drop_bit 6 uc), cont_byte uc])"

text \<open>What an escape writes, and the text behind it: \<open>e\<close> is the byte after the backslash. A bad code
  writes nothing; its four digits are skipped all the same.\<close>

definition unescape :: "byte \<Rightarrow> byte list \<Rightarrow> (byte list \<times> byte list) option" where
  "unescape e es =
     (if e = 0x62 then Some ([8], es)
      else if e = 0x66 then Some ([0x0c], es)
      else if e = 0x6e then Some ([0x0a], es)
      else if e = 0x72 then Some ([0x0d], es)
      else if e = 0x74 then Some ([9], es)
      else if e = 0x75
      then do {
        uc \<leftarrow> parse_hex4 es;
        let q = drop 4 es;
        if 0xDC00 \<le> uc \<and> uc \<le> 0xDFFF \<or> uc = 0 then Some ([], q)
        else if 0xD800 \<le> uc \<and> uc \<le> 0xDBFF
        then do {
          c1 \<leftarrow> deref q;
          if c1 \<noteq> 0x5c then Some ([], q)
          else do {
            c2 \<leftarrow> deref (drop 1 q);
            if c2 \<noteq> 0x75 then Some ([], q)
            else do {
              uc2 \<leftarrow> parse_hex4 (drop 2 q);
              if uc2 < 0xDC00 \<or> uc2 > 0xDFFF then Some ([], drop 6 q)
              else Some (utf8_bytes (0x10000 + (push_bit 10 (uc AND 0x3FF) OR (uc2 AND 0x3FF))), drop 6 q) } } }
        else Some (utf8_bytes uc, q) }
      else Some ([e], es))"

text \<open>The first loop sizes the block: an escape counts as one byte and its second byte is skipped.\<close>

function str_len :: "byte list \<Rightarrow> nat option" where
  "str_len [] = None"
| "str_len (c # cs) =
     (if c = 0x22 \<or> c = 0 then Some 0
      else map_option Suc (str_len (if c = 0x5c then drop 1 cs else cs)))"
  by pat_completeness auto
termination by (relation "measure length") auto

lemma parse_hex4_deref: "parse_hex4 es = Some u \<Longrightarrow> es \<noteq> []"
  by (auto simp: parse_hex4_def numeral_eq_Suc)

lemma unescape_length: "unescape e es = Some (bs, rest) \<Longrightarrow> length rest \<le> length es"
  by (auto simp: unescape_def Let_def split: if_splits bind_splits)

text \<open>The second loop copies into the block of \<open>cap\<close> bytes; \<open>o1\<close> is what it has written.\<close>

function copy_loop :: "nat \<Rightarrow> byte list \<Rightarrow> byte list \<Rightarrow> (byte list \<times> byte list) option" where
  "copy_loop cap o1 [] = None"
| "copy_loop cap o1 (c # cs) =
     (if c = 0x22 \<or> c = 0 then (if length o1 < cap then Some (o1, c # cs) else None)
      else if c \<noteq> 0x5c then (if length o1 < cap then copy_loop cap (o1 @ [c]) cs else None)
      else (case cs of
          [] \<Rightarrow> None
        | e # es \<Rightarrow> (case unescape e es of
              None \<Rightarrow> None
            | Some (bs, rest) \<Rightarrow>
                if length o1 + length bs \<le> cap then copy_loop cap (o1 @ bs) rest else None)))"
  by pat_completeness auto
termination by (relation "measure (\<lambda>(_, _, s). length s)") (auto dest: unescape_length)

declare copy_loop.simps [simp del] str_len.simps [simp del]

type_synonym 'a parsed = "(byte list + 'a \<times> byte list) option"

definition parse_string :: "byte list \<Rightarrow> (byte list) parsed" where
  "parse_string s =
     do { c \<leftarrow> deref s;
          if c \<noteq> 0x22 then Some (Inl s)
          else do {
            len \<leftarrow> str_len (drop 1 s);
            (out, s1) \<leftarrow> copy_loop (len + 1) [] (drop 1 s);
            d \<leftarrow> deref s1;
            Some (Inr (takeWhile (\<lambda>c. c \<noteq> 0) out, if d = 0x22 then drop 1 s1 else s1)) } }"

section \<open>Parsing values\<close>

fun skip_space :: "byte list \<Rightarrow> byte list option" where
  "skip_space [] = None"
| "skip_space (c # cs) = (if c \<noteq> 0 \<and> c \<le> 32 then skip_space cs else Some (c # cs))"

text \<open>\<open>strncmp\<close> with a literal.\<close>

fun lit_at :: "byte list \<Rightarrow> byte list \<Rightarrow> bool option" where
  "lit_at [] s = Some True"
| "lit_at (x # xs) [] = None"
| "lit_at (x # xs) (c # cs) = (if x = c then lit_at xs cs else Some False)"

text \<open>The parser recurses over the text; \<open>fuel\<close> bounds the depth of its calls.\<close>

fun parse_value :: "nat \<Rightarrow> doubles \<Rightarrow> byte list \<Rightarrow> cjson parsed"
and parse_items :: "nat \<Rightarrow> doubles \<Rightarrow> cjson list \<Rightarrow> byte list \<Rightarrow> (cjson list) parsed"
and parse_members :: "nat \<Rightarrow> doubles \<Rightarrow> (byte list \<times> cjson) list \<Rightarrow> byte list \<Rightarrow> ((byte list \<times> cjson) list) parsed"
where
  "parse_value 0 fp s = None"
| "parse_value (Suc fuel) fp s =
     do { is_null \<leftarrow> lit_at (bytes ''null'') s;
          if is_null then Some (Inr (CNull, drop 4 s))
          else do {
            is_false \<leftarrow> lit_at (bytes ''false'') s;
            if is_false then Some (Inr (CFalse, drop 5 s))
            else do {
              is_true \<leftarrow> lit_at (bytes ''true'') s;
              if is_true then Some (Inr (CTrue, drop 4 s))
              else do {
                c \<leftarrow> deref s;
                if c = 0x22 then map_option (map_sum id (apfst CString)) (parse_string s)
                else if c = 0x2d \<or> is_digit c then map_option Inr (parse_number fp s)
                else if c = 0x5b
                then do {
                  v \<leftarrow> skip_space (drop 1 s);
                  d \<leftarrow> deref v;
                  if d = 0x5d then Some (Inr (CArray [], drop 1 v))
                  else map_option (map_sum id (apfst CArray)) (parse_items fuel fp [] v) }
                else if c = 0x7b
                then do {
                  v \<leftarrow> skip_space (drop 1 s);
                  d \<leftarrow> deref v;
                  if d = 0x7d then Some (Inr (CObject [], drop 1 v))
                  else map_option (map_sum id (apfst CObject)) (parse_members fuel fp [] v) }
                else Some (Inl s) } } } }"
| "parse_items 0 fp acc s = None"
| "parse_items (Suc fuel) fp acc s =
     do { r \<leftarrow> parse_value fuel fp s;
          (case r of
             Inl e \<Rightarrow> Some (Inl e)
           | Inr (j, s1) \<Rightarrow> do {
               w \<leftarrow> skip_space s1;
               c \<leftarrow> deref w;
               if c = 0x2c then do { v \<leftarrow> skip_space (drop 1 w); parse_items fuel fp (acc @ [j]) v }
               else if c = 0x5d then Some (Inr (acc @ [j], drop 1 w)) else Some (Inl w) }) }"
| "parse_members 0 fp acc s = None"
| "parse_members (Suc fuel) fp acc s =
     do { q \<leftarrow> parse_string s;
          (case q of
             Inl e \<Rightarrow> Some (Inl e)
           | Inr (k, s1) \<Rightarrow> do {
               w \<leftarrow> skip_space s1;
               c \<leftarrow> deref w;
               if c \<noteq> 0x3a then Some (Inl w)
               else do {
                 v \<leftarrow> skip_space (drop 1 w);
                 r \<leftarrow> parse_value fuel fp v;
                 (case r of
                    Inl e \<Rightarrow> Some (Inl e)
                  | Inr (j, s2) \<Rightarrow> do {
                      x \<leftarrow> skip_space s2;
                      d \<leftarrow> deref x;
                      if d = 0x2c then do { y \<leftarrow> skip_space (drop 1 x); parse_members fuel fp (acc @ [(k, j)]) y }
                      else if d = 0x7d then Some (Inr (acc @ [(k, j)], drop 1 x)) else Some (Inl x) }) } }) }"

definition parse_fuel :: "byte list \<Rightarrow> nat" where
  "parse_fuel s = 2 * length s + 2"

definition cJSON_ParseWithOpts :: "doubles \<Rightarrow> byte list \<Rightarrow> bool \<Rightarrow> cjson parsed" where
  "cJSON_ParseWithOpts fp s require_end =
     do { v \<leftarrow> skip_space s;
          r \<leftarrow> parse_value (parse_fuel s) fp v;
          (case r of
             Inl e \<Rightarrow> Some (Inl e)
           | Inr (j, s1) \<Rightarrow>
               if require_end
               then do { w \<leftarrow> skip_space s1; c \<leftarrow> deref w; Some (if c \<noteq> 0 then Inl w else Inr (j, w)) }
               else Some (Inr (j, s1))) }"

definition cJSON_Parse :: "doubles \<Rightarrow> byte list \<Rightarrow> cjson option option" where
  "cJSON_Parse fp s =
     map_option (\<lambda>r. case r of Inl _ \<Rightarrow> None | Inr (j, _) \<Rightarrow> Some j) (cJSON_ParseWithOpts fp s False)"

section \<open>Printing\<close>

text \<open>A text with its terminator, put into a block of \<open>cap\<close> bytes.\<close>

definition fit :: "nat \<Rightarrow> byte list \<Rightarrow> byte list option" where
  "fit cap t = (if length t < cap then Some t else None)"

definition print_number :: "doubles \<Rightarrow> int \<Rightarrow> rat \<Rightarrow> byte list option" where
  "print_number fp i d =
     (if \<bar>of_int i - d\<bar> \<le> 1 / 2 ^ 52 \<and> d \<le> 2147483647 \<and> d \<ge> -2147483648 then fit 21 (dec_int i)
      else fit 64
        (if \<bar>of_int \<lfloor>d\<rfloor> - d\<bar> \<le> 1 / 2 ^ 52 \<and> \<bar>d\<bar> < 10 ^ 60 then fmt_f0 fp d
         else if \<bar>d\<bar> < 1 / 10 ^ 6 \<or> \<bar>d\<bar> > 10 ^ 9 then fmt_e fp d else fmt_f fp d))"

definition hex_low :: "byte \<Rightarrow> byte" where
  "hex_low n = (if n < 10 then 0x30 + n else 0x57 + n)"

definition is_special :: "byte \<Rightarrow> bool" where
  "is_special c = (c = 0x22 \<or> c = 0x5c \<or> c = 8 \<or> c = 0x0c \<or> c = 0x0a \<or> c = 0x0d \<or> c = 9)"

definition esc_room :: "byte \<Rightarrow> nat" where
  "esc_room c = (if is_special c then 2 else if c < 32 then 6 else 1)"

definition escaped :: "byte \<Rightarrow> byte list" where
  "escaped c =
     (if c > 31 \<and> c \<noteq> 0x22 \<and> c \<noteq> 0x5c then [c]
      else 0x5c #
        (if c = 0x5c then [0x5c] else if c = 0x22 then [0x22]
         else if c = 8 then [0x62] else if c = 0x0c then [0x66] else if c = 0x0a then [0x6e]
         else if c = 0x0d then [0x72] else if c = 9 then [0x74]
         else [0x75, 0x30, 0x30, hex_low (drop_bit 4 c), hex_low (c AND 0x0f)]))"

definition print_string_ptr :: "byte list \<Rightarrow> byte list option" where
  "print_string_ptr s = fit (sum_list (map esc_room s) + 3) ([0x22] @ concat (map escaped s) @ [0x22])"

fun join :: "byte list \<Rightarrow> byte list list \<Rightarrow> byte list" where
  "join sep [] = []"
| "join sep [t] = t"
| "join sep (t # u # us) = t @ sep @ join sep (u # us)"

definition tabs :: "nat \<Rightarrow> byte list" where
  "tabs n = replicate n 0x09"

text \<open>The sizes that \<open>print_array\<close> and \<open>print_object\<close> allocate, and the texts they compose; \<open>dep\<close> is the
  depth of the entries.\<close>

definition array_room :: "bool \<Rightarrow> byte list list \<Rightarrow> nat" where
  "array_room fmt es = 5 + (\<Sum>e\<leftarrow>es. length e + 2 + (if fmt then 1 else 0))"

definition array_text :: "bool \<Rightarrow> byte list list \<Rightarrow> byte list" where
  "array_text fmt es = [0x5b] @ join (0x2c # (if fmt then [0x20] else [])) es @ [0x5d]"

definition object_room :: "bool \<Rightarrow> nat \<Rightarrow> (byte list \<times> byte list) list \<Rightarrow> nat" where
  "object_room fmt dep es =
     7 + (if fmt then dep else 0) + (\<Sum>(k, e)\<leftarrow>es. length e + length k + 2 + (if fmt then 2 + dep else 0))"

definition member_text :: "bool \<Rightarrow> nat \<Rightarrow> byte list \<times> byte list \<Rightarrow> byte list" where
  "member_text fmt dep ke =
     (if fmt then tabs dep else []) @ fst ke @ [0x3a] @ (if fmt then [0x09] else []) @ snd ke"

definition object_text :: "bool \<Rightarrow> nat \<Rightarrow> (byte list \<times> byte list) list \<Rightarrow> byte list" where
  "object_text fmt dep es =
     [0x7b] @ (if fmt then [0x0a] else []) @
     join (0x2c # (if fmt then [0x0a] else [])) (map (member_text fmt dep) es) @
     (if fmt then [0x0a] @ tabs (dep - 1) else []) @ [0x7d]"

fun print_value :: "doubles \<Rightarrow> bool \<Rightarrow> nat \<Rightarrow> cjson \<Rightarrow> byte list option"
and print_items :: "doubles \<Rightarrow> bool \<Rightarrow> nat \<Rightarrow> cjson list \<Rightarrow> (byte list list) option"
and print_members :: "doubles \<Rightarrow> bool \<Rightarrow> nat \<Rightarrow> (byte list \<times> cjson) list \<Rightarrow> ((byte list \<times> byte list) list) option"
where
  "print_value fp fmt dep CNull = Some (bytes ''null'')"
| "print_value fp fmt dep CFalse = Some (bytes ''false'')"
| "print_value fp fmt dep CTrue = Some (bytes ''true'')"
| "print_value fp fmt dep (CNumber i d) = print_number fp i d"
| "print_value fp fmt dep (CString s) = print_string_ptr s"
| "print_value fp fmt dep (CArray vs) =
     (if vs = [] then fit 3 [0x5b, 0x5d]
      else do { es \<leftarrow> print_items fp fmt (dep + 1) vs; fit (array_room fmt es) (array_text fmt es) })"
| "print_value fp fmt dep (CObject ms) =
     (if ms = []
      then fit (if fmt then dep + 4 else 3) ([0x7b] @ (if fmt then [0x0a] @ tabs (dep - 1) else []) @ [0x7d])
      else do { es \<leftarrow> print_members fp fmt (dep + 1) ms;
                fit (object_room fmt (dep + 1) es) (object_text fmt (dep + 1) es) })"
| "print_items fp fmt dep [] = Some []"
| "print_items fp fmt dep (v # vs) =
     do { e \<leftarrow> print_value fp fmt dep v; es \<leftarrow> print_items fp fmt dep vs; Some (e # es) }"
| "print_members fp fmt dep [] = Some []"
| "print_members fp fmt dep ((k, v) # ms) =
     do { n \<leftarrow> print_string_ptr k; e \<leftarrow> print_value fp fmt dep v; es \<leftarrow> print_members fp fmt dep ms;
          Some ((n, e) # es) }"

definition cJSON_Print :: "doubles \<Rightarrow> cjson \<Rightarrow> byte list option" where
  "cJSON_Print fp v = print_value fp True 0 v"

definition cJSON_PrintUnformatted :: "doubles \<Rightarrow> cjson \<Rightarrow> byte list option" where
  "cJSON_PrintUnformatted fp v = print_value fp False 0 v"

section \<open>Minifying\<close>

text \<open>The text is rewritten in place; what is written never gets ahead of what is read. \<open>o1\<close> is the text
  written so far.\<close>

fun line_comment :: "byte list \<Rightarrow> byte list option" where
  "line_comment [] = None"
| "line_comment (c # cs) = (if c = 0 \<or> c = 0x0a then Some (c # cs) else line_comment cs)"

fun block_comment :: "byte list \<Rightarrow> byte list option" where
  "block_comment [] = None"
| "block_comment (c # cs) =
     (if c = 0 then Some (c # cs)
      else if c = 0x2a
      then (case cs of [] \<Rightarrow> None | d # _ \<Rightarrow> if d = 0x2f then Some (c # cs) else block_comment cs)
      else block_comment cs)"

text \<open>The bytes of a string literal behind its first quote, and the text behind it.\<close>

fun literal :: "byte list \<Rightarrow> (byte list \<times> byte list) option" where
  "literal [] = None"
| "literal (c # cs) =
     (if c = 0 \<or> c = 0x22 then Some ([c], cs)
      else if c = 0x5c
      then (case cs of [] \<Rightarrow> None | d # ds \<Rightarrow> map_option (apfst (\<lambda>l. c # d # l)) (literal ds))
      else map_option (apfst (Cons c)) (literal cs))"

lemma line_comment_length: "line_comment s = Some r \<Longrightarrow> length r \<le> length s"
  by (induction s) (auto split: if_splits)

lemma block_comment_length: "block_comment s = Some r \<Longrightarrow> length r \<le> length s"
  by (induction s) (auto split: if_splits list.splits)

lemma literal_length: "literal s = Some (l, r) \<Longrightarrow> length r < length s"
  by (induction s arbitrary: l r rule: literal.induct) (fastforce split: if_splits list.splits)+

function minify :: "byte list \<Rightarrow> byte list \<Rightarrow> byte list option" where
  "minify o1 [] = None"
| "minify o1 (c # cs) =
     (if c = 0 then Some o1
      else if c = 0x20 \<or> c = 0x09 \<or> c = 0x0d \<or> c = 0x0a then minify o1 cs
      else if c = 0x2f
      then (case cs of
          [] \<Rightarrow> None
        | d # _ \<Rightarrow>
            if d = 0x2f then (case line_comment cs of None \<Rightarrow> None | Some r \<Rightarrow> minify o1 r)
            else if d = 0x2a
            then (case block_comment cs of None \<Rightarrow> None | Some r \<Rightarrow> minify o1 (drop 2 r))
            else minify (o1 @ [c]) cs)
      else if c = 0x22
      then (case literal cs of None \<Rightarrow> None | Some (l, r) \<Rightarrow> minify (o1 @ c # l) r)
      else minify (o1 @ [c]) cs)"
  by pat_completeness auto
termination
  by (relation "measure (\<lambda>(_, s). length s)")
    (auto dest!: line_comment_length block_comment_length literal_length
      simp del: line_comment.simps block_comment.simps literal.simps)

definition cJSON_Minify :: "byte list \<Rightarrow> byte list option" where
  "cJSON_Minify s = minify [] s"

end
