(* ===== verification/Cjson_Facts.thy ===== *)
theory Cjson_Facts
  imports Cjson
begin

text \<open>
  The JSON library: what is printed is parsed back, the minifier turns the formatted text of a
  value into the unformatted one, and objects printed one behind the other are cut into their
  values by \<open>cjson_list.c\<close>.
\<close>

section \<open>Strings\<close>

lemma byte_below: "c < of_nat n \<Longrightarrow> n < 256 \<Longrightarrow> c \<in> set (map of_nat [0..<n])" for c :: byte
  by (simp only: set_map set_upt) (intro image_eqI [of _ _ "unat c"]; simp add: word_less_nat_alt unat_of_nat)

lemma control_code:
  assumes "c < 32" "c \<noteq> 0"
  shows "parse_hex4 [0x30, 0x30, hex_low (drop_bit 4 c), hex_low (c AND 0x0f)] = Some (ucast c) \<and>
    \<not> (0xDC00 \<le> (ucast c :: 32 word) \<and> (ucast c :: 32 word) \<le> 0xDFFF) \<and> (ucast c :: 32 word) \<noteq> 0 \<and>
    \<not> (0xD800 \<le> (ucast c :: 32 word) \<and> (ucast c :: 32 word) \<le> 0xDBFF) \<and> utf8_bytes (ucast c) = [c] \<and>
    hex_low (drop_bit 4 c) \<notin> {0, 0x22, 0x5c} \<and> hex_low (c AND 0x0f) \<notin> {0, 0x22, 0x5c}"
proof -
  have "list_all (\<lambda>c :: byte. c \<noteq> 0 \<longrightarrow>
      parse_hex4 [0x30, 0x30, hex_low (drop_bit 4 c), hex_low (c AND 0x0f)] = Some (ucast c) \<and>
      \<not> (0xDC00 \<le> (ucast c :: 32 word) \<and> (ucast c :: 32 word) \<le> 0xDFFF) \<and> (ucast c :: 32 word) \<noteq> 0 \<and>
      \<not> (0xD800 \<le> (ucast c :: 32 word) \<and> (ucast c :: 32 word) \<le> 0xDBFF) \<and> utf8_bytes (ucast c) = [c] \<and>
      hex_low (drop_bit 4 c) \<notin> {0, 0x22, 0x5c} \<and> hex_low (c AND 0x0f) \<notin> {0, 0x22, 0x5c}) (map of_nat [0..<32])"
    by code_simp
  then show ?thesis using byte_below [of c 32] assms unfolding list_all_iff by auto
qed

lemma parse_hex4_four: "parse_hex4 (a # b # c # d # t) = parse_hex4 [a, b, c, d]"
  by (simp add: parse_hex4_def numeral_eq_Suc split: option.splits)

lemma escaped_cases:
  assumes "c \<noteq> 0"
  obtains (plain) "escaped c = [c]" "c \<noteq> 0" "c \<noteq> 0x22" "c \<noteq> 0x5c"
  | (short) x where "escaped c = [0x5c, x]" "x \<noteq> 0" "\<And>t. unescape x t = Some ([c], t)"
  | (code) x y where "escaped c = [0x5c, 0x75, 0x30, 0x30, x, y]" "x \<notin> {0, 0x22, 0x5c}" "y \<notin> {0, 0x22, 0x5c}"
      "\<And>t. unescape 0x75 (0x30 # 0x30 # x # y # t) = Some ([c], t)"
proof (cases "c > 31 \<and> c \<noteq> 0x22 \<and> c \<noteq> 0x5c")
  case True
  then show ?thesis using plain assms by (simp add: escaped_def)
next
  case False
  show ?thesis
  proof (cases "is_special c")
    case True
    then show ?thesis using short by (auto simp: is_special_def escaped_def unescape_def)
  next
    case special: False
    then have c: "c < 32" using False by (auto simp: is_special_def word_less_nat_alt word_le_nat_alt)
    let ?x = "hex_low (drop_bit 4 c)" and ?y = "hex_low (c AND 0x0f)"
    note cc = control_code [OF c assms]
    have e: "escaped c = [0x5c, 0x75, 0x30, 0x30, ?x, ?y]"
      using special False unfolding escaped_def is_special_def by simp
    have "unescape 0x75 (0x30 # 0x30 # ?x # ?y # t) = Some ([c], t)" for t
      unfolding unescape_def parse_hex4_four [of "0x30" "0x30" ?x ?y t] using cc by auto
    with e cc show ?thesis by (intro code) auto
  qed
qed

lemma str_len_escaped: "c \<noteq> 0 \<Longrightarrow> str_len t = Some n \<Longrightarrow> \<exists>m. str_len (escaped c @ t) = Some m \<and> Suc n \<le> m"
  by (erule escaped_cases) (simp_all add: str_len.simps)

lemma str_len_printed: "0 \<notin> set s \<Longrightarrow> \<exists>n. str_len (concat (map escaped s) @ 0x22 # r) = Some n \<and> length s \<le> n"
proof (induction s)
  case (Cons c s)
  then obtain n where n: "str_len (concat (map escaped s) @ 0x22 # r) = Some n" "length s \<le> n" by auto
  from str_len_escaped [OF _ n(1), of c] Cons.prems n(2) show ?case by force
qed (simp add: str_len.simps)

lemma copy_escaped: "c \<noteq> 0 \<Longrightarrow> length o1 < cap \<Longrightarrow> copy_loop cap o1 (escaped c @ t) = copy_loop cap (o1 @ [c]) t"
  by (erule escaped_cases) (simp_all add: copy_loop.simps)

lemma copy_printed: "0 \<notin> set s \<Longrightarrow> length o1 + length s < cap \<Longrightarrow>
    copy_loop cap o1 (concat (map escaped s) @ 0x22 # r) = Some (o1 @ s, 0x22 # r)"
proof (induction s arbitrary: o1)
  case (Cons c s)
  have "copy_loop cap o1 (concat (map escaped (c # s)) @ 0x22 # r) =
      copy_loop cap (o1 @ [c]) (concat (map escaped s) @ 0x22 # r)"
    using Cons.prems by (simp add: copy_escaped)
  then show ?case using Cons.IH [of "o1 @ [c]"] Cons.prems by simp
qed (simp add: copy_loop.simps)

definition string_text :: "byte list \<Rightarrow> byte list" where
  "string_text s = [0x22] @ concat (map escaped s) @ [0x22]"

lemma parse_string_printed:
  assumes "0 \<notin> set s"
  shows "parse_string (string_text s @ r) = Some (Inr (s, r))"
proof -
  obtain n where n: "str_len (concat (map escaped s) @ 0x22 # r) = Some n" "length s \<le> n"
    using str_len_printed [OF assms] by blast
  have "copy_loop (n + 1) [] (concat (map escaped s) @ 0x22 # r) = Some (s, 0x22 # r)"
    using copy_printed [OF assms, of "[]" "n + 1"] n(2) by simp
  moreover have "takeWhile (\<lambda>c. c \<noteq> 0) s = s" using assms by (auto simp: takeWhile_eq_all_conv)
  ultimately show ?thesis using n(1) by (simp add: parse_string_def string_text_def deref_def)
qed

lemma escaped_room: "length (escaped c) \<le> esc_room c"
  by (auto simp: escaped_def esc_room_def is_special_def word_less_nat_alt word_le_nat_alt)

lemma string_prints: "print_string_ptr s = Some (string_text s)"
proof -
  have "length (concat (map escaped s)) \<le> sum_list (map esc_room s)"
    by (simp add: length_concat o_def sum_list_mono escaped_room)
  then show ?thesis by (simp add: print_string_ptr_def fit_def string_text_def)
qed

section \<open>Numbers\<close>

text \<open>Doubles whose arithmetic is exact on the integers that fit their 53 bits.\<close>

definition exact :: "doubles \<Rightarrow> bool" where
  "exact fp = ((\<forall>i. \<bar>i\<bar> \<le> 2 ^ 53 \<longrightarrow> rounded fp (of_int i) = Some (of_int i)) \<and> pow10 fp 0 = Some 1)"

definition numchar :: "byte \<Rightarrow> bool" where
  "numchar c = (is_digit c \<or> c = 0x2e \<or> c = 0x65 \<or> c = 0x45)"

lemma dec_fold_mono: "\<forall>c \<in> set ds. is_digit c \<Longrightarrow> 0 \<le> n \<Longrightarrow> n \<le> dec_fold n ds"
proof (induction ds arbitrary: n)
  case (Cons c ds)
  then have "0 \<le> digit_val c" using is_digit_range by auto
  then have "n \<le> n * 10 + digit_val c" "0 \<le> n * 10 + digit_val c" using Cons.prems by auto
  with Cons.IH [of "n * 10 + digit_val c"] Cons.prems show ?case by simp
qed simp

lemma num_digits_exact:
  assumes "exact fp"
  shows "\<forall>c \<in> set ds. is_digit c \<Longrightarrow> 0 \<le> n \<Longrightarrow> dec_fold n ds \<le> 2 ^ 53 \<Longrightarrow> \<not> is_digit c \<Longrightarrow>
    num_digits fp (of_int n) k (ds @ c # r) = Some (of_int (dec_fold n ds), k + int (length ds), c # r)"
proof (induction ds arbitrary: n k)
  case (Cons d ds)
  let ?m = "n * 10 + digit_val d"
  have d: "0 \<le> digit_val d" "is_digit d" using Cons.prems(1) is_digit_range by auto
  then have m: "0 \<le> ?m" "n * 10 \<le> ?m" using Cons.prems(2) by auto
  have "?m \<le> 2 ^ 53" using dec_fold_mono [of ds ?m] Cons.prems m by simp
  then have "rounded fp (of_int (n * 10)) = Some (of_int (n * 10))" "rounded fp (of_int ?m) = Some (of_int ?m)"
    using assms m Cons.prems(2) unfolding exact_def by (metis abs_of_nonneg order_trans mult_nonneg_nonneg zero_le_numeral)+
  then have "rounded fp (of_int n * 10) = Some (of_int (n * 10))" "rounded fp (of_int (n * 10) + of_int (digit_val d)) = Some (of_int ?m)"
    by simp_all
  then show ?case using Cons.IH [of ?m "k + 1"] Cons.prems m d(2) by (simp del: of_int_add of_int_mult)
qed simp

lemma dec_nat_value: "dec_fold 0 (dec_nat n) = int n \<and> (\<forall>c \<in> set (dec_nat n). is_digit c) \<and>
    (0 < n \<longrightarrow> (\<exists>c cs. dec_nat n = c # cs \<and> 0x31 \<le> c))"
proof (induction n rule: dec_nat.induct)
  case (1 n)
  have d: "is_digit (of_nat m + 0x30) \<and> digit_val (of_nat m + 0x30) = int m \<and> (0 < m \<longrightarrow> 0x31 \<le> (of_nat m + 0x30 :: byte))"
    if "m < 10" for m
  proof -
    have "m \<in> set [0..<10]" using that by simp
    moreover have "list_all (\<lambda>m. is_digit (of_nat m + 0x30) \<and> digit_val (of_nat m + 0x30) = int m \<and>
        (0 < m \<longrightarrow> 0x31 \<le> (of_nat m + 0x30 :: byte))) [0..<10]" by code_simp
    ultimately show ?thesis unfolding list_all_iff by blast
  qed
  show ?case
  proof (cases "n < 10")
    case True
    then show ?thesis using d [of n] by (subst (1 2 3) dec_nat.simps) simp
  next
    case False
    then have "0 < n div 10" by simp
    with 1 [OF False] obtain c cs where c: "dec_nat (n div 10) = c # cs" "0x31 \<le> c" "is_digit c"
        "\<forall>x \<in> set cs. is_digit x" "dec_fold 0 (dec_nat (n div 10)) = int (n div 10)" by auto
    have "int (n div 10) * 10 + int (n mod 10) = int n" by presburger
    then show ?thesis using c d [of "n mod 10"] False by (subst (1 2 3) dec_nat.simps) simp
  qed
qed

lemma no_fraction: "\<not> numchar c \<Longrightarrow> parse_frac fp n (c # r) = Some (n, 0, c # r) \<and> parse_exp (c # r) = Some (0, c # r)"
  by (simp add: parse_frac_def parse_exp_def deref_def numchar_def)

lemma to_int_of_int: "- (2 ^ 31) \<le> i \<Longrightarrow> i < 2 ^ 31 \<Longrightarrow> to_int (of_int i) = Some i"
  by (simp add: to_int_def int32_def)

text \<open>The digits behind the sign.\<close>

lemma digits_read:
  assumes "exact fp" "int n \<le> 2 ^ 53" "\<not> numchar c"
  shows "parse_lead fp (dec_nat n @ c # r) = Some (of_nat n, c # r)"
proof (cases "n = 0")
  case True
  then have "dec_nat n = [0x30]" by (simp add: dec_nat.simps)
  moreover have "\<not> (0x31 \<le> c \<and> c \<le> 0x39)" using assms(3) by (auto simp: numchar_def is_digit_def word_le_nat_alt)
  ultimately show ?thesis using True by (auto simp: parse_lead_def deref_def Let_def)
next
  case False
  obtain d ds where d: "dec_nat n = d # ds" "0x31 \<le> d" using dec_nat_value [of n] False by auto
  have dig: "is_digit d" "\<forall>x \<in> set (dec_nat n). is_digit x" using dec_nat_value [of n] d(1) by auto
  then have "d \<noteq> 0x30" "d \<le> 0x39" using d(2) by (auto simp: is_digit_def)
  moreover have "num_digits fp (of_int 0) 0 (dec_nat n @ c # r) = Some (of_int (int n), 0 + int (length (dec_nat n)), c # r)"
    using num_digits_exact [OF assms(1) dig(2), of 0 c 0 r] dec_nat_value [of n] assms(2,3) by (simp add: numchar_def)
  ultimately show ?thesis using d by (simp add: parse_lead_def deref_def Let_def)
qed

lemma dec_nat_head: "\<exists>d ds. dec_nat n = d # ds \<and> is_digit d"
proof -
  have "dec_nat n \<noteq> []" by (subst dec_nat.simps) simp
  then show ?thesis using dec_nat_value [of n] by (cases "dec_nat n") auto
qed

lemma parse_number_printed:
  assumes "exact fp" "- (2 ^ 31) \<le> i" "i < 2 ^ 31" "\<not> numchar c"
  shows "parse_number fp (dec_int i @ c # r) = Some (CNumber i (of_int i), c # r)"
proof -
  let ?n = "nat \<bar>i\<bar>"
  have lead: "parse_lead fp (dec_nat ?n @ c # r) = Some (of_nat ?n, c # r)"
    using assms(2,3) by (intro digits_read [OF assms(1) _ assms(4)]) simp
  have ex: "rounded fp (of_int i) = Some (of_int i)" "pow10 fp 0 = Some 1" using assms(1-3) by (auto simp: exact_def)
  have fin: "parse_frac fp n (c # r) = Some (n, 0, c # r)" "parse_exp (c # r) = Some (0, c # r)" "to_int (of_int i) = Some i" for n
    using no_fraction [OF assms(4)] to_int_of_int [OF assms(2,3)] by auto
  show ?thesis
  proof (cases "i < 0")
    case True
    then have "dec_int i = 0x2d # dec_nat ?n" "(of_nat ?n :: rat) = - of_int i" by (simp_all add: dec_int_def)
    then show ?thesis using lead fin ex True by (simp add: parse_number_def deref_def)
  next
    case False
    obtain d ds where d: "dec_nat ?n = d # ds" "is_digit d" using dec_nat_head by blast
    then have "d \<noteq> 0x2d" by (auto simp: is_digit_def)
    moreover have "dec_int i = dec_nat ?n" "(of_nat ?n :: rat) = of_int i" using False by (simp_all add: dec_int_def)
    ultimately show ?thesis using lead fin ex d(1) by (simp add: parse_number_def deref_def)
  qed
qed

section \<open>Values\<close>

text \<open>The values that a text can hold: no string with a terminator in it, numbers that are an \<open>int\<close>.\<close>

fun plain :: "cjson \<Rightarrow> bool" where
  "plain (CNumber i d) = (d = of_int i \<and> - (2 ^ 31) \<le> i \<and> i < 2 ^ 31)"
| "plain (CString s) = (0 \<notin> set s)"
| "plain (CArray vs) = (\<forall>v \<in> set vs. plain v)"
| "plain (CObject ms) = (\<forall>m \<in> set ms. 0 \<notin> set (fst m) \<and> plain (snd m))"
| "plain _ = True"

definition blank :: "byte list \<Rightarrow> bool" where
  "blank ws = (\<forall>c \<in> set ws. c \<noteq> 0 \<and> c \<le> 32)"

lemma blank_simps [simp]: "blank []" "blank (c # ws) \<longleftrightarrow> c \<noteq> 0 \<and> c \<le> 32 \<and> blank ws" "blank (tabs n)"
  by (auto simp: blank_def tabs_def)

lemma skip_blank: "blank ws \<Longrightarrow> skip_space (ws @ t) = skip_space t"
  by (induction ws) auto

lemma skip_dark [simp]: "c > 32 \<Longrightarrow> skip_space (c # t) = Some (c # t)"
  by (auto simp: word_less_nat_alt word_le_nat_alt)

lemma dec_int_head: "\<exists>d ds. dec_int i = d # ds \<and> (d = 0x2d \<or> is_digit d)"
proof -
  obtain d ds where "dec_nat (nat i) = d # ds" "is_digit d" using dec_nat_head by blast
  then show ?thesis by (auto simp: dec_int_def)
qed

lemma dec_int_room: "- (2 ^ 31) \<le> i \<Longrightarrow> i < 2 ^ 31 \<Longrightarrow> length (dec_int i) < 21"
  using dec_nat_length [of "nat (- i)" 9] dec_nat_length [of "nat i" 9] by (auto simp: dec_int_def)

lemma plain_number: "plain (CNumber i d) \<Longrightarrow> print_number fp i d = Some (dec_int i)"
  using dec_int_room [of i] by (simp add: print_number_def fit_def)

text \<open>The first byte of a printed value.\<close>

definition opens :: "byte \<Rightarrow> bool" where
  "opens c = (c \<in> {0x6e, 0x66, 0x74, 0x22, 0x2d, 0x5b, 0x7b} \<or> is_digit c)"

lemma opens_dark: "opens c \<Longrightarrow> c > 32 \<and> \<not> c \<le> 32 \<and> c \<noteq> 0x5d \<and> c \<noteq> 0x7d \<and> c \<noteq> 0"
  by (auto simp: opens_def is_digit_def word_less_nat_alt word_le_nat_alt)

lemma fit_Some: "fit n t = Some u \<longleftrightarrow> u = t \<and> length t < n"
  by (auto simp: fit_def)

lemma printed_head: "print_value fp fmt dep v = Some t \<Longrightarrow> plain v \<Longrightarrow> \<exists>c u. t = c # u \<and> opens c"
proof -
  assume v: "print_value fp fmt dep v = Some t" "plain v"
  have "\<exists>c u. t = c # u \<and> opens c" if "v = CNumber i d" for i d
  proof -
    obtain h ds where "dec_int i = h # ds" "h = 0x2d \<or> is_digit h" using dec_int_head by blast
    then show ?thesis using v that plain_number [of i d fp] by (intro exI [of _ h] exI [of _ ds]) (auto simp: opens_def)
  qed
  then show ?thesis
    using v by (cases v) (auto simp: opens_def string_prints string_text_def bytes_Cons fit_Some array_text_def
      object_text_def split: if_splits bind_splits)
qed

lemma lit_miss: "c \<notin> {0x6e, 0x66, 0x74} \<Longrightarrow> lit_at (bytes ''null'') (c # t) = Some False \<and>
    lit_at (bytes ''false'') (c # t) = Some False \<and> lit_at (bytes ''true'') (c # t) = Some False"
  by (auto simp: bytes_def)

text \<open>The separators of the entries of an array and of an object.\<close>

lemma items_text:
  assumes "print_items fp fmt dep (v # vs) = Some es"
  obtains e es' where "print_value fp fmt dep v = Some e" "print_items fp fmt dep vs = Some es'" "es = e # es'"
  using assms by (auto split: bind_splits)

lemma members_text:
  assumes "print_members fp fmt dep ((k, v) # ms) = Some es"
  obtains e es' where "print_value fp fmt dep v = Some e" "print_members fp fmt dep ms = Some es'" "es = (string_text k, e) # es'"
  using assms by (auto simp: string_prints split: bind_splits)

definition ends_number :: "cjson \<Rightarrow> byte \<Rightarrow> bool" where
  "ends_number v c = ((\<forall>i d. v \<noteq> CNumber i d) \<or> \<not> numchar c)"

lemma separators [simp]: "ends_number v 0x2c" "ends_number v 0x5d" "ends_number v 0x7d" "ends_number v 0x0a"
  by (simp_all add: ends_number_def numchar_def is_digit_def)

lemma join_Cons: "join sep (e # es) = e @ (if es = [] then [] else sep @ join sep es)"
  by (cases es) auto

lemma join_head: "e = c # u \<Longrightarrow> \<exists>w. join sep (e # es) = c # w"
  by (simp add: join_Cons)

lemma members_skip:
  "skip_space (join sep (map (member_text fmt dep) ((string_text k, e) # ps)) @ tail) =
    Some (string_text k @ 0x3a # (if fmt then [0x09] else []) @ e @
      (if ps = [] then [] else sep @ join sep (map (member_text fmt dep) ps)) @ tail)"
proof -
  have s: "skip_space (string_text k @ t) = Some (string_text k @ t)" for t by (simp add: string_text_def)
  show ?thesis
    by (cases fmt) (simp_all add: join_Cons member_text_def skip_blank s)
qed

lemma value_dispatch:
  assumes "c \<notin> {0x6e, 0x66, 0x74}"
  shows "parse_value (Suc n) fp (c # s) =
    (if c = 0x22 then map_option (map_sum id (apfst CString)) (parse_string (c # s))
     else if c = 0x2d \<or> is_digit c then map_option Inr (parse_number fp (c # s))
     else if c = 0x5b
     then do { v \<leftarrow> skip_space s; d \<leftarrow> deref v;
               if d = 0x5d then Some (Inr (CArray [], drop 1 v))
               else map_option (map_sum id (apfst CArray)) (parse_items n fp [] v) }
     else if c = 0x7b
     then do { v \<leftarrow> skip_space s; d \<leftarrow> deref v;
               if d = 0x7d then Some (Inr (CObject [], drop 1 v))
               else map_option (map_sum id (apfst CObject)) (parse_members n fp [] v) }
     else Some (Inl (c # s)))"
  using lit_miss [OF assms, of s] by (simp add: parse_value.simps)

declare parse_value.simps(2) [simp del]

lemma parse_printed:
  assumes "exact fp"
  shows "print_value fp fmt dep v = Some t \<Longrightarrow> plain v \<Longrightarrow> length t \<le> n \<Longrightarrow> ends_number v c \<Longrightarrow>
      parse_value n fp (t @ c # r) = Some (Inr (v, c # r))"
    and "print_items fp fmt dep vs = Some es \<Longrightarrow> vs \<noteq> [] \<Longrightarrow> \<forall>v \<in> set vs. plain v \<Longrightarrow>
      length (join (0x2c # (if fmt then [0x20] else [])) es) < n \<Longrightarrow>
      parse_items n fp acc (join (0x2c # (if fmt then [0x20] else [])) es @ 0x5d # r) = Some (Inr (acc @ vs, r))"
    and "print_members fp fmt dep ms = Some ps \<Longrightarrow> ms \<noteq> [] \<Longrightarrow> \<forall>m \<in> set ms. 0 \<notin> set (fst m) \<and> plain (snd m) \<Longrightarrow>
      length (join (0x2c # (if fmt then [0x0a] else [])) (map (member_text fmt dep) ps)) < n \<Longrightarrow> blank ws \<Longrightarrow>
      ws = [] \<or> hd ws = 0x0a \<Longrightarrow>
      skip_space (join (0x2c # (if fmt then [0x0a] else [])) (map (member_text fmt dep) ps) @ ws @ 0x7d # r) = Some x \<Longrightarrow>
      parse_members n fp macc x = Some (Inr (macc @ ms, r))"
  using assms
proof (induction fp fmt dep v and fp fmt dep vs and fp fmt dep ms arbitrary: t n c r and es n acc r and ps n macc ws x r
    rule: print_value_print_items_print_members.induct)
  case (1 fp fmt dep)
  then show ?case by (cases n) (auto simp: parse_value.simps bytes_def)
next
  case (2 fp fmt dep)
  then show ?case by (cases n) (auto simp: parse_value.simps bytes_def)
next
  case (3 fp fmt dep)
  then show ?case by (cases n) (auto simp: parse_value.simps bytes_def)
next
  case (4 fp fmt dep i d)
  obtain h ds where h: "dec_int i = h # ds" "h = 0x2d \<or> is_digit h" using dec_int_head by blast
  then have "h \<notin> {0x6e, 0x66, 0x74}" "h \<noteq> 0x22" by (auto simp: is_digit_def)
  moreover have "t = dec_int i" using 4 plain_number by simp
  moreover obtain m where "n = Suc m" using 4 h calculation by (cases n) auto
  ultimately show ?case
    using parse_number_printed [of fp i c r] h 4 value_dispatch [of h m fp "ds @ c # r"] by (simp add: ends_number_def)
next
  case (5 fp fmt dep s)
  have t: "t = string_text s" using 5 by (simp add: string_prints)
  then obtain m where n: "n = Suc m" using 5 by (cases n) (auto simp: string_text_def)
  obtain u where u: "string_text s = 0x22 # u" by (simp add: string_text_def)
  show ?case
    using parse_string_printed [of s "c # r"] 5 value_dispatch [of "0x22" m fp "u @ c # r"] unfolding t n u by simp
next
  case (6 fp fmt dep vs)
  show ?case
  proof (cases vs)
    case Nil
    then obtain m where "n = Suc m" using 6 by (cases n) (auto simp: fit_Some)
    then show ?thesis using 6 Nil value_dispatch [of "0x5b" m fp "0x5d # c # r"] by (simp add: fit_Some is_digit_def)
  next
    case (Cons v vs')
    then obtain es where es: "print_items fp fmt (dep + 1) vs = Some es" "t = array_text fmt es"
      using 6 by (auto simp: fit_Some split: bind_splits)
    let ?b = "join (0x2c # (if fmt then [0x20] else [])) es"
    have t: "t = 0x5b # ?b @ [0x5d]" using es(2) by (simp add: array_text_def)
    then obtain m where n: "n = Suc m" using 6 by (cases n) auto
    obtain e es' where e: "print_value fp fmt (dep + 1) v = Some e" "es = e # es'"
      using items_text es(1) unfolding Cons by blast
    obtain h u where h: "e = h # u" "opens h" using printed_head [OF e(1)] 6 Cons by auto
    then obtain w where w: "?b = h # w" using join_head e(2) by metis
    have "parse_items m fp [] (?b @ 0x5d # c # r) = Some (Inr ([] @ vs, c # r))"
      using 6 es(1) Cons t n by (intro 6(1)) auto
    then show ?thesis
      using value_dispatch [of "0x5b" m fp "?b @ 0x5d # c # r"] opens_dark [OF h(2)] unfolding t n w
      by (simp add: is_digit_def)
  qed
next
  case (7 fp fmt dep ms)
  show ?case
  proof (cases ms)
    case Nil
    then obtain m where n: "n = Suc m" using 7 by (cases n) (auto simp: fit_Some)
    let ?ws = "if fmt then [0x0a] @ tabs (dep - 1) else []"
    have t: "t = 0x7b # ?ws @ [0x7d]" using 7 Nil by (simp add: fit_Some)
    have "skip_space (?ws @ 0x7d # c # r) = Some (0x7d # c # r)"
      using skip_blank [of ?ws "0x7d # c # r"] by simp
    then show ?thesis
      using Nil value_dispatch [of "0x7b" m fp "?ws @ 0x7d # c # r"] unfolding t n by (simp add: is_digit_def)
  next
    case (Cons kv ms')
    obtain k v where kv: "kv = (k, v)" by (cases kv)
    obtain ps where ps: "print_members fp fmt (dep + 1) ms = Some ps" "t = object_text fmt (dep + 1) ps"
      using 7 Cons by (auto simp: fit_Some split: bind_splits)
    let ?sep = "0x2c # (if fmt then [0x0a] else [])" and ?w0 = "if fmt then [0x0a] else []"
      and ?ws = "if fmt then [0x0a] @ tabs dep else []"
    let ?b = "join ?sep (map (member_text fmt (dep + 1)) ps)"
    have t: "t = 0x7b # ?w0 @ ?b @ ?ws @ [0x7d]" using ps(2) by (simp add: object_text_def)
    then obtain m where n: "n = Suc m" using 7 by (cases n) auto
    obtain e ps' where e: "ps = (string_text k, e) # ps'"
      using members_text ps(1) unfolding Cons kv by blast
    define x where "x = string_text k @ 0x3a # (if fmt then [0x09] else []) @ e @
      (if ps' = [] then [] else ?sep @ join ?sep (map (member_text fmt (dep + 1)) ps')) @ ?ws @ 0x7d # c # r"
    have sk: "skip_space (?b @ ?ws @ 0x7d # c # r) = Some x" unfolding e members_skip x_def by simp
    then have sk0: "skip_space (?w0 @ ?b @ ?ws @ 0x7d # c # r) = Some x" using skip_blank [of ?w0] by simp
    have "deref x = Some 0x22" by (simp add: x_def string_text_def)
    moreover have "parse_members m fp [] x = Some (Inr ([] @ ms, c # r))"
      using 7 ps(1) Cons t n by (intro 7(1) [OF _ _ _ _ _ _ _ sk]) auto
    ultimately show ?thesis
      using value_dispatch [of "0x7b" m fp "?w0 @ ?b @ ?ws @ 0x7d # c # r"] sk0 unfolding t n
      by (simp add: is_digit_def)
  qed
next
  case (8 fp fmt dep)
  then show ?case by simp
next
  case (9 fp fmt dep v vs)
  obtain e es' where e: "print_value fp fmt dep v = Some e" "print_items fp fmt dep vs = Some es'" "es = e # es'"
    using items_text [OF "9.prems"(1)] .
  let ?sep = "0x2c # (if fmt then [0x20] else [])"
  obtain m where n: "n = Suc m" using 9 by (cases n) auto
  show ?case
  proof (cases vs)
    case Nil
    then have es: "es' = []" using e(2) by simp
    have "parse_value m fp (e @ 0x5d # r) = Some (Inr (v, 0x5d # r))"
      using 9 n e es by (intro 9(1) [OF e(1)]) auto
    then show ?thesis using n e es Nil by simp
  next
    case (Cons v' vs')
    obtain e' es'' where e': "print_value fp fmt dep v' = Some e'" "es' = e' # es''"
      using items_text e(2) unfolding Cons by blast
    obtain h u where h: "e' = h # u" "opens h" using printed_head [OF e'(1)] 9 Cons by auto
    then obtain w where w: "join ?sep es' = h # w" using join_head e'(2) by metis
    have j: "join ?sep es = e @ ?sep @ join ?sep es'" by (simp add: e(3) e'(2))
    have "parse_value m fp (e @ 0x2c # (if fmt then [0x20] else []) @ join ?sep es' @ 0x5d # r) =
        Some (Inr (v, 0x2c # (if fmt then [0x20] else []) @ join ?sep es' @ 0x5d # r))"
      using 9 n e j by (intro 9(1) [OF e(1)]) auto
    moreover have "parse_items m fp (acc @ [v]) (join ?sep es' @ 0x5d # r) = Some (Inr ((acc @ [v]) @ vs, r))"
      using 9 n e j Cons by (intro 9(2) [OF e(1) e(2)]) auto
    moreover have "skip_space ((if fmt then [0x20] else []) @ join ?sep es' @ 0x5d # r) = Some (join ?sep es' @ 0x5d # r)"
      using opens_dark [OF h(2)] unfolding w by simp
    ultimately show ?thesis using n j by simp
  qed
next
  case (10 fp fmt dep)
  then show ?case by simp
next
  case (11 fp fmt dep k v ms)
  obtain e ps' where e: "print_value fp fmt dep v = Some e" "print_members fp fmt dep ms = Some ps'" "ps = (string_text k, e) # ps'"
    using members_text [OF "11.prems"(1)] .
  let ?sep = "0x2c # (if fmt then [0x0a] else [])" and ?t9 = "if fmt then [0x09] else []"
  let ?b = "\<lambda>ps. join ?sep (map (member_text fmt dep) ps)"
  obtain m where n: "n = Suc m" using 11 by (cases n) auto
  have key: "0 \<notin> set k" "plain v" "\<forall>m \<in> set ms. 0 \<notin> set (fst m) \<and> plain (snd m)" using 11 by auto
  obtain h u where h: "e = h # u" "opens h" using printed_head [OF e(1) key(2)] by blast
  define tail where "tail = (if ps' = [] then [] else ?sep @ ?b ps') @ ws @ 0x7d # r"
  have x: "x = string_text k @ 0x3a # ?t9 @ e @ tail"
    using "11.prems"(7) unfolding e(3) members_skip tail_def by simp
  have str: "parse_string x = Some (Inr (k, 0x3a # ?t9 @ e @ tail))"
    unfolding x by (rule parse_string_printed [OF key(1)])
  have sk: "skip_space (?t9 @ e @ tail) = Some (e @ tail)"
    using opens_dark [OF h(2)] skip_blank [of ?t9 "e @ tail"] unfolding h(1) by simp
  have len: "length e \<le> m" "ps' \<noteq> [] \<Longrightarrow> length (?b ps') < m"
  proof -
    have "Suc (length e) \<le> length (member_text fmt dep (string_text k, e))" by (simp add: member_text_def)
    then show "length e \<le> m" "ps' \<noteq> [] \<Longrightarrow> length (?b ps') < m"
      using "11.prems"(4) n unfolding e(3) by (auto simp: join_Cons)
  qed
  have "\<exists>c0 t0. tail = c0 # t0 \<and> c0 \<in> {0x2c, 0x0a, 0x7d}"
    using "11.prems"(6) by (cases "ps' = []"; cases ws) (auto simp: tail_def)
  then obtain c0 t0 where c0: "tail = c0 # t0" "ends_number v c0" by auto
  have val: "parse_value m fp (e @ tail) = Some (Inr (v, tail))"
    unfolding c0(1) using 11 len(1) c0(2) by (intro 11(1) [OF string_prints e(1)]) auto
  show ?case
  proof (cases ms)
    case Nil
    then have "tail = ws @ 0x7d # r" using e(2) by (simp add: tail_def)
    then have "skip_space tail = Some (0x7d # r)" using skip_blank [OF "11.prems"(5), of "0x7d # r"] by simp
    then show ?thesis using str sk val n Nil by simp
  next
    case (Cons kv ms')
    obtain e2 ps2 where e2: "ps' = (string_text (fst kv), e2) # ps2"
      using members_text e(2) unfolding Cons by (metis prod.collapse)
    then have tl: "tail = 0x2c # (if fmt then [0x0a] else []) @ ?b ps' @ ws @ 0x7d # r" by (simp add: tail_def)
    obtain y where y: "skip_space (?b ps' @ ws @ 0x7d # r) = Some y" unfolding e2 members_skip by blast
    have "skip_space ((if fmt then [0x0a] else []) @ ?b ps' @ ws @ 0x7d # r) = Some y"
      using skip_blank [of "if fmt then [0x0a] else []"] y by simp
    moreover have "parse_members m fp (macc @ [(k, v)]) y = Some (Inr ((macc @ [(k, v)]) @ ms, r))"
      using 11 e e2 Cons len(2) key(3) by (intro 11(2) [OF string_prints e(1) e(2) _ _ _ _ _ y]) (auto simp: string_prints)
    ultimately show ?thesis using str sk val n tl by simp
  qed
qed

section \<open>Printing and parsing\<close>

lemma sum_list_join: "length (join sep es) \<le> (\<Sum>e\<leftarrow>es. length e + length sep)"
proof (induction es)
  case (Cons e es)
  then show ?case by (cases es) auto
qed simp

lemma member_length: "length (member_text fmt dep ke) = length (snd ke) + length (fst ke) + 1 + (if fmt then 1 + dep else 0)"
  by (simp add: member_text_def tabs_def)

lemma array_fits: "length (array_text fmt es) < array_room fmt es"
proof -
  let ?sep = "0x2c # (if fmt then [0x20] else []) :: byte list"
  have "(\<Sum>e\<leftarrow>es. length e + length ?sep) \<le> (\<Sum>e\<leftarrow>es. length e + 2 + (if fmt then 1 else 0))"
    by (intro sum_list_mono) auto
  then show ?thesis using sum_list_join [of ?sep es] by (simp add: array_text_def array_room_def)
qed

lemma object_fits: "length (object_text fmt (Suc dep) es) < object_room fmt (Suc dep) es"
proof -
  let ?sep = "0x2c # (if fmt then [0x0a] else []) :: byte list"
  have "length (join ?sep (map (member_text fmt (Suc dep)) es))
      \<le> (\<Sum>x\<leftarrow>es. length (member_text fmt (Suc dep) x) + length ?sep)"
    using sum_list_join [of ?sep "map (member_text fmt (Suc dep)) es"] by (simp add: o_def)
  also have "\<dots> \<le> (\<Sum>(k, e)\<leftarrow>es. length e + length k + 2 + (if fmt then 2 + Suc dep else 0))"
    by (intro sum_list_mono) (auto simp: member_length)
  finally show ?thesis by (cases fmt) (simp_all add: object_text_def object_room_def tabs_def)
qed

lemma prints:
  shows "plain v \<Longrightarrow> print_value fp fmt dep v \<noteq> None"
    and "\<forall>v \<in> set vs. plain v \<Longrightarrow> print_items fp fmt dep vs \<noteq> None"
    and "\<forall>m \<in> set ms. 0 \<notin> set (fst m) \<and> plain (snd m) \<Longrightarrow> print_members fp fmt dep ms \<noteq> None"
proof (induction fp fmt dep v and fp fmt dep vs and fp fmt dep ms rule: print_value_print_items_print_members.induct)
  case (11 fp fmt dep k v ms)
  then show ?case by (force simp: string_prints)
qed (force simp: plain_number string_prints fit_Some fit_def array_fits object_fits tabs_def simp del: plain.simps(1))+

lemma parse_back:
  assumes "exact fp" "print_value fp fmt dep v = Some t" "plain v" "ends_number v c"
  shows "cJSON_ParseWithOpts fp (t @ c # r) False = Some (Inr (v, c # r))"
proof -
  obtain h u where h: "t = h # u" "opens h" using printed_head [OF assms(2,3)] by blast
  have "skip_space (t @ c # r) = Some (t @ c # r)" using opens_dark [OF h(2)] by (simp add: h(1))
  moreover have "parse_value (parse_fuel (t @ c # r)) fp (t @ c # r) = Some (Inr (v, c # r))"
    using assms by (intro parse_printed(1)) (simp_all add: parse_fuel_def)
  ultimately show ?thesis by (simp add: cJSON_ParseWithOpts_def)
qed

text \<open>C2: Every value the gateway builds is printed inside of the blocks the printer allocates, formatted or
  not, and the parser gives the same value back, whatever follows the text in its block.\<close>

theorem print_parse:
  assumes "exact fp" "plain v" "print = cJSON_Print \<or> print = cJSON_PrintUnformatted"
  shows "\<exists>t. print fp v = Some t \<and> cJSON_ParseWithOpts fp (t @ 0 # r) False = Some (Inr (v, 0 # r)) \<and>
    cJSON_Parse fp (t @ 0 # r) = Some (Some v)"
proof -
  obtain fmt where p: "print = (\<lambda>fp. print_value fp fmt 0)"
    using assms(3) cJSON_Print_def cJSON_PrintUnformatted_def by (metis ext)
  obtain t where t: "print_value fp fmt 0 v = Some t" using prints(1) [OF assms(2)] by blast
  have "ends_number v 0" by (simp add: ends_number_def numchar_def is_digit_def)
  from parse_back [OF assms(1) t assms(2) this] show ?thesis
    using t p by (auto simp: cJSON_Parse_def)
qed

section \<open>Minifying\<close>

lemma literal_escaped: "c \<noteq> 0 \<Longrightarrow> literal (escaped c @ t) = map_option (apfst ((@) (escaped c))) (literal t)"
  by (erule escaped_cases; cases "literal t") auto

lemma literal_printed: "0 \<notin> set s \<Longrightarrow>
    literal (concat (map escaped s) @ 0x22 # r) = Some (concat (map escaped s) @ [0x22], r)"
  by (induction s) (simp_all add: literal_escaped)

declare minify.simps [simp del]

lemma minify_string: "0 \<notin> set s \<Longrightarrow> minify o1 (string_text s @ r) = minify (o1 @ string_text s) r"
  using literal_printed [of s r] by (simp add: string_text_def minify.simps)

lemma minify_kept: "c \<notin> {0, 0x20, 0x09, 0x0d, 0x0a, 0x2f, 0x22} \<Longrightarrow> minify o1 (c # r) = minify (o1 @ [c]) r"
  by (simp add: minify.simps)

lemma minify_word: "\<forall>c \<in> set w. c \<notin> {0, 0x20, 0x09, 0x0d, 0x0a, 0x2f, 0x22} \<Longrightarrow> minify o1 (w @ r) = minify (o1 @ w) r"
  by (induction w arbitrary: o1) (simp_all add: minify_kept)

lemma minify_blank: "\<forall>c \<in> set w. c \<in> {0x20, 0x09, 0x0d, 0x0a} \<Longrightarrow> minify o1 (w @ r) = minify o1 r"
  by (induction w) (auto simp: minify.simps)

lemma minify_number: "minify o1 (dec_int i @ r) = minify (o1 @ dec_int i) r"
proof (rule minify_word)
  have "is_digit c \<Longrightarrow> c \<notin> {0, 0x20, 0x09, 0x0d, 0x0a, 0x2f, 0x22}" for c by (auto simp: is_digit_def)
  then show "\<forall>c \<in> set (dec_int i). c \<notin> {0, 0x20, 0x09, 0x0d, 0x0a, 0x2f, 0x22}"
    using dec_nat_value by (auto simp: dec_int_def)
qed

lemma minify_tabs: "minify o1 (tabs n @ r) = minify o1 r"
  by (rule minify_blank) (simp add: tabs_def)

lemma minify_printed:
  shows "print_value fp fmt dep v = Some t \<Longrightarrow> print_value fp False dep' v = Some u \<Longrightarrow> plain v \<Longrightarrow>
      minify o1 (t @ r) = minify (o1 @ u) r"
    and "print_items fp fmt dep vs = Some es \<Longrightarrow> print_items fp False dep' vs = Some us \<Longrightarrow> \<forall>v \<in> set vs. plain v \<Longrightarrow>
      minify o1 (join (0x2c # (if fmt then [0x20] else [])) es @ r) = minify (o1 @ join [0x2c] us) r"
    and "print_members fp fmt dep ms = Some ps \<Longrightarrow> print_members fp False dep' ms = Some qs \<Longrightarrow>
      \<forall>m \<in> set ms. 0 \<notin> set (fst m) \<and> plain (snd m) \<Longrightarrow>
      minify o1 (join (0x2c # (if fmt then [0x0a] else [])) (map (member_text fmt dep) ps) @ r)
        = minify (o1 @ join [0x2c] (map (member_text False dep') qs)) r"
proof (induction fp fmt dep v and fp fmt dep vs and fp fmt dep ms arbitrary: t u dep' o1 r and es us dep' o1 r and ps qs dep' o1 r
    rule: print_value_print_items_print_members.induct)
  case (4 fp fmt dep i d)
  then show ?case using minify_number [of o1 i r] by (simp add: plain_number del: plain.simps)
next
  case (6 fp fmt dep vs)
  show ?case
  proof (cases "vs = []")
    case True
    then show ?thesis using 6 by (simp add: fit_Some minify_kept)
  next
    case False
    then obtain es us where e: "print_items fp fmt (dep + 1) vs = Some es" "t = array_text fmt es"
        "print_items fp False (dep' + 1) vs = Some us" "u = array_text False us"
      using 6 by (auto simp: fit_Some split: bind_splits)
    then show ?thesis using 6(1) [OF False e(1,3), of "o1 @ [0x5b]" "0x5d # r"] 6(4)
      by (simp add: array_text_def minify_kept)
  qed
next
  case (7 fp fmt dep ms)
  show ?case
  proof (cases "ms = []")
    case True
    then show ?thesis using 7 minify_blank [of "0x0a # tabs (dep - 1)"]
      by (auto simp: fit_Some minify_kept minify_tabs minify_blank [of "[0x0a]", simplified])
  next
    case False
    then obtain ps qs where e: "print_members fp fmt (dep + 1) ms = Some ps" "t = object_text fmt (dep + 1) ps"
        "print_members fp False (dep' + 1) ms = Some qs" "u = object_text False (dep' + 1) qs"
      using 7 by (auto simp: fit_Some split: bind_splits)
    then show ?thesis using 7(1) [OF False e(1,3), of "o1 @ [0x7b]"] 7(4)
      by (cases fmt) (simp_all add: object_text_def minify_kept minify_tabs minify_blank [of "[0x0a]", simplified])
  qed
next
  case (9 fp fmt dep v vs)
  obtain e es' where e: "print_value fp fmt dep v = Some e" "print_items fp fmt dep vs = Some es'" "es = e # es'"
    using items_text [OF "9.prems"(1)] .
  obtain f us' where f: "print_value fp False dep' v = Some f" "print_items fp False dep' vs = Some us'" "us = f # us'"
    using items_text [OF "9.prems"(2)] .
  have n: "es' = [] \<longleftrightarrow> us' = []" using e(2) f(2) by (cases vs) (auto split: bind_splits)
  show ?case
    using 9(1) [OF e(1) f(1)] 9(2) [OF e(1,2) f(2)] 9(5) n unfolding e(3) f(3)
    by (cases fmt) (simp_all add: join_Cons minify_kept minify_blank [of "[0x20]", simplified])
next
  case (11 fp fmt dep k v ms)
  obtain e ps' where e: "print_value fp fmt dep v = Some e" "print_members fp fmt dep ms = Some ps'" "ps = (string_text k, e) # ps'"
    using members_text [OF "11.prems"(1)] .
  obtain f qs' where f: "print_value fp False dep' v = Some f" "print_members fp False dep' ms = Some qs'" "qs = (string_text k, f) # qs'"
    using members_text [OF "11.prems"(2)] .
  have n: "ps' = [] \<longleftrightarrow> qs' = []" using e(2) f(2) by (cases ms) (auto split: bind_splits)
  show ?case
    using 11(1) [OF string_prints e(1) f(1)] 11(2) [OF string_prints e(1,2) f(2)] 11(5) n unfolding e(3) f(3)
    by (cases fmt) (simp_all add: join_Cons member_text_def minify_kept minify_tabs minify_string
        minify_blank [of "[0x0a]", simplified] minify_blank [of "[0x09]", simplified])
qed (auto simp: string_prints minify_string minify_kept bytes_def)

text \<open>The minifier turns the formatted text of a value into its unformatted text, and leaves the
  unformatted text as it is.\<close>

theorem minify_formatted:
  assumes "plain v" "cJSON_PrintUnformatted fp v = Some u" "cJSON_Print fp v = Some t \<or> t = u"
  shows "cJSON_Minify (t @ 0 # r) = Some u"
proof -
  obtain fmt where "print_value fp fmt 0 v = Some t"
    using assms(2,3) unfolding cJSON_Print_def cJSON_PrintUnformatted_def by blast
  then have "minify [] (t @ 0 # r) = minify ([] @ u) (0 # r)"
    using assms(1,2) unfolding cJSON_PrintUnformatted_def by (intro minify_printed(1))
  then show ?thesis by (simp add: cJSON_Minify_def minify.simps)
qed

section \<open>Several objects in one text\<close>

text \<open>The scanner of \<open>cjson_list.c\<close> passes over a printed value whose strings hold no quote.\<close>

fun quoteless :: "cjson \<Rightarrow> bool" where
  "quoteless (CString s) = (0x22 \<notin> set s)"
| "quoteless (CArray vs) = (\<forall>v \<in> set vs. quoteless v)"
| "quoteless (CObject ms) = (\<forall>m \<in> set ms. 0x22 \<notin> set (fst m) \<and> quoteless (snd m))"
| "quoteless _ = True"

definition neutral :: "byte list \<Rightarrow> bool" where
  "neutral w = (\<forall>c \<in> set w. c \<notin> {0x22, 0x7b, 0x7d})"

lemma skip_neutral: "neutral w \<Longrightarrow> skip_object (Suc n) False (w @ r) = skip_object (Suc n) False r"
  by (induction w) (auto simp: neutral_def)

lemma skip_quoted: "0x22 \<notin> set w \<Longrightarrow> skip_object (Suc n) True (w @ r) = skip_object (Suc n) True r"
  by (induction w) auto

lemma escaped_quoteless: "c \<noteq> 0 \<Longrightarrow> c \<noteq> 0x22 \<Longrightarrow> 0x22 \<notin> set (escaped c)"
  using control_code [of c] by (auto simp: escaped_def word_less_nat_alt word_le_nat_alt)

lemma skip_string:
  assumes "0 \<notin> set s" "0x22 \<notin> set s"
  shows "skip_object (Suc n) False (string_text s @ r) = skip_object (Suc n) False r"
proof -
  have "0x22 \<notin> set (concat (map escaped s))" using assms escaped_quoteless by (induction s) auto
  from skip_quoted [OF this] show ?thesis by (simp add: string_text_def)
qed

lemma neutral_simps [simp]: "neutral []" "neutral (c # w) \<longleftrightarrow> c \<notin> {0x22, 0x7b, 0x7d} \<and> neutral w" "neutral (tabs k)"
  by (auto simp: neutral_def tabs_def)

lemma skip_step [simp]: "c \<notin> {0x22, 0x7b, 0x7d} \<Longrightarrow> skip_object (Suc n) False (c # r) = skip_object (Suc n) False r"
  by simp

lemma neutral_number: "neutral (dec_int i)"
proof -
  have "is_digit c \<Longrightarrow> c \<notin> {0x22, 0x7b, 0x7d}" for c by (auto simp: is_digit_def)
  then show ?thesis using dec_nat_value by (auto simp: dec_int_def neutral_def)
qed

lemma skip_printed:
  shows "print_value fp fmt dep v = Some t \<Longrightarrow> plain v \<Longrightarrow> quoteless v \<Longrightarrow>
      skip_object (Suc n) False (t @ r) = skip_object (Suc n) False r"
    and "print_items fp fmt dep vs = Some es \<Longrightarrow> \<forall>v \<in> set vs. plain v \<and> quoteless v \<Longrightarrow>
      skip_object (Suc n) False (join (0x2c # (if fmt then [0x20] else [])) es @ r) = skip_object (Suc n) False r"
    and "print_members fp fmt dep ms = Some ps \<Longrightarrow>
      \<forall>m \<in> set ms. 0 \<notin> set (fst m) \<and> 0x22 \<notin> set (fst m) \<and> plain (snd m) \<and> quoteless (snd m) \<Longrightarrow>
      skip_object (Suc n) False (join (0x2c # (if fmt then [0x0a] else [])) (map (member_text fmt dep) ps) @ r)
        = skip_object (Suc n) False r"
proof (induction fp fmt dep v and fp fmt dep vs and fp fmt dep ms arbitrary: t n r and es n r and ps n r
    rule: print_value_print_items_print_members.induct)
  case (4 fp fmt dep i d)
  then show ?case using skip_neutral [OF neutral_number, of n i r] by (simp add: plain_number del: plain.simps)
next
  case (6 fp fmt dep vs)
  show ?case
  proof (cases "vs = []")
    case False
    then obtain es where e: "print_items fp fmt (dep + 1) vs = Some es" "t = array_text fmt es"
      using 6 by (auto simp: fit_Some split: bind_splits)
    then show ?thesis using 6(1) [OF False e(1)] 6(3,4) by (simp add: array_text_def)
  qed (use 6 in \<open>simp add: fit_Some\<close>)
next
  case (7 fp fmt dep ms)
  show ?case
  proof (cases "ms = []")
    case True
    then show ?thesis using 7 skip_neutral [of "tabs (dep - 1)"] by (auto simp: fit_Some)
  next
    case False
    then obtain ps where e: "print_members fp fmt (dep + 1) ms = Some ps" "t = object_text fmt (dep + 1) ps"
      using 7 by (auto simp: fit_Some split: bind_splits)
    then show ?thesis using 7(1) [OF False e(1)] 7(3,4) skip_neutral [of "tabs dep"]
      by (cases fmt) (simp_all add: object_text_def)
  qed
next
  case (9 fp fmt dep v vs)
  obtain e es' where e: "print_value fp fmt dep v = Some e" "print_items fp fmt dep vs = Some es'" "es = e # es'"
    using items_text [OF "9.prems"(1)] .
  show ?case using 9(1) [OF e(1)] 9(2) [OF e(1,2)] 9(4) unfolding e(3)
    by (cases fmt) (simp_all add: join_Cons)
next
  case (11 fp fmt dep k v ms)
  obtain e ps' where e: "print_value fp fmt dep v = Some e" "print_members fp fmt dep ms = Some ps'" "ps = (string_text k, e) # ps'"
    using members_text [OF "11.prems"(1)] .
  show ?case using 11(1) [OF string_prints e(1)] 11(2) [OF string_prints e(1,2)] 11(4) skip_neutral [of "tabs dep"] unfolding e(3)
    by (cases fmt) (simp_all add: join_Cons member_text_def skip_string)
qed (auto simp: string_prints skip_string bytes_def)

text \<open>The parser as \<open>get_json_list\<close> calls it on a text with its terminator.\<close>

definition read_text :: "doubles \<Rightarrow> byte list \<Rightarrow> json option" where
  "read_text fp s = (case cJSON_Parse fp (s @ [0]) of Some (Some v) \<Rightarrow> Some (to_json v) | _ \<Rightarrow> None)"

lemma parse_value_empty: "parse_value (Suc n) fp [0] = Some (Inl [0])"
  by (simp add: parse_value.simps bytes_def is_digit_def)

lemma read_text_empty: "read_text fp [] = None"
  using parse_value_empty [of 3 fp]
  by (simp add: read_text_def cJSON_Parse_def cJSON_ParseWithOpts_def parse_fuel_def)

lemma printed_object_cut:
  assumes "cJSON_PrintUnformatted fp (CObject ms) = Some t" "plain (CObject ms)" "quoteless (CObject ms)"
  shows "next_json t = Some []"
proof -
  obtain u where u: "t = 0x7b # u" "skip_object (Suc 0) False u = skip_object (Suc 0) False (0x7d # [])"
  proof (cases "ms = []")
    case True
    then show ?thesis using assms that by (simp add: cJSON_PrintUnformatted_def fit_Some)
  next
    case False
    then obtain ps where p: "print_members fp False 1 ms = Some ps" "t = object_text False 1 ps"
      using assms(1) by (auto simp: cJSON_PrintUnformatted_def fit_Some split: bind_splits)
    then show ?thesis
      using skip_printed(3) [OF p(1), of 0 "[0x7d]"] assms(2,3) that by (simp add: object_text_def)
  qed
  then show ?thesis by (simp add: next_json_def)
qed

text \<open>The library as the scanner uses it.\<close>

interpretation cjson_texts: object_texts "read_text fp" "cJSON_PrintUnformatted fp" to_json
  "\<lambda>v. exact fp \<and> (\<exists>ms. v = CObject ms) \<and> plain v \<and> quoteless v"
proof
  fix v assume v: "exact fp \<and> (\<exists>ms. v = CObject ms) \<and> plain v \<and> quoteless v"
  then obtain ms t where t: "v = CObject ms" "cJSON_PrintUnformatted fp v = Some t"
    using prints(1) [of v fp False 0] by (auto simp: cJSON_PrintUnformatted_def)
  have "read_text fp (t @ r) = Some (to_json v)" for r
  proof -
    obtain c r' where c: "r @ [0] = c # r'" by (cases r) auto
    have "cJSON_ParseWithOpts fp (t @ c # r') False = Some (Inr (v, c # r'))"
      using t v by (intro parse_back [of fp False]) (simp_all add: cJSON_PrintUnformatted_def ends_number_def)
    then show ?thesis unfolding read_text_def cJSON_Parse_def append_assoc c by simp
  qed
  then show "\<exists>t. cJSON_PrintUnformatted fp v = Some t \<and> next_json t = Some [] \<and> (\<forall>r. read_text fp (t @ r) = Some (to_json v))"
    using printed_object_cut [of fp ms t] t v by auto
qed (rule read_text_empty)

text \<open>C20: Objects that are printed one behind the other, as the links send them, come back as the list of
  their values, as long as no string of them holds a quote.\<close>

theorem printed_list_read:
  assumes "exact fp" "vs \<noteq> []" "\<forall>v \<in> set vs. (\<exists>ms. v = CObject ms) \<and> plain v \<and> quoteless v"
  shows "\<exists>ts. map (cJSON_PrintUnformatted fp) vs = map Some ts \<and> get_json_list (read_text fp) (concat ts) = (0, map to_json vs)"
  using assms by (intro cjson_texts.texts_listed) auto

text \<open>A value the gateway builds from its own numbers and texts is read back as it was.\<close>

fun clean_json :: "json \<Rightarrow> bool" where
  "clean_json (JNumber i) = (- (2 ^ 31) \<le> i \<and> i < 2 ^ 31)"
| "clean_json (JString s) = (0 \<notin> set s)"
| "clean_json (JArray vs) = (\<forall>v \<in> set vs. clean_json v)"
| "clean_json (JObject ms) = (\<forall>m \<in> set ms. 0 \<notin> set (fst m) \<and> clean_json (snd m))"
| "clean_json _ = True"

lemma of_json_plain: "clean_json v \<Longrightarrow> plain (of_json v)"
  by (induction v rule: of_json.induct) (auto split: prod.splits)

lemma to_of_json: "to_json (of_json v) = v"
  by (induction v rule: of_json.induct) (auto simp: comp_def split: prod.splits intro!: map_idI)

lemma built_value_read:
  assumes "exact fp" "clean_json v"
  shows "\<exists>t. cJSON_PrintUnformatted fp (of_json v) = Some t \<and> read_text fp t = Some v"
proof -
  obtain t where t: "cJSON_PrintUnformatted fp (of_json v) = Some t"
    using prints(1) [OF of_json_plain [OF assms(2)], of fp False 0] by (auto simp: cJSON_PrintUnformatted_def)
  have "cJSON_ParseWithOpts fp (t @ 0 # []) False = Some (Inr (of_json v, 0 # []))"
    using t of_json_plain [OF assms(2)]
    by (intro parse_back [OF assms(1), of False]) (simp_all add: cJSON_PrintUnformatted_def ends_number_def numchar_def is_digit_def)
  then show ?thesis using t by (simp add: read_text_def cJSON_Parse_def to_of_json)
qed

section \<open>Examples\<close>

text \<open>Doubles without rounding.\<close>

definition ex_doubles :: doubles where
  "ex_doubles = \<lparr>rounded = Some, pow10 = (\<lambda>k. Some (if k \<ge> 0 then 10 ^ nat k else 1 / 10 ^ nat (- k))),
     fmt_f0 = (\<lambda>_. []), fmt_e = (\<lambda>_. []), fmt_f = (\<lambda>_. [])\<rparr>"

definition ex_value :: cjson where
  "ex_value = CObject [(bytes ''vol'', CNumber 7 7), (bytes ''name'', CString [0x61, 0x0a, 1]), (bytes ''on'', CArray [CTrue, CNull])]"

lemma ex_exact: "exact ex_doubles"
  by (simp add: exact_def ex_doubles_def)

lemma ex_value_ok: "plain ex_value" "quoteless ex_value"
  by (simp_all add: ex_value_def bytes_def)

lemma print_parse_witness: "\<exists>t. cJSON_Print ex_doubles ex_value = Some t \<and> cJSON_Parse ex_doubles (t @ [0]) = Some (Some ex_value)"
  using print_parse [OF ex_exact ex_value_ok(1), of cJSON_Print "[]"] by blast

lemma minify_formatted_witness: "cJSON_Minify ([0x7b, 0x0a, 0x7d] @ 0 # [0x20]) = Some (bytes ''{}'')"
  by (rule minify_formatted [of "CObject []" ex_doubles])
    (simp_all add: cJSON_PrintUnformatted_def cJSON_Print_def fit_def bytes_def tabs_def)

lemma printed_list_read_witness:
  "\<exists>ts. map (cJSON_PrintUnformatted ex_doubles) [ex_value, CObject []] = map Some ts \<and>
    get_json_list (read_text ex_doubles) (concat ts) = (0, map to_json [ex_value, CObject []])"
  by (rule printed_list_read [OF ex_exact]) (use ex_value_ok in \<open>simp_all add: ex_value_def\<close>)

end
