(* ===== verification/Cjson_Reader.thy ===== *)
theory Cjson_Reader
  imports Cjson
begin

text \<open>
  The reader of the JSON library: its recursion ends on every text, and when its string reader
  stays inside of its two blocks, the text and the copy it allocates.
\<close>

section \<open>The parser ends\<close>

lemma skip_space_length: "skip_space s = Some v \<Longrightarrow> length v \<le> length s"
  by (induction s) (auto split: if_splits)

lemma copy_loop_length: "copy_loop cap o1 s = Some (o2, r) \<Longrightarrow> length r \<le> length s"
proof (induction cap o1 s rule: copy_loop.induct)
  case (2 cap o1 c cs)
  then show ?case
    by (subst (asm) copy_loop.simps) (fastforce dest: unescape_length split: if_splits list.splits option.splits)
qed (simp add: copy_loop.simps)

lemma parse_string_length: "parse_string s = Some (Inr (k, r)) \<Longrightarrow> length r < length s"
  by (cases s) (auto simp: parse_string_def deref_def dest!: copy_loop_length split: if_splits bind_splits list.splits)

lemma num_digits_length: "num_digits fp n k s = Some (m, j, r) \<Longrightarrow> length r \<le> length s"
  by (induction fp n k s rule: num_digits.induct) (fastforce split: if_splits bind_splits)+

lemma exp_digits_length: "exp_digits n s = Some (m, r) \<Longrightarrow> length r \<le> length s"
  by (induction n s rule: exp_digits.induct) (fastforce split: if_splits bind_splits)+

lemma parse_lead_length: "parse_lead fp s = Some (n, r) \<Longrightarrow> length r \<le> length s"
  by (auto simp: parse_lead_def Let_def dest!: num_digits_length split: if_splits bind_splits)

lemma parse_lead_digit: "parse_lead fp (c # s) = Some (n, r) \<Longrightarrow> is_digit c \<Longrightarrow> length r \<le> length s"
proof -
  assume a: "parse_lead fp (c # s) = Some (n, r)" "is_digit c"
  show ?thesis
  proof (cases "c = 0x30")
    case True
    then show ?thesis using a(1) by (auto simp: parse_lead_def Let_def dest!: num_digits_length split: if_splits bind_splits)
  next
    case False
    then have "0x30 < c" using a(2) by (simp add: is_digit_def order.strict_iff_order)
    then have "0x30 + 1 \<le> c" by (rule inc_le)
    then have "0x31 \<le> c \<and> c \<le> 0x39" using a(2) by (simp add: is_digit_def)
    then obtain m k where "num_digits fp 0 0 (c # s) = Some (m, k, r)"
      using a(1) False by (auto simp: parse_lead_def Let_def split: bind_splits)
    then show ?thesis using a(2) num_digits_length by (auto split: bind_splits)
  qed
qed

lemma parse_frac_length: "parse_frac fp n s = Some (m, k, r) \<Longrightarrow> length r \<le> length s"
  by (auto simp: parse_frac_def dest!: num_digits_length split: if_splits bind_splits)

lemma parse_exp_length: "parse_exp s = Some (m, r) \<Longrightarrow> length r \<le> length s"
  by (auto simp: parse_exp_def dest!: exp_digits_length split: if_splits bind_splits)

lemma parse_number_length:
  assumes "parse_number fp (c # s) = Some (j, r)" "c = 0x2d \<or> is_digit c"
  shows "length r \<le> length s"
proof -
  obtain n s3 n1 k s4 m where p: "parse_lead fp (if c = 0x2d then s else c # s) = Some (n, s3)"
      "parse_frac fp n s3 = Some (n1, k, s4)" "parse_exp s4 = Some (m, r)"
    using assms(1) by (auto simp: parse_number_def deref_def split: bind_splits if_splits)
  have "length s3 \<le> length s"
    using p(1) assms(2) parse_lead_length [of fp s] parse_lead_digit [of fp c s] by (auto split: if_splits)
  with parse_frac_length [OF p(2)] parse_exp_length [OF p(3)] show ?thesis by simp
qed

lemma lit_at_length: "lit_at xs s = Some True \<Longrightarrow> length xs \<le> length s"
  by (induction xs s rule: lit_at.induct) (auto split: if_splits)

lemma wrapped [simp]: "map_option (map_sum id (apfst f)) x = Some (Inr (j, r)) \<longleftrightarrow> (\<exists>v. x = Some (Inr (v, r)) \<and> j = f v)"
proof (cases x)
  case (Some y)
  then show ?thesis by (cases y) auto
qed simp

lemma wrapped_number: "map_option Inr x = Some (Inr y) \<longleftrightarrow> x = Some y"
  by (cases x) auto

lemma parse_length_all:
  "(\<forall>s j r. parse_value n fp s = Some (Inr (j, r)) \<longrightarrow> length r < length s) \<and>
   (\<forall>acc s vs r. parse_items n fp acc s = Some (Inr (vs, r)) \<longrightarrow> length r < length s) \<and>
   (\<forall>acc s ms r. parse_members n fp acc s = Some (Inr (ms, r)) \<longrightarrow> length r < length s)"
proof (induction n)
  case (Suc n)
  have val: "parse_value n fp s = Some (Inr (j, r)) \<Longrightarrow> length r < length s"
    and items: "parse_items n fp acc s = Some (Inr (vs, r)) \<Longrightarrow> length r < length s"
    and members: "parse_members n fp macc s = Some (Inr (ms, r)) \<Longrightarrow> length r < length s" for s j r acc vs macc ms
    using Suc by blast+
  have "length r < length s" if p: "parse_value (Suc n) fp s = Some (Inr (j, r))" for s j r
  proof (cases s)
    case (Cons c t)
    consider (lit) "length r < length s"
      | (str) k where "parse_string s = Some (Inr (k, r))"
      | (num) "c = 0x2d \<or> is_digit c" "parse_number fp (c # t) = Some (j, r)"
      | (inner) v where "skip_space (drop 1 s) = Some v" "(\<exists>vs. parse_items n fp [] v = Some (Inr (vs, r))) \<or>
          (\<exists>ms. parse_members n fp [] v = Some (Inr (ms, r))) \<or> (v \<noteq> [] \<and> r = drop 1 v)"
      using p Cons lit_at_length [of "bytes ''null''" s] lit_at_length [of "bytes ''false''" s] lit_at_length [of "bytes ''true''" s]
      by (auto simp: bytes_def deref_def wrapped_number simp del: map_option_eq_Some split: bind_splits if_splits list.splits)
    then show ?thesis
    proof cases
      case str
      then show ?thesis by (rule parse_string_length)
    next
      case num
      then show ?thesis using parse_number_length Cons by fastforce
    next
      case inner
      then have "length r < length v" using items members by auto
      then show ?thesis using skip_space_length [OF inner(1)] Cons by simp
    qed auto
  qed (use p in \<open>simp add: bytes_def\<close>)
  moreover have "length r < length s" if p: "parse_items (Suc n) fp acc s = Some (Inr (vs, r))" for acc s vs r
  proof -
    obtain j s1 w where v: "parse_value n fp s = Some (Inr (j, s1))" "skip_space s1 = Some w" "w \<noteq> []"
      and w: "(\<exists>v. skip_space (drop 1 w) = Some v \<and> parse_items n fp (acc @ [j]) v = Some (Inr (vs, r))) \<or> r = drop 1 w"
      using p by (auto simp: deref_def split: bind_splits sum.splits if_splits list.splits)
    have "length w < length s" using val [OF v(1)] skip_space_length [OF v(2)] by simp
    then show ?thesis using w items skip_space_length by fastforce
  qed
  moreover have "length r < length s" if p: "parse_members (Suc n) fp acc s = Some (Inr (ms, r))" for acc s ms r
  proof -
    obtain k s1 w v j s2 x where k: "parse_string s = Some (Inr (k, s1))" "skip_space s1 = Some w"
        "skip_space (drop 1 w) = Some v" and j: "parse_value n fp v = Some (Inr (j, s2))" "skip_space s2 = Some x" "x \<noteq> []"
      and w: "(\<exists>y. skip_space (drop 1 x) = Some y \<and> parse_members n fp (acc @ [(k, j)]) y = Some (Inr (ms, r))) \<or> r = drop 1 x"
      using p by (auto simp: deref_def split: bind_splits sum.splits if_splits list.splits)
    have "length x < length s"
      using val [OF j(1)] parse_string_length [OF k(1)] skip_space_length [OF k(2)] skip_space_length [OF k(3)]
        skip_space_length [OF j(2)] by simp
    then show ?thesis using w members skip_space_length by fastforce
  qed
  ultimately show ?case by blast
qed simp

lemma parse_length: "parse_value n fp s = Some (Inr (j, r)) \<Longrightarrow> length r < length s"
  using parse_length_all by blast

lemma more_fuel:
  "(\<forall>s. 2 * length s < n \<longrightarrow> parse_value n fp s = parse_value (Suc n) fp s) \<and>
   (\<forall>acc s. 2 * length s + 1 < n \<longrightarrow> parse_items n fp acc s = parse_items (Suc n) fp acc s) \<and>
   (\<forall>acc s. 2 * length s + 1 < n \<longrightarrow> parse_members n fp acc s = parse_members (Suc n) fp acc s)"
proof (induction n)
  case (Suc n)
  have items: "2 * length v + 1 < n \<Longrightarrow> parse_items n fp acc v = parse_items (Suc n) fp acc v"
    and members: "2 * length v + 1 < n \<Longrightarrow> parse_members n fp macc v = parse_members (Suc n) fp macc v"
    and val: "2 * length v < n \<Longrightarrow> parse_value n fp v = parse_value (Suc n) fp v" for acc macc v
    using Suc by blast+
  have "parse_value (Suc n) fp s = parse_value (Suc (Suc n)) fp s" if l: "2 * length s < Suc n" for s
  proof (cases "skip_space (drop 1 s)")
    case None
    then show ?thesis by (simp only: parse_value.simps(2) Option.bind.bind_lzero)
  next
    case (Some v)
    then have "s \<noteq> []" by auto
    then have "2 * length v + 1 < n" using skip_space_length [OF Some] l by (cases s) auto
    then show ?thesis using Some items [of v "[]"] members [of v "[]"] by (simp only: parse_value.simps(2) Option.bind.bind_lunit)
  qed
  moreover have "parse_items (Suc n) fp acc s = parse_items (Suc (Suc n)) fp acc s" if l: "2 * length s + 1 < Suc n" for acc s
  proof -
    have v: "parse_value n fp s = parse_value (Suc n) fp s" using l by (intro val) simp
    have "parse_items n fp acc u = parse_items (Suc n) fp acc u"
      if "parse_value (Suc n) fp s = Some (Inr (j, s1))" "skip_space s1 = Some w" "w \<noteq> []" "skip_space (drop 1 w) = Some u" for j s1 w u acc
      using parse_length [OF that(1)] skip_space_length [OF that(2)] skip_space_length [OF that(4)] that(3) l
      by (intro items) (cases w; simp)
    then show ?thesis
      unfolding parse_items.simps(2) v
      by (intro Option.bind_cong refl) (auto simp: deref_def split: sum.splits list.splits intro!: Option.bind_cong)
  qed
  moreover have "parse_members (Suc n) fp acc s = parse_members (Suc (Suc n)) fp acc s" if l: "2 * length s + 1 < Suc n" for acc s
  proof -
    have lv: "length v < length s" if "parse_string s = Some (Inr (k, s1))" "skip_space s1 = Some (c # w)" "skip_space w = Some v"
      for k s1 c w v
      using parse_string_length [OF that(1)] skip_space_length [OF that(2)] skip_space_length [OF that(3)] by simp
    then have v: "parse_value n fp v = parse_value (Suc n) fp v"
      if "parse_string s = Some (Inr (k, s1))" "skip_space s1 = Some (c # w)" "skip_space w = Some v" for k s1 c w v
      using l lv [OF that] by (intro val) simp
    have m: "parse_members n fp acc y = parse_members (Suc n) fp acc y"
      if "parse_string s = Some (Inr (k, s1))" "skip_space s1 = Some (c # w)" "skip_space w = Some v"
        "parse_value (Suc n) fp v = Some (Inr (j, s2))" "skip_space s2 = Some (d # x)" "skip_space x = Some y" for k s1 c w v j s2 d x y acc
      using lv [OF that(1-3)] parse_length [OF that(4)] skip_space_length [OF that(5)] skip_space_length [OF that(6)] l
      by (intro members) simp
    show ?thesis
      by (subst parse_members.simps(2), subst parse_members.simps(2), intro Option.bind_cong refl)
        (auto simp: deref_def simp del: parse_value.simps parse_members.simps split: sum.splits list.splits
          intro!: Option.bind_cong; (rule v, assumption+ | rule m, assumption+))
  qed
  ultimately show ?case by blast
qed simp


section \<open>The string reader\<close>

lemma copy_end: "c = 0x22 \<or> c = 0 \<Longrightarrow> copy_loop cap o1 (c # cs) = (if length o1 < cap then Some (o1, c # cs) else None)"
  by (simp only: copy_loop.simps(2)) simp

lemma copy_char: "c \<notin> {0, 0x22, 0x5c} \<Longrightarrow>
    copy_loop cap o1 (c # cs) = (if length o1 < cap then copy_loop cap (o1 @ [c]) cs else None)"
  by (simp only: copy_loop.simps(2)) simp

lemma copy_escape: "copy_loop cap o1 (0x5c # e # es) =
    (case unescape e es of None \<Rightarrow> None
     | Some (bs, rest) \<Rightarrow> if length o1 + length bs \<le> cap then copy_loop cap (o1 @ bs) rest else None)"
  by (simp only: copy_loop.simps(2)) simp

lemma copy_cut: "copy_loop cap o1 [0x5c] = None"
  by (simp only: copy_loop.simps(2)) simp

text \<open>A copy that fills its block has no room for the terminator.\<close>

lemma copy_full: "cap \<le> length o1 \<Longrightarrow> copy_loop cap o1 s = None"
proof (induction "length s" arbitrary: o1 s rule: less_induct)
  case less
  show ?case
  proof (cases s)
    case (Cons c cs)
    consider "c = 0x22 \<or> c = 0" | "c \<notin> {0, 0x22, 0x5c}" | "c = 0x5c" "cs = []" | e es where "c = 0x5c" "cs = e # es"
      by (cases cs) auto
    then show ?thesis
    proof cases
      case (4 e es)
      have "copy_loop cap (o1 @ bs) rest = None" if "unescape e es = Some (bs, rest)" for bs rest
        using less.prems unescape_length [OF that] Cons 4 by (intro less.hyps) auto
      then show ?thesis using Cons 4 by (simp add: copy_escape split: option.splits)
    qed (use less.prems Cons in \<open>simp_all add: copy_end copy_char copy_cut\<close>)
  qed (simp add: copy_loop.simps(1))
qed

text \<open>C9: A code that the closing quote of its string cuts short makes the reader leave its block: the block
  is sized for the text up to the quote, but the reader skips four bytes, the quote among them,
  and copies what follows. A backslash at the end of the text makes it read behind the
  terminator. Both come from texts that anybody on the network can send.\<close>

theorem short_code_overruns:
  assumes "x \<notin> {0, 0x22, 0x5c}" "y \<notin> {0, 0x22, 0x5c}"
  shows "parse_string ([0x22, 0x5c, 0x75, 0x22, a, b, c, x, y] @ r) = None \<and> parse_string [0x22, 0x5c, 0] = None"
proof
  have "hex_nibble 0x22 = None" by (simp add: hex_nibble_def)
  then have "parse_hex4 (0x22 # t) = Some 0" for t by (simp add: parse_hex4_def numeral_eq_Suc)
  then have u: "unescape 0x75 ([0x22, a, b, c, x, y] @ r) = Some ([], [x, y] @ r)" by (simp add: unescape_def Let_def)
  then have "copy_loop 2 [] ([0x5c, 0x75, 0x22, a, b, c, x, y] @ r) = copy_loop 2 [] ([x, y] @ r)"
    using copy_escape [of 2 "[]" "0x75" "[0x22, a, b, c, x, y] @ r"] by simp
  also have "\<dots> = copy_loop 2 [x] (y # r)" using assms copy_char [of x 2 "[]" "y # r"] by simp
  also have "\<dots> = copy_loop 2 [x, y] r" using assms copy_char [of y 2 "[x]" r] by simp
  also have "\<dots> = None" by (rule copy_full) simp
  finally have "copy_loop (1 + 1) [] ([0x5c, 0x75, 0x22, a, b, c, x, y] @ r) = None" by (simp only: one_add_one)
  moreover have "str_len ([0x5c, 0x75, 0x22, a, b, c, x, y] @ r) = Some 1" by (simp add: str_len.simps)
  ultimately show "parse_string ([0x22, 0x5c, 0x75, 0x22, a, b, c, x, y] @ r) = None"
    by (simp add: parse_string_def)
  show "parse_string [0x22, 0x5c, 0] = None" by (simp add: parse_string_def str_len.simps)
qed

text \<open>The strings whose escapes are whole.\<close>

function well_escaped :: "byte list \<Rightarrow> bool" where
  "well_escaped [] = True"
| "well_escaped (c # cs) =
     (if c = 0x5c
      then (case cs of
          [] \<Rightarrow> False
        | e # es \<Rightarrow>
            if e = 0x75 then 4 \<le> length es \<and> (\<forall>x \<in> set (take 4 es). hex_nibble x \<noteq> None) \<and> well_escaped (drop 4 es)
            else e \<noteq> 0 \<and> well_escaped es)
      else c \<noteq> 0 \<and> c \<noteq> 0x22 \<and> well_escaped cs)"
  by pat_completeness auto
termination by (relation "measure length") auto

declare well_escaped.simps [simp del]

definition hex_digits :: "byte list \<Rightarrow> bool" where
  "hex_digits hs = (length hs = 4 \<and> (\<forall>x \<in> set hs. hex_nibble x \<noteq> None))"

lemma hex_digits_four: "hex_digits hs \<Longrightarrow> \<exists>a b c d. hs = [a, b, c, d] \<and> hex_nibble a \<noteq> None \<and> hex_nibble b \<noteq> None \<and>
    hex_nibble c \<noteq> None \<and> hex_nibble d \<noteq> None"
  by (auto simp: hex_digits_def numeral_eq_Suc length_Suc_conv)

lemma hex_digits_read: "hex_digits hs \<Longrightarrow> \<exists>u. parse_hex4 (hs @ t) = Some u"
  by (drule hex_digits_four) (auto simp: parse_hex4_def numeral_eq_Suc)

lemma hex_val_plain: "hex_nibble x \<noteq> None \<Longrightarrow> x \<noteq> 0x22 \<and> x \<noteq> 0 \<and> x \<noteq> 0x5c"
  by (auto simp: hex_nibble_def)

lemma str_len_char: "c \<notin> {0, 0x22, 0x5c} \<Longrightarrow> str_len (c # cs) = map_option Suc (str_len cs)"
  by (simp only: str_len.simps(2)) simp

lemma str_len_esc: "str_len (0x5c # e # es) = map_option Suc (str_len es)"
  by (simp only: str_len.simps(2)) simp

lemma str_len_hex: "hex_digits hs \<Longrightarrow> str_len t = Some n \<Longrightarrow> str_len (hs @ t) = Some (4 + n)"
proof -
  assume h: "hex_digits hs" "str_len t = Some n"
  obtain a b c d where "hs = [a, b, c, d]" "{a, b, c, d} \<inter> {0, 0x22, 0x5c} = {}"
    using hex_digits_four [OF h(1)] hex_val_plain by auto
  then show ?thesis using h(2) by (simp add: str_len_char)
qed

lemma utf8_bytes_length: "length (utf8_bytes uc) \<le> 4"
  by (simp add: utf8_bytes_def)

lemma well_escaped_code: "well_escaped (0x5c # 0x75 # es) \<Longrightarrow> \<exists>hs es'. es = hs @ es' \<and> hex_digits hs \<and> well_escaped es'"
  by - (rule exI [of _ "take 4 es"], rule exI [of _ "drop 4 es"], (simp add: well_escaped.simps hex_digits_def))

lemma code_read:
  assumes "hex_digits hs" "well_escaped b"
  shows "\<exists>bs b'. unescape 0x75 (hs @ b @ 0x22 # r) = Some (bs, b' @ 0x22 # r) \<and> length bs \<le> 4 \<and> well_escaped b' \<and>
    (b' = b \<or> (\<exists>gs. hex_digits gs \<and> b = 0x5c # 0x75 # gs @ b'))"
proof -
  obtain uc where uc: "parse_hex4 (hs @ b @ 0x22 # r) = Some uc" using hex_digits_read [OF assms(1)] by blast
  have hs: "length hs = 4" using assms(1) by (simp add: hex_digits_def)
  consider (bad) "0xDC00 \<le> uc \<and> uc \<le> 0xDFFF \<or> uc = 0"
    | (high) "\<not> (0xDC00 \<le> uc \<and> uc \<le> 0xDFFF \<or> uc = 0)" "0xD800 \<le> uc \<and> uc \<le> 0xDBFF"
    | (one) "\<not> (0xDC00 \<le> uc \<and> uc \<le> 0xDFFF \<or> uc = 0)" "\<not> (0xD800 \<le> uc \<and> uc \<le> 0xDBFF)" by blast
  then show ?thesis
  proof cases
    case bad
    then show ?thesis using uc hs assms(2) by - (rule exI [of _ "[]"], rule exI [of _ b], (simp add: unescape_def Let_def))
  next
    case one
    then show ?thesis
      using uc hs assms(2) utf8_bytes_length by - (rule exI [of _ "utf8_bytes uc"], rule exI [of _ b], (auto simp: unescape_def Let_def))
  next
    case high
    show ?thesis
    proof (cases "\<exists>es. b = 0x5c # 0x75 # es")
      case False
      have "unescape 0x75 (hs @ b @ 0x22 # r) = Some ([], b @ 0x22 # r)"
        using high uc hs False assms(2) by (cases b rule: remdups_adj.cases) (auto simp: unescape_def Let_def well_escaped.simps)
      then show ?thesis using assms(2) by - (rule exI [of _ "[]"], rule exI [of _ b], simp)
    next
      case True
      then obtain gs b' where b: "b = 0x5c # 0x75 # gs @ b'" "hex_digits gs" "well_escaped b'"
        using well_escaped_code assms(2) by blast
      obtain uc2 where uc2: "parse_hex4 (gs @ b' @ 0x22 # r) = Some uc2" using hex_digits_read [OF b(2)] by blast
      have gs: "length gs = 4" using b(2) by (simp add: hex_digits_def)
      define bs where "bs = (if uc2 < 0xDC00 \<or> uc2 > 0xDFFF then []
        else utf8_bytes (0x10000 + (push_bit 10 (uc AND 0x3FF) OR (uc2 AND 0x3FF))))"
      have "unescape 0x75 (hs @ b @ 0x22 # r) = Some (bs, b' @ 0x22 # r)"
        using high uc uc2 hs gs b(1) by (simp add: unescape_def bs_def Let_def)
      then show ?thesis using b utf8_bytes_length by - (rule exI [of _ bs], rule exI [of _ b'], (auto simp: bs_def))
    qed
  qed
qed

lemma well_escaped_read:
  "well_escaped b \<Longrightarrow> \<exists>n o2. str_len (b @ 0x22 # r) = Some n \<and> length o2 \<le> n \<and> n \<le> length b \<and>
     (\<forall>cap o1. length o1 + n < cap \<longrightarrow> copy_loop cap o1 (b @ 0x22 # r) = Some (o1 @ o2, 0x22 # r))"
proof (induction "length b" arbitrary: b rule: less_induct)
  case less
  have cont: ?case
    if w: "well_escaped b'" "length b' < length b"
      and len: "\<And>n. str_len (b' @ 0x22 # r) = Some n \<Longrightarrow>
        \<exists>k. str_len (b @ 0x22 # r) = Some (k + n) \<and> length bs \<le> k \<and> k + length b' \<le> length b"
      and copy: "\<And>cap o1. length o1 + length bs < cap \<Longrightarrow> copy_loop cap o1 (b @ 0x22 # r) = copy_loop cap (o1 @ bs) (b' @ 0x22 # r)"
    for b' bs
  proof -
    obtain n o2 where n: "str_len (b' @ 0x22 # r) = Some n" "length o2 \<le> n" "n \<le> length b'"
        "\<forall>cap o1. length o1 + n < cap \<longrightarrow> copy_loop cap o1 (b' @ 0x22 # r) = Some (o1 @ o2, 0x22 # r)"
      using less.hyps [OF w(2,1)] by blast
    obtain k where k: "str_len (b @ 0x22 # r) = Some (k + n)" "length bs \<le> k" "k + length b' \<le> length b"
      using len [OF n(1)] by blast
    have "copy_loop cap o1 (b @ 0x22 # r) = Some (o1 @ bs @ o2, 0x22 # r)" if "length o1 + (k + n) < cap" for cap o1
      using that copy [of o1 cap] k(2) n(4) [rule_format, of "o1 @ bs" cap] by simp
    then show ?thesis using k n by (intro exI [of _ "k + n"] exI [of _ "bs @ o2"]) auto
  qed
  consider (nil) "b = []" | (plain) c cs where "b = c # cs" "c \<notin> {0, 0x22, 0x5c}" "well_escaped cs"
    | (short) e es where "b = 0x5c # e # es" "e \<noteq> 0x75" "e \<noteq> 0" "well_escaped es"
    | (code) es where "b = 0x5c # 0x75 # es"
    using less.prems by (cases b) (auto simp: well_escaped.simps split: if_splits list.splits)
  then show ?case
  proof cases
    case nil
    then show ?thesis by (auto simp: str_len.simps copy_end)
  next
    case plain
    then show ?thesis by (intro cont [of cs "[c]"]) (auto simp: str_len_char copy_char)
  next
    case short
    have "\<exists>x. \<forall>t. unescape e t = Some ([x], t)" using short(2) by (auto simp: unescape_def)
    then obtain x where "\<forall>t. unescape e t = Some ([x], t)" by blast
    then show ?thesis
      using short by (intro cont [of es "[x]"]) (auto simp: str_len_esc copy_escape)
  next
    case code
    obtain hs es' where es: "es = hs @ es'" "hex_digits hs" "well_escaped es'"
      using well_escaped_code less.prems code by blast
    obtain bs b' where u: "unescape 0x75 (hs @ es' @ 0x22 # r) = Some (bs, b' @ 0x22 # r)" "length bs \<le> 4" "well_escaped b'"
      and b': "b' = es' \<or> (\<exists>gs. hex_digits gs \<and> es' = 0x5c # 0x75 # gs @ b')"
      using code_read [OF es(2,3)] by blast
    have hs: "length hs = 4" using es(2) by (simp add: hex_digits_def)
    have len: "\<exists>k. str_len (b @ 0x22 # r) = Some (k + n) \<and> length bs \<le> k \<and> k + length b' \<le> length b"
      if n: "str_len (b' @ 0x22 # r) = Some n" for n
      using b'
    proof
      assume "b' = es'"
      then show ?thesis using str_len_hex [OF es(2) n] u(2) hs code es(1) by (intro exI [of _ 5]) (simp add: str_len_esc)
    next
      assume "\<exists>gs. hex_digits gs \<and> es' = 0x5c # 0x75 # gs @ b'"
      then obtain gs where gs: "hex_digits gs" "es' = 0x5c # 0x75 # gs @ b'" by blast
      have "str_len (es' @ 0x22 # r) = Some (5 + n)" using str_len_hex [OF gs(1) n] by (simp add: gs(2) str_len_esc)
      from str_len_hex [OF es(2) this] show ?thesis
        using u(2) hs gs code es(1) by (intro exI [of _ 10]) (simp add: str_len_esc hex_digits_def)
    qed
    show ?thesis
      using b' hs code es(1) u(1,3) len
      by (intro cont [of b' bs]) (auto simp: copy_escape hex_digits_def)
  qed
qed

text \<open>C30: Every string whose codes have their four digits and whose last backslash is followed by a byte
  is read inside of both blocks: the copy fits the block that the first loop sized, and the
  reader stops behind the closing quote.\<close>

theorem whole_string_read:
  assumes "well_escaped b"
  shows "\<exists>s. parse_string (0x22 # b @ 0x22 # r) = Some (Inr (s, r)) \<and> length s \<le> length b"
proof -
  obtain n o2 where n: "str_len (b @ 0x22 # r) = Some n" "length o2 \<le> n" "n \<le> length b"
      "copy_loop (n + 1) [] (b @ 0x22 # r) = Some ([] @ o2, 0x22 # r)"
    using well_escaped_read [OF assms, of r] by (metis add_0 less_add_one list.size(3))
  have "length (takeWhile (\<lambda>c. c \<noteq> 0) o2) \<le> length b" using length_takeWhile_le n(2,3) by (metis order_trans)
  then show ?thesis using n(1,4) by (simp add: parse_string_def)
qed

section \<open>Examples\<close>


lemma short_code_overruns_witness: "parse_string ([0x22, 0x5c, 0x75, 0x22] @ bytes '',xyzab'' @ [0]) = None"
  using short_code_overruns [of "0x7a" "0x61" "0x2c" "0x78" "0x79" "[0x62, 0]"] by (simp add: bytes_def)

lemma whole_string_read_witness:
  "\<exists>s. parse_string (0x22 # ([0x5c, 0x75] @ bytes ''0041b'') @ 0x22 # [0]) = Some (Inr (s, [0])) \<and> length s \<le> 7"
proof -
  have b: "well_escaped ([0x5c, 0x75] @ bytes ''0041b'')" by code_simp
  have "length ([0x5c, 0x75] @ bytes ''0041b'') = 7" by (simp add: bytes_def)
  then show ?thesis using whole_string_read [OF b, of "[0]"] by metis
qed

end
