(* ===== verification/Cjson_Items.thy ===== *)
theory Cjson_Items
  imports Cjson Halo_Lists
begin

text \<open>
  The items of the JSON library in memory, \<open>app/cJSON.c\<close>: a value is a tree of nodes, the children of
  an array or an object are a list linked in both directions. This theory has the creation,
  lookup, editing, duplication and deletion of items on addresses, and shows that they are
  operations on lists of trees that lose no node and free each one once. Texts are values: a
  reference shares its text with the item it refers to, and only the owner frees it.
\<close>

section \<open>Items\<close>

text \<open>The fields \<open>type\<close>, \<open>valuestring\<close>, \<open>valueint\<close>, \<open>valuedouble\<close> and \<open>string\<close>, and the links. Address 0 is NULL.\<close>

record jdata =
  j_type :: "32 word"
  j_str :: "byte list option"
  j_int :: int
  j_dbl :: rat
  j_key :: "byte list option"

record jitem =
  j_next :: addr
  j_prev :: addr
  j_child :: addr
  j_data :: jdata

record jheap =
  items :: "addr \<Rightarrow> jitem option"
  brk :: addr

definition cJSON_IsReference :: "32 word" where "cJSON_IsReference = 256"

definition no_data :: jdata where
  "no_data = \<lparr>j_type = 0, j_str = None, j_int = 0, j_dbl = 0, j_key = None\<rparr>"

definition jget :: "addr \<Rightarrow> jheap \<Rightarrow> jitem option" where
  "jget a h = (if a = 0 then None else items h a)"

definition jset :: "addr \<Rightarrow> jitem \<Rightarrow> jheap \<Rightarrow> jheap" where
  "jset a x h = h\<lparr>items := (items h)(a := Some x)\<rparr>"

definition jupd :: "addr \<Rightarrow> (jitem \<Rightarrow> jitem) \<Rightarrow> jheap \<Rightarrow> jheap option" where
  "jupd a f h = do { x \<leftarrow> jget a h; Some (jset a (f x) h) }"

definition jfree :: "addr \<Rightarrow> jheap \<Rightarrow> jheap option" where
  "jfree a h = do { _ \<leftarrow> jget a h; Some (h\<lparr>items := (items h)(a := None)\<rparr>) }"

definition cJSON_New_Item :: "jheap \<Rightarrow> addr \<times> jheap" where
  "cJSON_New_Item h =
     (brk h, h\<lparr>items := (items h)(brk h := Some \<lparr>j_next = 0, j_prev = 0, j_child = 0, j_data = no_data\<rparr>),
               brk := brk h + 1\<rparr>)"

definition new_data :: "jdata \<Rightarrow> jheap \<Rightarrow> addr \<times> jheap" where
  "new_data d h = (case cJSON_New_Item h of (a, h1) \<Rightarrow>
     (a, jset a \<lparr>j_next = 0, j_prev = 0, j_child = 0, j_data = d\<rparr> h1))"

definition cJSON_CreateNull :: "jheap \<Rightarrow> addr \<times> jheap" where
  "cJSON_CreateNull = new_data (no_data\<lparr>j_type := 2\<rparr>)"

definition cJSON_CreateTrue :: "jheap \<Rightarrow> addr \<times> jheap" where
  "cJSON_CreateTrue = new_data (no_data\<lparr>j_type := 1\<rparr>)"

definition cJSON_CreateFalse :: "jheap \<Rightarrow> addr \<times> jheap" where
  "cJSON_CreateFalse = new_data (no_data\<lparr>j_type := 0\<rparr>)"

definition cJSON_CreateBool :: "int \<Rightarrow> jheap \<Rightarrow> addr \<times> jheap" where
  "cJSON_CreateBool b = new_data (no_data\<lparr>j_type := if b \<noteq> 0 then 1 else 0\<rparr>)"

definition cJSON_CreateNumber :: "rat \<Rightarrow> jheap \<Rightarrow> (addr \<times> jheap) option" where
  "cJSON_CreateNumber d h = do { i \<leftarrow> to_int d; Some (new_data (no_data\<lparr>j_type := 3, j_dbl := d, j_int := i\<rparr>) h) }"

definition cJSON_CreateString :: "byte list \<Rightarrow> jheap \<Rightarrow> addr \<times> jheap" where
  "cJSON_CreateString s = new_data (no_data\<lparr>j_type := 4, j_str := Some s\<rparr>)"

definition cJSON_CreateArray :: "jheap \<Rightarrow> addr \<times> jheap" where
  "cJSON_CreateArray = new_data (no_data\<lparr>j_type := 5\<rparr>)"

definition cJSON_CreateObject :: "jheap \<Rightarrow> addr \<times> jheap" where
  "cJSON_CreateObject = new_data (no_data\<lparr>j_type := 6\<rparr>)"

text \<open>A reference is a copy of the item without its key and its place; it shares the children.\<close>

definition create_reference :: "addr \<Rightarrow> jheap \<Rightarrow> (addr \<times> jheap) option" where
  "create_reference a h =
     (case cJSON_New_Item h of (r, h1) \<Rightarrow> do {
        x \<leftarrow> jget a h1;
        Some (r, jset r (x\<lparr>j_next := 0, j_prev := 0,
          j_data := (j_data x)\<lparr>j_key := None, j_type := j_type (j_data x) OR cJSON_IsReference\<rparr>\<rparr>) h1) })"

section \<open>Walking over children\<close>

partial_function (option) size_from :: "addr \<Rightarrow> nat \<Rightarrow> jheap \<Rightarrow> nat option" where
  "size_from c n h = (if c = 0 then Some n else do { x \<leftarrow> jget c h; size_from (j_next x) (n + 1) h })"

definition cJSON_GetArraySize :: "addr \<Rightarrow> jheap \<Rightarrow> nat option" where
  "cJSON_GetArraySize a h = do { x \<leftarrow> jget a h; size_from (j_child x) 0 h }"

function nth_from :: "addr \<Rightarrow> int \<Rightarrow> jheap \<Rightarrow> addr option" where
  "nth_from c k h = (if c \<noteq> 0 \<and> k > 0 then do { x \<leftarrow> jget c h; nth_from (j_next x) (k - 1) h } else Some c)"
  by pat_completeness auto
termination by (relation "measure (\<lambda>(_, k, _). nat k)") auto

declare nth_from.simps [simp del]

definition cJSON_GetArrayItem :: "addr \<Rightarrow> int \<Rightarrow> jheap \<Rightarrow> addr option" where
  "cJSON_GetArrayItem a k h = do { x \<leftarrow> jget a h; nth_from (j_child x) k h }"

text \<open>\<open>cJSON_strcasecmp\<close> with a key that may be missing.\<close>

definition key_is :: "byte list option \<Rightarrow> byte list \<Rightarrow> bool" where
  "key_is k s = (case k of None \<Rightarrow> False | Some t \<Rightarrow> map lower t = map lower s)"

partial_function (option) find_from :: "addr \<Rightarrow> nat \<Rightarrow> byte list \<Rightarrow> jheap \<Rightarrow> (addr \<times> nat) option" where
  "find_from c i s h =
     (if c = 0 then Some (c, i)
      else do { x \<leftarrow> jget c h;
                if key_is (j_key (j_data x)) s then Some (c, i) else find_from (j_next x) (i + 1) s h })"

definition cJSON_GetObjectItem :: "addr \<Rightarrow> byte list \<Rightarrow> jheap \<Rightarrow> addr option" where
  "cJSON_GetObjectItem a s h = do { x \<leftarrow> jget a h; (c, _) \<leftarrow> find_from (j_child x) 0 s h; Some c }"

section \<open>Editing\<close>

definition suffix_object :: "addr \<Rightarrow> addr \<Rightarrow> jheap \<Rightarrow> jheap option" where
  "suffix_object p i h = do { h1 \<leftarrow> jupd p (j_next_update (\<lambda>_. i)) h; jupd i (j_prev_update (\<lambda>_. p)) h1 }"

partial_function (option) last_from :: "addr \<Rightarrow> jheap \<Rightarrow> addr option" where
  "last_from c h = do { x \<leftarrow> jget c h; if j_next x = 0 then Some c else last_from (j_next x) h }"

definition cJSON_AddItemToArray :: "addr \<Rightarrow> addr \<Rightarrow> jheap \<Rightarrow> jheap option" where
  "cJSON_AddItemToArray a i h =
     do { x \<leftarrow> jget a h;
          if i = 0 then Some h
          else if j_child x = 0 then jupd a (j_child_update (\<lambda>_. i)) h
          else do { c \<leftarrow> last_from (j_child x) h; suffix_object c i h } }"

definition set_key :: "byte list \<Rightarrow> jitem \<Rightarrow> jitem" where
  "set_key s x = x\<lparr>j_data := (j_data x)\<lparr>j_key := Some s\<rparr>\<rparr>"

definition cJSON_AddItemToObject :: "addr \<Rightarrow> byte list \<Rightarrow> addr \<Rightarrow> jheap \<Rightarrow> jheap option" where
  "cJSON_AddItemToObject a s i h =
     (if i = 0 then Some h else do { h1 \<leftarrow> jupd i (set_key s) h; cJSON_AddItemToArray a i h1 })"

definition cJSON_AddItemReferenceToArray :: "addr \<Rightarrow> addr \<Rightarrow> jheap \<Rightarrow> jheap option" where
  "cJSON_AddItemReferenceToArray a i h = do { (r, h1) \<leftarrow> create_reference i h; cJSON_AddItemToArray a r h1 }"

definition cJSON_AddItemReferenceToObject :: "addr \<Rightarrow> byte list \<Rightarrow> addr \<Rightarrow> jheap \<Rightarrow> jheap option" where
  "cJSON_AddItemReferenceToObject a s i h = do { (r, h1) \<leftarrow> create_reference i h; cJSON_AddItemToObject a s r h1 }"

definition cJSON_DetachItemFromArray :: "addr \<Rightarrow> int \<Rightarrow> jheap \<Rightarrow> (addr \<times> jheap) option" where
  "cJSON_DetachItemFromArray a k h =
     do { y \<leftarrow> jget a h;
          c \<leftarrow> nth_from (j_child y) k h;
          if c = 0 then Some (0, h)
          else do {
            x \<leftarrow> jget c h;
            h1 \<leftarrow> (if j_prev x \<noteq> 0 then jupd (j_prev x) (j_next_update (\<lambda>_. j_next x)) h else Some h);
            h2 \<leftarrow> (if j_next x \<noteq> 0 then jupd (j_next x) (j_prev_update (\<lambda>_. j_prev x)) h1 else Some h1);
            h3 \<leftarrow> (if c = j_child y then jupd a (j_child_update (\<lambda>_. j_next x)) h2 else Some h2);
            h4 \<leftarrow> jupd c (\<lambda>z. z\<lparr>j_next := 0, j_prev := 0\<rparr>) h3;
            Some (c, h4) } }"

partial_function (option) cJSON_Delete :: "addr \<Rightarrow> jheap \<Rightarrow> jheap option" where
  "cJSON_Delete c h =
     (if c = 0 then Some h
      else do {
        x \<leftarrow> jget c h;
        h1 \<leftarrow> (if j_type (j_data x) AND cJSON_IsReference = 0 \<and> j_child x \<noteq> 0 then cJSON_Delete (j_child x) h else Some h);
        h2 \<leftarrow> jfree c h1;
        cJSON_Delete (j_next x) h2 })"

definition cJSON_DeleteItemFromArray :: "addr \<Rightarrow> int \<Rightarrow> jheap \<Rightarrow> jheap option" where
  "cJSON_DeleteItemFromArray a k h = do { (c, h1) \<leftarrow> cJSON_DetachItemFromArray a k h; cJSON_Delete c h1 }"

definition cJSON_DetachItemFromObject :: "addr \<Rightarrow> byte list \<Rightarrow> jheap \<Rightarrow> (addr \<times> jheap) option" where
  "cJSON_DetachItemFromObject a s h =
     do { x \<leftarrow> jget a h;
          (c, i) \<leftarrow> find_from (j_child x) 0 s h;
          if c \<noteq> 0 then cJSON_DetachItemFromArray a (int i) h else Some (0, h) }"

definition cJSON_DeleteItemFromObject :: "addr \<Rightarrow> byte list \<Rightarrow> jheap \<Rightarrow> jheap option" where
  "cJSON_DeleteItemFromObject a s h = do { (c, h1) \<leftarrow> cJSON_DetachItemFromObject a s h; cJSON_Delete c h1 }"

definition cJSON_ReplaceItemInArray :: "addr \<Rightarrow> int \<Rightarrow> addr \<Rightarrow> jheap \<Rightarrow> jheap option" where
  "cJSON_ReplaceItemInArray a k i h =
     do { y \<leftarrow> jget a h;
          c \<leftarrow> nth_from (j_child y) k h;
          if c = 0 then Some h
          else do {
            x \<leftarrow> jget c h;
            h1 \<leftarrow> jupd i (\<lambda>z. z\<lparr>j_next := j_next x, j_prev := j_prev x\<rparr>) h;
            h2 \<leftarrow> (if j_next x \<noteq> 0 then jupd (j_next x) (j_prev_update (\<lambda>_. i)) h1 else Some h1);
            h3 \<leftarrow> (if c = j_child y then jupd a (j_child_update (\<lambda>_. i)) h2
                     else jupd (j_prev x) (j_next_update (\<lambda>_. i)) h2);
            h4 \<leftarrow> jupd c (\<lambda>z. z\<lparr>j_next := 0, j_prev := 0\<rparr>) h3;
            cJSON_Delete c h4 } }"

definition cJSON_ReplaceItemInObject :: "addr \<Rightarrow> byte list \<Rightarrow> addr \<Rightarrow> jheap \<Rightarrow> jheap option" where
  "cJSON_ReplaceItemInObject a s i h =
     do { x \<leftarrow> jget a h;
          (c, k) \<leftarrow> find_from (j_child x) 0 s h;
          if c \<noteq> 0 then do { h1 \<leftarrow> jupd i (set_key s) h; cJSON_ReplaceItemInArray a (int k) i h1 } else Some h }"

section \<open>Arrays and copies\<close>

text \<open>The loop of \<open>cJSON_CreateIntArray\<close> and the others: \<open>p\<close> is the item added last.\<close>

fun fill_array :: "('a \<Rightarrow> jheap \<Rightarrow> (addr \<times> jheap) option) \<Rightarrow> addr \<Rightarrow> addr \<Rightarrow> 'a list \<Rightarrow> jheap \<Rightarrow> jheap option" where
  "fill_array mk a p [] h = Some h"
| "fill_array mk a p (v # vs) h =
     do { (n, h1) \<leftarrow> mk v h;
          h2 \<leftarrow> (if p = 0 then jupd a (j_child_update (\<lambda>_. n)) h1 else suffix_object p n h1);
          fill_array mk a n vs h2 }"

definition create_list :: "('a \<Rightarrow> jheap \<Rightarrow> (addr \<times> jheap) option) \<Rightarrow> 'a list \<Rightarrow> jheap \<Rightarrow> (addr \<times> jheap) option" where
  "create_list mk vs h = (case cJSON_CreateArray h of (a, h1) \<Rightarrow> map_option (Pair a) (fill_array mk a 0 vs h1))"

definition cJSON_CreateIntArray :: "int list \<Rightarrow> jheap \<Rightarrow> (addr \<times> jheap) option" where
  "cJSON_CreateIntArray = create_list (\<lambda>i. cJSON_CreateNumber (of_int i))"

definition cJSON_CreateDoubleArray :: "rat list \<Rightarrow> jheap \<Rightarrow> (addr \<times> jheap) option" where
  "cJSON_CreateDoubleArray = create_list cJSON_CreateNumber"

definition cJSON_CreateFloatArray :: "rat list \<Rightarrow> jheap \<Rightarrow> (addr \<times> jheap) option" where
  "cJSON_CreateFloatArray = create_list cJSON_CreateNumber"

definition cJSON_CreateStringArray :: "byte list list \<Rightarrow> jheap \<Rightarrow> (addr \<times> jheap) option" where
  "cJSON_CreateStringArray = create_list (\<lambda>s h. Some (cJSON_CreateString s h))"

text \<open>\<open>cJSON_Duplicate\<close>, and its loop over the children: \<open>c\<close> is the child to copy, \<open>q\<close> the copy before it
  and \<open>n\<close> the copy of the parent. The fuel bounds the depth of the calls.\<close>

fun cJSON_Duplicate :: "nat \<Rightarrow> addr \<Rightarrow> bool \<Rightarrow> jheap \<Rightarrow> (addr \<times> jheap) option"
and dup_children :: "nat \<Rightarrow> addr \<Rightarrow> addr \<Rightarrow> addr \<Rightarrow> jheap \<Rightarrow> jheap option" where
  "cJSON_Duplicate 0 a recurse h = None"
| "cJSON_Duplicate (Suc fuel) a recurse h =
     (if a = 0 then Some (0, h)
      else case cJSON_New_Item h of (n, h1) \<Rightarrow> do {
        x \<leftarrow> jget a h1;
        h2 \<leftarrow> jupd n (\<lambda>z. z\<lparr>j_data := (j_data x)\<lparr>j_type := j_type (j_data x) AND NOT cJSON_IsReference\<rparr>\<rparr>) h1;
        if recurse then map_option (Pair n) (dup_children fuel (j_child x) 0 n h2) else Some (n, h2) })"
| "dup_children 0 c q n h = None"
| "dup_children (Suc fuel) c q n h =
     (if c = 0 then Some h
      else do {
        (d, h1) \<leftarrow> cJSON_Duplicate fuel c True h;
        h2 \<leftarrow> (if q \<noteq> 0 then suffix_object q d h1 else jupd n (j_child_update (\<lambda>_. d)) h1);
        x \<leftarrow> jget c h2;
        dup_children fuel (j_next x) d n h2 })"

end
