(* ===== verification/Cjson_Trees.thy ===== *)
theory Cjson_Trees
  imports Cjson_Items
begin

text \<open>
  The items of the JSON library as lists of trees: walking over children, adding, detaching and
  replacing one are the list operations, deletion frees every node of a tree once and nothing
  else, and a duplicate is an equal tree of new nodes.
\<close>

section \<open>Trees in memory\<close>

datatype jtree = JNode addr jdata "jtree list"

fun jroot :: "jtree \<Rightarrow> addr" where "jroot (JNode a d cs) = a"
fun data_of :: "jtree \<Rightarrow> jdata" where "data_of (JNode a d cs) = d"

definition head_or :: "jtree list \<Rightarrow> addr \<Rightarrow> addr" where
  "head_or ts q = (case ts of [] \<Rightarrow> q | t # _ \<Rightarrow> jroot t)"

definition last_or :: "jtree list \<Rightarrow> addr \<Rightarrow> addr" where
  "last_or ts p = (if ts = [] then p else jroot (last ts))"

fun nodes :: "jtree list \<Rightarrow> addr list" where
  "nodes [] = []"
| "nodes (JNode a d cs # ts) = a # nodes cs @ nodes ts"

text \<open>The siblings \<open>ts\<close> lie between the addresses \<open>p\<close> and \<open>q\<close>, none of them a reference.\<close>

fun seg :: "jheap \<Rightarrow> addr \<Rightarrow> jtree list \<Rightarrow> addr \<Rightarrow> bool" where
  "seg h p [] q = True"
| "seg h p (JNode a d cs # ts) q =
     (jget a h = Some \<lparr>j_next = head_or ts q, j_prev = p, j_child = head_or cs 0, j_data = d\<rparr> \<and>
      j_type d AND cJSON_IsReference = 0 \<and> seg h 0 cs 0 \<and> seg h a ts q)"

definition off :: "addr set \<Rightarrow> jheap \<Rightarrow> jheap \<Rightarrow> bool" where
  "off S h h' = (brk h' = brk h \<and> (\<forall>a. a \<notin> S \<longrightarrow> items h' a = items h a))"

definition freed :: "addr set \<Rightarrow> jheap \<Rightarrow> jheap" where
  "freed S h = h\<lparr>items := \<lambda>a. if a \<in> S then None else items h a\<rparr>"

lemma head_or_simps [simp]: "head_or [] q = q" "head_or (t # ts) q = jroot t"
    "head_or (ts @ us) q = head_or ts (head_or us q)"
  by (auto simp: head_or_def split: list.splits)

lemma last_or_simps [simp]: "last_or [] p = p" "last_or (ts @ [t]) p = jroot t" "last_or (t # ts) p = last_or ts (jroot t)"
  by (auto simp: last_or_def)

lemma nodes_append [simp]: "nodes (ts @ us) = nodes ts @ nodes us"
  by (induction ts rule: nodes.induct) auto

lemma seg_append [simp]: "seg h p (ts @ us) q \<longleftrightarrow> seg h p ts (head_or us q) \<and> seg h (last_or ts p) us q"
  by (induction h p ts "head_or us q" rule: seg.induct) auto

lemma root_in_nodes: "t \<in> set ts \<Longrightarrow> jroot t \<in> set (nodes ts)"
  by (induction ts rule: nodes.induct) auto

lemma seg_live: "seg h p ts q \<Longrightarrow> a \<in> set (nodes ts) \<Longrightarrow> a \<noteq> 0 \<and> items h a \<noteq> None"
  by (induction h p ts q rule: seg.induct) (auto simp: jget_def split: if_splits)

lemma seg_root: "seg h p ts q \<Longrightarrow> t \<in> set ts \<Longrightarrow> jroot t \<noteq> 0"
  using seg_live root_in_nodes by blast

lemma seg_cong:
  "seg h p ts q \<Longrightarrow> (\<And>a. a \<in> set (nodes ts) \<Longrightarrow> items h' a = items h a) \<Longrightarrow> seg h' p ts q"
  by (induction h p ts q rule: seg.induct) (auto simp: jget_def split: if_splits)

lemma seg_off: "seg h p ts q \<Longrightarrow> off S h h' \<Longrightarrow> S \<inter> set (nodes ts) = {} \<Longrightarrow> seg h' p ts q"
  by (erule seg_cong) (auto simp: off_def)

lemma freed_freed: "freed S (freed T h) = freed (S \<union> T) h"
  by (cases h) (auto simp: freed_def fun_eq_iff)

lemma freed_get: "b \<notin> S \<Longrightarrow> jget b (freed S h) = jget b h"
  by (simp add: jget_def freed_def)

lemma seg_freed: "seg h p ts q \<Longrightarrow> S \<inter> set (nodes ts) = {} \<Longrightarrow> seg (freed S h) p ts q"
  by (erule seg_cong) (auto simp: freed_def)

lemma jget_set [simp]: "jget a (jset b x h) = (if a = b \<and> a \<noteq> 0 then Some x else jget a h)"
  by (auto simp: jget_def jset_def)

lemma off_set: "a \<in> S \<Longrightarrow> off S h (jset a x h)"
  by (auto simp: off_def jset_def)

lemma off_trans [trans]: "off S h h1 \<Longrightarrow> off T h1 h2 \<Longrightarrow> off (S \<union> T) h h2"
  by (auto simp: off_def)

lemma off_refl [simp]: "off S h h"
  by (simp add: off_def)

lemma off_mono: "off S h h' \<Longrightarrow> S \<subseteq> T \<Longrightarrow> off T h h'"
  by (auto simp: off_def)

lemma off_get: "off S h h' \<Longrightarrow> a \<notin> S \<Longrightarrow> jget a h' = jget a h"
  by (auto simp: off_def jget_def)

lemma seg_next: "seg h p (ts @ [JNode a d cs]) q \<Longrightarrow> distinct (nodes (ts @ [JNode a d cs])) \<Longrightarrow>
    seg (jset a \<lparr>j_next = r, j_prev = last_or ts p, j_child = head_or cs 0, j_data = d\<rparr> h) p (ts @ [JNode a d cs]) r"
  using seg_live [of h p "ts @ [JNode a d cs]" q a] by (auto elim!: seg_off intro!: off_set [of a "{a}"])

text \<open>Linking the siblings before and behind a place.\<close>

lemma link_left:
  assumes "seg h 0 ts q" "distinct (nodes ts)"
  shows "\<exists>h'. (if last_or ts 0 \<noteq> 0 then jupd (last_or ts 0) (j_next_update (\<lambda>_. r)) h else Some h) = Some h' \<and>
    seg h' 0 ts r \<and> off (set (nodes ts)) h h'"
proof (cases ts rule: rev_cases)
  case (snoc us t)
  then obtain a d cs where ts: "ts = us @ [JNode a d cs]" by (metis jtree.exhaust)
  have "a \<noteq> 0" using seg_root [OF assms(1), of "JNode a d cs"] ts by simp
  then show ?thesis
    using seg_next [of h 0 us a d cs q r] assms unfolding ts
    by (auto simp: jupd_def intro!: off_set)
qed simp

lemma link_right:
  assumes "seg h p ts 0" "distinct (nodes ts)"
  shows "\<exists>h'. (if head_or ts 0 \<noteq> 0 then jupd (head_or ts 0) (j_prev_update (\<lambda>_. r)) h else Some h) = Some h' \<and>
    seg h' r ts 0 \<and> off (set (nodes ts)) h h'"
proof (cases ts)
  case (Cons t us)
  obtain a d cs where t: "t = JNode a d cs" by (cases t)
  have "a \<noteq> 0" using seg_root [OF assms(1), of t] Cons t by simp
  then show ?thesis
    using assms unfolding Cons t
    by (auto simp: jupd_def intro!: off_set elim!: seg_off [OF _ off_set [of a "{a}"]])
qed simp

section \<open>Walks\<close>

lemma seg_step: "seg h p (t # ts) q \<Longrightarrow> \<exists>x. jget (jroot t) h = Some x \<and> j_next x = head_or ts q \<and> j_data x = data_of t \<and>
    jroot t \<noteq> 0 \<and> seg h (jroot t) ts q"
  by (cases t) (auto simp: jget_def split: if_splits)

lemma size_walk: "seg h p ts 0 \<Longrightarrow> size_from (head_or ts 0) n h = Some (n + length ts)"
proof (induction ts arbitrary: p n)
  case (Cons t ts)
  then show ?case using seg_step [OF Cons.prems] by (subst size_from.simps) auto
qed (simp add: size_from.simps)

lemma nth_walk: "seg h p ts 0 \<Longrightarrow> nth_from (head_or ts 0) k h = Some (if nat k < length ts then jroot (ts ! nat k) else 0)"
proof (induction ts arbitrary: p k)
  case (Cons t ts)
  obtain x where x: "jget (jroot t) h = Some x" "j_next x = head_or ts 0" "jroot t \<noteq> 0" "seg h (jroot t) ts 0"
    using seg_step [OF Cons.prems] by auto
  have "nat k = (if k > 0 then Suc (nat (k - 1)) else 0)" by (simp add: Suc_nat_eq_nat_zadd1)
  then show ?case using x Cons.IH [OF x(4), of "k - 1"] by (subst nth_from.simps) auto
qed (simp add: nth_from.simps)

definition key_index :: "byte list \<Rightarrow> jtree list \<Rightarrow> nat" where
  "key_index s ts = length (takeWhile (\<lambda>t. \<not> key_is (j_key (data_of t)) s) ts)"

definition root_at :: "jtree list \<Rightarrow> nat \<Rightarrow> addr" where
  "root_at ts k = (if k < length ts then jroot (ts ! k) else 0)"

lemma find_walk: "seg h p ts 0 \<Longrightarrow> find_from (head_or ts 0) i s h = Some (root_at ts (key_index s ts), i + key_index s ts)"
proof (induction ts arbitrary: p i)
  case (Cons t ts)
  obtain x where x: "jget (jroot t) h = Some x" "j_next x = head_or ts 0" "j_data x = data_of t" "jroot t \<noteq> 0" "seg h (jroot t) ts 0"
    using seg_step [OF Cons.prems] by auto
  show ?case using x Cons.IH [OF x(5)] by (subst find_from.simps) (auto simp: key_index_def root_at_def)
qed (simp add: find_from.simps key_index_def root_at_def)

lemma last_walk: "seg h p ts 0 \<Longrightarrow> ts \<noteq> [] \<Longrightarrow> last_from (head_or ts 0) h = Some (last_or ts 0)"
proof (induction ts arbitrary: p)
  case (Cons t ts)
  obtain x where x: "jget (jroot t) h = Some x" "j_next x = head_or ts 0" "jroot t \<noteq> 0" "seg h (jroot t) ts 0"
    using seg_step [OF Cons.prems(1)] by auto
  show ?case
  proof (cases ts)
    case (Cons u us)
    then have "head_or ts 0 \<noteq> 0" using seg_root [OF x(4), of u] by simp
    then show ?thesis using x Cons.IH [OF x(4)] Cons by (subst last_from.simps) (simp add: last_or_def)
  qed (use x in \<open>subst last_from.simps, simp\<close>)
qed simp

section \<open>Deletion\<close>

lemma delete_seg:
  "seg h p ts 0 \<Longrightarrow> distinct (nodes ts) \<Longrightarrow> cJSON_Delete (head_or ts 0) h = Some (freed (set (nodes ts)) h)"
proof (induction ts arbitrary: h p rule: nodes.induct)
  case 1
  then show ?case by (subst cJSON_Delete.simps) (simp add: freed_def)
next
  case (2 a d cs ts)
  let ?x = "\<lparr>j_next = head_or ts 0, j_prev = p, j_child = head_or cs 0, j_data = d\<rparr>"
  have a: "a \<noteq> 0" "jget a h = Some ?x" using 2(3) seg_root [OF 2(3), of "JNode a d cs"] by auto
  have "(if head_or cs 0 \<noteq> 0 then cJSON_Delete (head_or cs 0) h else Some h) = Some (freed (set (nodes cs)) h)"
  proof (cases cs)
    case Nil
    then show ?thesis by (simp add: freed_def)
  next
    case (Cons c cs')
    then have "head_or cs 0 \<noteq> 0" using 2(3) seg_root [of h 0 cs 0 c] by simp
    then show ?thesis using 2(1) [of h 0] 2(3,4) by simp
  qed
  moreover have "jfree a (freed (set (nodes cs)) h) = Some (freed (insert a (set (nodes cs))) h)"
    using a 2(4) by (auto simp: jfree_def jget_def freed_def fun_eq_iff)
  moreover have "cJSON_Delete (head_or ts 0) (freed (insert a (set (nodes cs))) h)
      = Some (freed (set (nodes ts)) (freed (insert a (set (nodes cs))) h))"
    using 2(3,4) by (intro 2(2) [of _ a] seg_freed) auto
  moreover have "freed (set (nodes ts)) (freed (insert a (set (nodes cs))) h) = freed (set (nodes (JNode a d cs # ts))) h"
    by (simp add: freed_freed Un_commute)
  ultimately show ?case using a 2(3) by (cases "head_or cs 0 = 0"; subst cJSON_Delete.simps; simp)
qed

section \<open>Editing\<close>

text \<open>The item \<open>x\<close> at address \<open>a\<close> has the children \<open>ts\<close>.\<close>

definition has_children :: "jheap \<Rightarrow> addr \<Rightarrow> jitem \<Rightarrow> jtree list \<Rightarrow> bool" where
  "has_children h a x ts = (jget a h = Some (x\<lparr>j_child := head_or ts 0\<rparr>) \<and> seg h 0 ts 0 \<and> distinct (a # nodes ts))"

lemma has_children_nz: "has_children h a x ts \<Longrightarrow> a \<noteq> 0"
  by (auto simp: has_children_def jget_def split: if_splits)

lemma add_list:
  assumes "has_children h a x ts" "seg h 0 [u] 0" "distinct (a # nodes ts @ nodes [u])"
  shows "\<exists>h'. cJSON_AddItemToArray a (jroot u) h = Some h' \<and> has_children h' a x (ts @ [u]) \<and>
    off (set (a # nodes ts @ nodes [u])) h h'"
proof (cases "ts = []")
  case True
  then show ?thesis
    using assms seg_root [OF assms(2), of u] has_children_nz [OF assms(1)]
    by (auto simp: has_children_def cJSON_AddItemToArray_def jupd_def intro!: off_set elim!: seg_off [OF _ off_set [of a "{a}"]])
next
  case False
  let ?c = "last_or ts 0"
  have s: "seg h 0 ts 0" "distinct (nodes ts)" "distinct (nodes [u])" and u: "jroot u \<noteq> 0"
    using assms seg_root [OF assms(2), of u] by (auto simp: has_children_def)
  obtain t us where ts: "ts = us @ [t]" using False by (cases ts rule: rev_cases) auto
  have c: "?c \<noteq> 0" using seg_root [OF s(1), of t] ts by simp
  have hd: "head_or ts 0 \<noteq> 0" using seg_root [OF s(1), of "hd ts"] False by (cases ts) auto
  obtain h1 where h1: "jupd ?c (j_next_update (\<lambda>_. jroot u)) h = Some h1" "seg h1 0 ts (jroot u)" "off (set (nodes ts)) h h1"
    using link_left [OF s(1,2), of "jroot u"] c by auto
  have u1: "seg h1 0 [u] 0" using assms(3) by (intro seg_off [OF assms(2) h1(3)]) auto
  obtain h2 where h2: "jupd (jroot u) (j_prev_update (\<lambda>_. ?c)) h1 = Some h2" "seg h2 ?c [u] 0" "off (set (nodes [u])) h1 h2"
    using link_right [OF u1 s(3), of ?c] u by auto
  have "seg h2 0 ts (jroot u)" using assms(3) by (intro seg_off [OF h1(2) h2(3)]) auto
  moreover have "jget a h2 = jget a h" using off_get [OF h2(3)] off_get [OF h1(3)] assms(3) by auto
  moreover have "off (set (a # nodes ts @ nodes [u])) h h2"
    using off_trans [OF h1(3) h2(3)] by (rule off_mono) auto
  moreover have "cJSON_AddItemToArray a (jroot u) h = Some h2"
    using assms(1) u hd last_walk [OF s(1) False] h1(1) h2(1)
    by (simp add: cJSON_AddItemToArray_def has_children_def suffix_object_def)
  ultimately show ?thesis using assms h2(2) False by (auto simp: has_children_def head_or_def split: list.splits)
qed

lemma off_Some: "jget b h = Some y \<Longrightarrow> \<exists>h'. jupd b f h = Some h' \<and> off {b} h h' \<and> jget b h' = Some (f y)"
  by (auto simp: jupd_def intro: off_set) (simp add: jget_def split: if_splits)

lemma detach_list:
  assumes "has_children h a x (xs @ t # ys)" "nat k = length xs"
  shows "\<exists>h'. cJSON_DetachItemFromArray a k h = Some (jroot t, h') \<and> has_children h' a x (xs @ ys) \<and> seg h' 0 [t] 0 \<and>
    off (set (a # nodes (xs @ t # ys))) h h'"
proof -
  obtain c d cs where t: "t = JNode c d cs" by (cases t)
  let ?x = "\<lparr>j_next = head_or ys 0, j_prev = last_or xs 0, j_child = head_or cs 0, j_data = d\<rparr>"
  have s: "seg h 0 xs c" "jget c h = Some ?x" "seg h 0 cs 0" "seg h c ys 0" "j_type d AND cJSON_IsReference = 0"
    and a: "jget a h = Some (x\<lparr>j_child := head_or xs c\<rparr>)"
    and dis: "distinct (a # nodes xs @ c # nodes cs @ nodes ys)"
    using assms(1) t by (auto simp: has_children_def)
  have c: "c \<noteq> 0" "seg h 0 (xs @ t # ys) 0" using s(2) assms(1) by (auto simp: jget_def has_children_def split: if_splits)
  have n: "nth_from (head_or xs c) k h = Some c" using nth_walk [OF c(2), of k] assms(2) t by simp
  obtain h1 where h1: "(if last_or xs 0 \<noteq> 0 then jupd (last_or xs 0) (j_next_update (\<lambda>_. head_or ys 0)) h else Some h) = Some h1"
      "seg h1 0 xs (head_or ys 0)" "off (set (nodes xs)) h h1"
    using link_left [OF s(1), of "head_or ys 0"] dis by auto
  have ys1: "seg h1 c ys 0" using dis by (intro seg_off [OF s(4) h1(3)]) auto
  obtain h2 where h2: "(if head_or ys 0 \<noteq> 0 then jupd (head_or ys 0) (j_prev_update (\<lambda>_. last_or xs 0)) h1 else Some h1) = Some h2"
      "seg h2 (last_or xs 0) ys 0" "off (set (nodes ys)) h1 h2"
    using link_right [OF ys1, of "last_or xs 0"] dis by auto
  have o2: "off (set (nodes xs) \<union> set (nodes ys)) h h2" using off_trans [OF h1(3) h2(3)] .
  have "head_or xs c = c \<longleftrightarrow> xs = []"
    using dis root_in_nodes [of "hd xs" xs] by (cases xs) auto
  then obtain h3 where h3: "(if c = head_or xs c then jupd a (j_child_update (\<lambda>_. head_or ys 0)) h2 else Some h2) = Some h3"
      "off {a} h2 h3" "jget a h3 = Some (x\<lparr>j_child := head_or (xs @ ys) 0\<rparr>)"
    using off_Some [of a h2 _ "j_child_update (\<lambda>_. head_or ys 0)"] off_get [OF o2, of a] a dis
    by (cases "xs = []") (auto simp: head_or_def split: list.splits)
  have o3: "off (insert a (set (nodes xs) \<union> set (nodes ys))) h h3" using off_trans [OF o2 h3(2)] by (rule off_mono) auto
  have "jget c h3 = Some ?x" using off_get [OF o3, of c] s(2) dis by auto
  from off_Some [OF this] obtain h4 where h4: "jupd c (\<lambda>z. z\<lparr>j_next := 0, j_prev := 0\<rparr>) h3 = Some h4" "off {c} h3 h4"
      "jget c h4 = Some (?x\<lparr>j_next := 0, j_prev := 0\<rparr>)" by blast
  have o4: "off (insert c (insert a (set (nodes xs) \<union> set (nodes ys)))) h h4" using off_trans [OF o3 h4(2)] by (rule off_mono) auto
  have o24: "off {a, c} h2 h4" using off_trans [OF h3(2) h4(2)] by (rule off_mono) auto
  have "seg h4 0 cs 0" using dis by (intro seg_off [OF s(3) o4]) auto
  moreover have "seg h4 0 xs (head_or ys 0)"
    using dis by (intro seg_off [OF h1(2) off_trans [OF h2(3) o24]]) auto
  moreover have "seg h4 (last_or xs 0) ys 0" using dis by (intro seg_off [OF h2(2) o24]) auto
  moreover have "jget a h4 = jget a h3" using off_get [OF h4(2), of a] dis by auto
  moreover have "cJSON_DetachItemFromArray a k h = Some (c, h4)"
    using a n c(1) s(2) h1(1) h2(1) h3(1) h4(1) by (simp add: cJSON_DetachItemFromArray_def split del: if_split cong: if_cong)
  moreover have "off (set (a # nodes (xs @ t # ys))) h h4" using o4 by (rule off_mono) (auto simp: t)
  ultimately show ?thesis using h4(3) h3(3) s(5) dis t by (auto simp: has_children_def)
qed

lemma replace_list:
  assumes "has_children h a x (xs @ t # ys)" "nat k = length xs" "seg h 0 [u] 0" "distinct (a # nodes (xs @ t # ys) @ nodes [u])"
  shows "\<exists>h'. cJSON_ReplaceItemInArray a k (jroot u) h = Some h' \<and> has_children h' a x (xs @ u # ys) \<and>
    (\<forall>b \<in> set (nodes [t]). items h' b = None) \<and> off (set (a # nodes (xs @ t # ys) @ nodes [u])) h h'"
proof -
  obtain c d cs where t: "t = JNode c d cs" by (cases t)
  obtain i e es where u: "u = JNode i e es" by (cases u)
  let ?x = "\<lparr>j_next = head_or ys 0, j_prev = last_or xs 0, j_child = head_or cs 0, j_data = d\<rparr>"
  let ?u = "\<lparr>j_next = head_or ys 0, j_prev = last_or xs 0, j_child = head_or es 0, j_data = e\<rparr>"
  have s: "seg h 0 xs c" "jget c h = Some ?x" "seg h 0 cs 0" "seg h c ys 0" "j_type d AND cJSON_IsReference = 0"
    and a: "jget a h = Some (x\<lparr>j_child := head_or xs c\<rparr>)" "a \<noteq> 0"
    and ui: "jget i h = Some \<lparr>j_next = 0, j_prev = 0, j_child = head_or es 0, j_data = e\<rparr>" "seg h 0 es 0"
      "j_type e AND cJSON_IsReference = 0"
    and dis: "distinct (a # nodes xs @ c # nodes cs @ nodes ys @ i # nodes es)"
    using assms t u has_children_nz [OF assms(1)] by (auto simp: has_children_def)
  have c: "c \<noteq> 0" "seg h 0 (xs @ t # ys) 0" using s(2) assms(1) by (auto simp: jget_def has_children_def split: if_splits)
  have n: "nth_from (head_or xs c) k h = Some c" using nth_walk [OF c(2), of k] assms(2) t by simp
  obtain h1 where h1: "jupd i (\<lambda>z. z\<lparr>j_next := head_or ys 0, j_prev := last_or xs 0\<rparr>) h = Some h1" "off {i} h h1" "jget i h1 = Some ?u"
    using off_Some [OF ui(1), of "\<lambda>z. z\<lparr>j_next := head_or ys 0, j_prev := last_or xs 0\<rparr>"] by auto
  have ys1: "seg h1 c ys 0" using dis by (intro seg_off [OF s(4) h1(2)]) auto
  obtain h2 where h2: "(if head_or ys 0 \<noteq> 0 then jupd (head_or ys 0) (j_prev_update (\<lambda>_. i)) h1 else Some h1) = Some h2"
      "seg h2 i ys 0" "off (set (nodes ys)) h1 h2"
    using link_right [OF ys1, of i] dis by auto
  have o2: "off (insert i (set (nodes ys))) h h2" using off_trans [OF h1(2) h2(3)] by (rule off_mono) auto
  have xs2: "seg h2 0 xs c" using dis by (intro seg_off [OF s(1) o2]) auto
  have hd: "c = head_or xs c \<longleftrightarrow> xs = []" using dis root_in_nodes [of "hd xs" xs] by (cases xs) auto
  have "\<exists>h3. (if c = head_or xs c then jupd a (j_child_update (\<lambda>_. i)) h2 else jupd (last_or xs 0) (j_next_update (\<lambda>_. i)) h2) = Some h3 \<and>
      seg h3 0 xs i \<and> off (insert a (set (nodes xs))) h2 h3 \<and> jget a h3 = Some (x\<lparr>j_child := head_or xs i\<rparr>)"
  proof (cases "xs = []")
    case True
    then show ?thesis using off_Some [of a h2 _ "j_child_update (\<lambda>_. i)"] off_get [OF o2, of a] a dis by auto
  next
    case False
    then have "last_or xs 0 \<noteq> 0" using seg_root [OF s(1), of "last xs"] by (simp add: last_or_def)
    then obtain h3 where h3: "jupd (last_or xs 0) (j_next_update (\<lambda>_. i)) h2 = Some h3" "seg h3 0 xs i" "off (set (nodes xs)) h2 h3"
      using link_left [OF xs2, of i] dis by auto
    have "jget a h3 = Some (x\<lparr>j_child := head_or xs i\<rparr>)"
      using off_get [OF h3(3), of a] off_get [OF o2, of a] a dis False by (auto simp: head_or_def split: list.splits)
    then show ?thesis using h3 hd False by (auto intro: off_mono)
  qed
  then obtain h3 where h3: "(if c = head_or xs c then jupd a (j_child_update (\<lambda>_. i)) h2 else jupd (last_or xs 0) (j_next_update (\<lambda>_. i)) h2) = Some h3"
      "seg h3 0 xs i" "off (insert a (set (nodes xs))) h2 h3" "jget a h3 = Some (x\<lparr>j_child := head_or xs i\<rparr>)" by blast
  have o3: "off (insert i (insert a (set (nodes xs) \<union> set (nodes ys)))) h h3" using off_trans [OF o2 h3(3)] by (rule off_mono) auto
  have "jget c h3 = Some ?x" using off_get [OF o3, of c] s(2) dis by auto
  from off_Some [OF this] obtain h4 where h4: "jupd c (\<lambda>z. z\<lparr>j_next := 0, j_prev := 0\<rparr>) h3 = Some h4" "off {c} h3 h4"
      "jget c h4 = Some (?x\<lparr>j_next := 0, j_prev := 0\<rparr>)" by blast
  have o4: "off (insert c (insert i (insert a (set (nodes xs) \<union> set (nodes ys))))) h h4" using off_trans [OF o3 h4(2)] by (rule off_mono) auto
  have o24: "off (insert a (insert c (set (nodes xs)))) h2 h4" using off_trans [OF h3(3) h4(2)] by (rule off_mono) auto
  let ?h = "freed (set (nodes [t])) h4"
  have cs4: "seg h4 0 cs 0" using dis by (intro seg_off [OF s(3) o4]) auto
  then have "cJSON_Delete c h4 = Some ?h"
    using delete_seg [of h4 0 "[t]"] h4(3) s(5) dis t by simp
  then have r: "cJSON_ReplaceItemInArray a k i h = Some ?h"
    using a n c(1) s(2) h1(1) h2(1) h3(1) h4(1) by (simp add: cJSON_ReplaceItemInArray_def split del: if_split cong: if_cong)
  have es4: "seg h4 0 es 0" using dis by (intro seg_off [OF ui(2) o4]) auto
  have xs4: "seg h4 0 xs i" using dis by (intro seg_off [OF h3(2) h4(2)]) auto
  have ys4: "seg h4 i ys 0" using dis by (intro seg_off [OF h2(2) o24]) auto
  have i4: "jget i h4 = Some ?u"
    using off_get [OF o24, of i] off_get [OF h2(3), of i] h1(3) dis by auto
  have a4: "jget a h4 = Some (x\<lparr>j_child := head_or xs i\<rparr>)" using off_get [OF h4(2), of a] h3(4) dis by auto
  have "off (set (a # nodes (xs @ t # ys) @ nodes [u])) h ?h"
    using o4 by (auto simp: off_def freed_def t u)
  moreover have "seg ?h 0 es 0" "seg ?h 0 xs i" "seg ?h i ys 0"
    using dis t by (auto intro!: seg_freed es4 xs4 ys4)
  moreover have "jget i ?h = Some ?u" "jget a ?h = Some (x\<lparr>j_child := head_or xs i\<rparr>)"
    using i4 a4 dis t by (auto simp: freed_get)
  moreover have "\<forall>b \<in> set (nodes [t]). items ?h b = None" by (simp add: freed_def)
  moreover have "distinct (a # nodes (xs @ u # ys))" using dis u by auto
  ultimately show ?thesis using r ui(3) unfolding u by (simp add: has_children_def)
qed

section \<open>Creation and duplication\<close>

text \<open>What a tree has_children, without its addresses.\<close>

datatype jval = JVal jdata "jval list"

fun vals :: "jtree list \<Rightarrow> jval list" where
  "vals [] = []"
| "vals (JNode a d cs # ts) = JVal d (vals cs) # vals ts"

text \<open>The allocator has never handed out what lies above its mark.\<close>

definition room :: "jheap \<Rightarrow> bool" where
  "room h = (brk h > 0 \<and> (\<forall>a. brk h \<le> a \<longrightarrow> items h a = None))"

lemma vals_append [simp]: "vals (ts @ us) = vals ts @ vals us"
  by (induction ts rule: vals.induct) auto

lemma seg_below: "seg h p ts q \<Longrightarrow> room h \<Longrightarrow> a \<in> set (nodes ts) \<Longrightarrow> a < brk h"
  using seg_live by (metis room_def not_less)

lemma has_children_below: "has_children h a x ts \<Longrightarrow> room h \<Longrightarrow> b \<in> set (a # nodes ts) \<Longrightarrow> b < brk h"
  using seg_below [of h 0 ts 0 b] by (auto simp: has_children_def room_def jget_def not_less [symmetric] split: if_splits)

lemma has_children_cong: "has_children h a x ts \<Longrightarrow> (\<And>b. b \<in> set (a # nodes ts) \<Longrightarrow> items h' b = items h b) \<Longrightarrow> has_children h' a x ts"
  unfolding has_children_def using seg_cong [of h 0 ts 0 h'] by (auto simp: jget_def split: if_splits)

lemma room_off: "room h \<Longrightarrow> off S h h' \<Longrightarrow> (\<And>a. a \<in> S \<Longrightarrow> a < brk h) \<Longrightarrow> room h'"
  by (auto simp: room_def off_def) (metis not_less)

lemma add_step:
  assumes "has_children h a x ts" "i \<noteq> 0"
  shows "cJSON_AddItemToArray a i h =
    (if last_or ts 0 \<noteq> 0 then suffix_object (last_or ts 0) i h else jupd a (j_child_update (\<lambda>_. i)) h)"
proof (cases "ts = []")
  case False
  have s: "seg h 0 ts 0" using assms(1) by (simp add: has_children_def)
  have "last_or ts 0 \<noteq> 0" "head_or ts 0 \<noteq> 0"
    using seg_root [OF s, of "last ts"] seg_root [OF s, of "hd ts"] False by (auto simp: last_or_def head_or_def split: list.splits)
  then show ?thesis using assms last_walk [OF s False] by (simp add: cJSON_AddItemToArray_def has_children_def)
qed (use assms in \<open>simp add: cJSON_AddItemToArray_def has_children_def\<close>)

text \<open>Children \<open>us\<close> have been appended to those of \<open>n\<close>, in new nodes.\<close>

definition grown :: "jheap \<Rightarrow> jheap \<Rightarrow> addr \<Rightarrow> jitem \<Rightarrow> jtree list \<Rightarrow> jtree list \<Rightarrow> bool" where
  "grown h h' n x ts us = (has_children h' n x (ts @ us) \<and> room h' \<and> brk h \<le> brk h' \<and> set (nodes us) \<subseteq> {brk h..<brk h'} \<and>
     (\<forall>b < brk h. b \<notin> set (n # nodes ts) \<longrightarrow> items h' b = items h b))"

lemma grown_refl: "has_children h n x ts \<Longrightarrow> room h \<Longrightarrow> grown h h n x ts []"
  by (simp add: grown_def)

lemma grown_trans: "grown h h1 n x ts us \<Longrightarrow> grown h1 h2 n x (ts @ us) vs \<Longrightarrow> grown h h2 n x ts (us @ vs)"
  unfolding grown_def by (auto simp: subset_iff) (metis not_less order_less_le_trans)

text \<open>One step of the loops: a tree of new nodes is linked behind the last child.\<close>

lemma grow:
  assumes "has_children h n x ts" "room h" "room h1" "brk h \<le> brk h1" "\<forall>b < brk h. items h1 b = items h b"
    "seg h1 0 [u] 0" "distinct (nodes [u])" "set (nodes [u]) \<subseteq> {brk h..<brk h1}"
  shows "\<exists>h2. (if last_or ts 0 \<noteq> 0 then suffix_object (last_or ts 0) (jroot u) h1 else jupd n (j_child_update (\<lambda>_. jroot u)) h1)
    = Some h2 \<and> grown h h2 n x ts [u]"
proof -
  have b: "b < brk h" if "b \<in> set (n # nodes ts)" for b using has_children_below [OF assms(1,2) that] .
  have h1: "has_children h1 n x ts" using assms(1,5) b by (auto elim: has_children_cong)
  have u: "jroot u \<noteq> 0" using seg_root [OF assms(6), of u] by simp
  have "distinct (n # nodes ts @ nodes [u])"
    using assms(1,7,8) b by (fastforce simp: has_children_def)
  from add_list [OF h1 assms(6) this] obtain h2 where h2: "cJSON_AddItemToArray n (jroot u) h1 = Some h2" "has_children h2 n x (ts @ [u])"
      "off (set (n # nodes ts @ nodes [u])) h1 h2" by blast
  have "room h2" using assms(4,8) b by (intro room_off [OF assms(3) h2(3)]) fastforce
  moreover have "items h2 c = items h c" if "c < brk h" "c \<notin> set (n # nodes ts)" for c
    using h2(3) that assms(5,8) by (force simp: off_def)
  moreover have "brk h2 = brk h1" using h2(3) by (simp add: off_def)
  ultimately show ?thesis using h2(1,2) add_step [OF h1 u] assms(4,8) unfolding grown_def by auto
qed

lemma and_not_eq: "w AND m = 0 \<Longrightarrow> w AND NOT m = w" for w m :: "32 word"
  by (rule bit_word_eqI) (drule arg_cong [of _ _ "\<lambda>v. bit v _"], auto simp: bit_and_iff bit_not_iff)

text \<open>The copy of a node, when the loop copies its children.\<close>

lemma dup_node:
  assumes "seg h p (JNode a d cs # ts) q" "room h"
    "\<And>h n x. seg h 0 cs 0 \<Longrightarrow> room h \<Longrightarrow> has_children h n x [] \<Longrightarrow> n \<notin> set (nodes cs) \<Longrightarrow>
      \<exists>h' vs. dup_children f (head_or cs 0) 0 n h = Some h' \<and> vals vs = vals cs \<and> grown h h' n x [] vs"
  shows "\<exists>h' us. cJSON_Duplicate (Suc f) a True h = Some (brk h, h') \<and> vals us = vals cs \<and>
    seg h' 0 [JNode (brk h) d us] 0 \<and> distinct (nodes [JNode (brk h) d us]) \<and>
    set (nodes [JNode (brk h) d us]) \<subseteq> {brk h..<brk h'} \<and> room h' \<and> brk h \<le> brk h' \<and> (\<forall>b < brk h. items h' b = items h b)"
proof -
  let ?x = "\<lparr>j_next = 0, j_prev = 0, j_child = 0, j_data = d\<rparr>"
  have s: "jget a h = Some \<lparr>j_next = head_or ts q, j_prev = p, j_child = head_or cs 0, j_data = d\<rparr>"
      "j_type d AND cJSON_IsReference = 0" "seg h 0 cs 0"
    using assms(1) by auto
  have below: "b < brk h" if "b \<in> set (a # nodes cs)" for b
    using seg_below [OF assms(1,2), of b] that by auto
  have a: "a \<noteq> 0" "a < brk h" using s(1) below [of a] by (auto simp: jget_def split: if_splits)
  define h1 where "h1 = jset (brk h) ?x (snd (cJSON_New_Item h))"
  then have h1: "cJSON_New_Item h = (brk h, h\<lparr>items := (items h)(brk h := Some \<lparr>j_next = 0, j_prev = 0, j_child = 0, j_data = no_data\<rparr>),
        brk := brk h + 1\<rparr>)" "items h1 = (items h)(brk h := Some ?x)" "brk h1 = brk h + 1"
      "jupd (brk h) (\<lambda>z. z\<lparr>j_data := d\<lparr>j_type := j_type d AND NOT cJSON_IsReference\<rparr>\<rparr>) (snd (cJSON_New_Item h)) = Some h1"
    using assms(2) and_not_eq [OF s(2)] by (auto simp: cJSON_New_Item_def jupd_def jget_def jset_def room_def)
  have m: "has_children h1 (brk h) ?x []" "room h1" "seg h1 0 cs 0" "brk h \<notin> set (nodes cs)"
    using assms(2) h1(2,3) below [of "brk h"] by (auto simp: has_children_def jget_def room_def intro!: seg_cong [OF s(3)])
  obtain h2 us where h2: "dup_children f (head_or cs 0) 0 (brk h) h1 = Some h2" "vals us = vals cs" "grown h1 h2 (brk h) ?x [] us"
    using assms(3) [OF m(3,2,1,4)] by blast
  have "seg h2 0 [JNode (brk h) d us] 0" "distinct (nodes [JNode (brk h) d us])"
      "set (nodes [JNode (brk h) d us]) \<subseteq> {brk h..<brk h2}" "room h2" "brk h \<le> brk h2" "\<forall>b < brk h. items h2 b = items h b"
    using h2(3) h1(2,3) s(2) by (auto simp: grown_def has_children_def)
  moreover have "cJSON_Duplicate (Suc f) a True h = Some (brk h, h2)"
    using a s(1) h1 h2(1) by (simp add: jget_def)
  ultimately show ?thesis using h2(2) by blast
qed

lemma dup_copies:
  "2 * length (nodes ts) < fuel \<Longrightarrow> seg h p ts 0 \<Longrightarrow> room h \<Longrightarrow> has_children h n x us \<Longrightarrow> set (nodes ts) \<inter> set (n # nodes us) = {} \<Longrightarrow>
    \<exists>h' vs. dup_children fuel (head_or ts 0) (last_or us 0) n h = Some h' \<and> vals vs = vals ts \<and> grown h h' n x us vs"
proof (induction ts arbitrary: fuel h p n x us rule: nodes.induct)
  case 1
  then show ?case using grown_refl by (cases fuel) fastforce+
next
  case (2 a d cs ts)
  obtain f where f: "fuel = Suc (Suc f)" "2 * length (nodes cs) < f" "2 * length (nodes ts) < Suc f"
    using "2.prems"(1) by (cases fuel rule: nat.exhaust; cases "fuel - 1") auto
  have s: "jget a h = Some \<lparr>j_next = head_or ts 0, j_prev = p, j_child = head_or cs 0, j_data = d\<rparr>" "seg h a ts 0" "a \<noteq> 0"
    using "2.prems"(2) by (auto simp: jget_def split: if_splits)
  have below: "b < brk h" if "b \<in> set (a # nodes cs @ nodes ts)" for b
    using seg_below [OF "2.prems"(2,3), of b] that by simp
  have "\<exists>h' vs. dup_children f (head_or cs 0) 0 n h = Some h' \<and> vals vs = vals cs \<and> grown h h' n x [] vs"
    if "seg h 0 cs 0" "room h" "has_children h n x []" "n \<notin> set (nodes cs)" for h n x
    using "2.IH"(1) [OF f(2) that(1,2,3)] that(4) by auto
  from dup_node [OF "2.prems"(2,3) this] obtain h2 us' where dup: "cJSON_Duplicate (Suc f) a True h = Some (brk h, h2)" "vals us' = vals cs"
    and u: "seg h2 0 [JNode (brk h) d us'] 0" "distinct (nodes [JNode (brk h) d us'])"
      "set (nodes [JNode (brk h) d us']) \<subseteq> {brk h..<brk h2}" "room h2" "brk h \<le> brk h2" "\<forall>b < brk h. items h2 b = items h b"
    by blast
  let ?u = "JNode (brk h) d us'"
  obtain h3 where h3: "(if last_or us 0 \<noteq> 0 then suffix_object (last_or us 0) (brk h) h2 else jupd n (j_child_update (\<lambda>_. brk h)) h2) = Some h3"
      "grown h h3 n x us [?u]"
    using grow [OF "2.prems"(4,3) u(4,5,6,1,2,3)] unfolding jroot.simps by blast
  have keep: "items h3 b = items h b" if "b \<in> set (a # nodes cs @ nodes ts)" for b
    using h3(2) below [OF that] "2.prems"(5) that by (auto simp: grown_def)
  have ts3: "seg h3 a ts 0" using keep by (intro seg_cong [OF s(2)]) simp
  have dt: "set (nodes ts) \<inter> set (n # nodes (us @ [?u])) = {}"
    using "2.prems"(5) below u(3) by (auto simp: subset_iff) (metis not_less)
  obtain h4 vs where h4: "dup_children (Suc f) (head_or ts 0) (brk h) n h3 = Some h4" "vals vs = vals ts" "grown h3 h4 n x (us @ [?u]) vs"
    using "2.IH"(2) [OF f(3) ts3 _ _ dt, of x] h3(2) by (auto simp: grown_def)
  have "dup_children fuel a (last_or us 0) n h = Some h4"
    using dup(1) s(3) f(1) h3(1) h4(1) keep [of a] s(1) by (simp add: jget_def split del: if_split cong: if_cong)
  moreover have "grown h h4 n x us (?u # vs)" using grown_trans [OF h3(2) h4(3)] by simp
  ultimately show ?case using dup(2) h4(2) by (intro exI [of _ h4] exI [of _ "?u # vs"]) simp
qed

text \<open>The loop that fills a new array.\<close>

lemma fill_grows:
  assumes "\<And>v h. v \<in> set vs \<Longrightarrow> mk v h = Some (new_data (dat v) h) \<and> j_type (dat v) AND cJSON_IsReference = 0"
  shows "room h \<Longrightarrow> has_children h a x us \<Longrightarrow>
    \<exists>h' ws. fill_array mk a (last_or us 0) vs h = Some h' \<and> vals ws = map (\<lambda>v. JVal (dat v) []) vs \<and> grown h h' a x us ws"
  using assms
proof (induction vs arbitrary: h us)
  case (Cons v vs)
  let ?x = "\<lparr>j_next = 0, j_prev = 0, j_child = 0, j_data = dat v\<rparr>"
  define h1 where "h1 = snd (new_data (dat v) h)"
  have h1: "new_data (dat v) h = (brk h, h1)" "items h1 = (items h)(brk h := Some ?x)" "brk h1 = brk h + 1"
    by (simp_all add: h1_def new_data_def cJSON_New_Item_def jset_def)
  let ?u = "JNode (brk h) (dat v) []"
  have u: "seg h1 0 [?u] 0" "distinct (nodes [?u])" "set (nodes [?u]) \<subseteq> {brk h..<brk h1}" "room h1" "brk h \<le> brk h1"
    "\<forall>b < brk h. items h1 b = items h b"
    using Cons.prems(1) Cons.prems(3) [of v h] h1(2,3) by (auto simp: room_def jget_def)
  obtain h2 where h2: "(if last_or us 0 \<noteq> 0 then suffix_object (last_or us 0) (brk h) h1 else jupd a (j_child_update (\<lambda>_. brk h)) h1) = Some h2"
      "grown h h2 a x us [?u]"
    using grow [OF Cons.prems(2,1) u(4,5,6,1,2,3)] unfolding jroot.simps by blast
  obtain h3 ws where h3: "fill_array mk a (brk h) vs h2 = Some h3" "vals ws = map (\<lambda>v. JVal (dat v) []) vs" "grown h2 h3 a x (us @ [?u]) ws"
    using Cons.IH [of h2 "us @ [?u]"] h2(2) Cons.prems(3) by (auto simp: grown_def)
  have "fill_array mk a (last_or us 0) (v # vs) h = Some h3"
    using Cons.prems(3) [of v h] h1(1) h2(1) h3(1) by (cases "last_or us 0 = 0") simp_all
  moreover have "grown h h3 a x us (?u # ws)" using grown_trans [OF h2(2) h3(3)] by simp
  ultimately show ?case using h3(2) by (intro exI [of _ h3] exI [of _ "?u # ws"]) simp
next
  case Nil
  then show ?case using grown_refl [OF Nil(2,1)] by (intro exI [of _ h] exI [of _ "[]"]) simp
qed

section \<open>Values\<close>

text \<open>The value of a tree, as the gateway sees it.\<close>

fun value_of :: "jtree \<Rightarrow> json" where
  "value_of (JNode a d cs) =
     (if j_type d = 0 then JFalse else if j_type d = 1 then JTrue else if j_type d = 2 then JNull
      else if j_type d = 3 then JNumber (j_int d) else if j_type d = 4 then JString (the (j_str d))
      else if j_type d = 5 then JArray (map value_of cs)
      else JObject (map (\<lambda>c. (the (j_key (data_of c)), value_of c)) cs))"

definition members :: "jtree list \<Rightarrow> (byte list \<times> json) list" where
  "members ts = map (\<lambda>c. (the (j_key (data_of c)), value_of c)) ts"

definition named :: "jtree list \<Rightarrow> bool" where
  "named ts = (\<forall>t \<in> set ts. j_key (data_of t) \<noteq> None)"

definition tree_at :: "jtree list \<Rightarrow> nat \<Rightarrow> jtree option" where
  "tree_at ts k = (if k < length ts then Some (ts ! k) else None)"

lemma find_members:
  "named ts \<Longrightarrow> map_option snd (List.find (\<lambda>(n, _). map lower n = map lower s) (members ts)) = map_option value_of (tree_at ts (key_index s ts))"
  by (induction ts) (auto simp: members_def named_def tree_at_def key_index_def key_is_def)

lemma set_key_tree:
  assumes "seg h 0 [u] 0" "distinct (a # nodes ts @ nodes [u])" "has_children h a x ts"
  shows "\<exists>h1 u'. jupd (jroot u) (set_key s) h = Some h1 \<and> jroot u' = jroot u \<and> seg h1 0 [u'] 0 \<and> nodes [u'] = nodes [u] \<and>
    has_children h1 a x ts \<and> off (set (nodes [u])) h h1 \<and> j_key (data_of u') = Some s \<and> value_of u' = value_of u"
proof -
  obtain i e es where u: "u = JNode i e es" by (cases u)
  have i: "jget i h = Some \<lparr>j_next = 0, j_prev = 0, j_child = head_or es 0, j_data = e\<rparr>" "seg h 0 es 0" "j_type e AND cJSON_IsReference = 0"
    using assms(1) u by auto
  from off_Some [OF i(1)] obtain h1 where h1: "jupd i (set_key s) h = Some h1" "off {i} h h1"
      "jget i h1 = Some (set_key s \<lparr>j_next = 0, j_prev = 0, j_child = head_or es 0, j_data = e\<rparr>)" by blast
  let ?u = "JNode i (e\<lparr>j_key := Some s\<rparr>) es"
  have "seg h1 0 es 0" using assms(2) u by (intro seg_off [OF i(2) h1(2)]) auto
  moreover have "has_children h1 a x ts"
    using assms(2) u h1(2) by (intro has_children_cong [OF assms(3)]) (auto simp: off_def)
  moreover have "off (set (nodes [u])) h h1" using h1(2) by (rule off_mono) (simp add: u)
  ultimately show ?thesis using h1 i(3) u by (intro exI [of _ h1] exI [of _ ?u]) (simp add: set_key_def)
qed

text \<open>A reference has no owner's duties.\<close>

lemma reference_freed:
  assumes "seg h 0 [t] 0" "room h"
  shows "\<exists>h1 h2. create_reference (jroot t) h = Some (brk h, h1) \<and> cJSON_Delete (brk h) h1 = Some h2 \<and> items h2 = items h"
proof -
  obtain a d cs where t: "t = JNode a d cs" by (cases t)
  have a: "jget a h = Some \<lparr>j_next = 0, j_prev = 0, j_child = head_or cs 0, j_data = d\<rparr>" "a < brk h" "0 < brk h" "items h (brk h) = None"
    using assms seg_below [OF assms, of a] t by (auto simp: room_def)
  have "(w OR 256) AND 256 \<noteq> 0" for w :: "32 word"
    by (simp add: word_bw_comms word_ao_absorbs)
  then show ?thesis
    using a by (simp add: t create_reference_def cJSON_New_Item_def jget_def jset_def cJSON_Delete.simps [of "brk h"]
        cJSON_Delete.simps [of 0] jfree_def cJSON_IsReference_def fun_upd_idem split: if_splits)
qed

text \<open>An array of numbers.\<close>

lemma int_array_built:
  assumes "room h" "\<forall>i \<in> set is. int32 i = Some i"
  shows "\<exists>a h' ts x. cJSON_CreateIntArray is h = Some (a, h') \<and> has_children h' a x ts \<and> map value_of ts = map JNumber is"
proof -
  define h1 where "h1 = snd (cJSON_CreateArray h)"
  let ?x = "\<lparr>j_next = 0, j_prev = 0, j_child = 0, j_data = no_data\<lparr>j_type := 5\<rparr>\<rparr>"
  let ?d = "\<lambda>i. no_data\<lparr>j_type := 3, j_dbl := of_int i, j_int := i\<rparr>"
  have h1: "cJSON_CreateArray h = (brk h, h1)" "has_children h1 (brk h) ?x []" "room h1"
    using assms(1) by (auto simp: h1_def cJSON_CreateArray_def new_data_def cJSON_New_Item_def jset_def has_children_def jget_def room_def)
  have mk: "cJSON_CreateNumber (of_int i) h = Some (new_data (?d i) h) \<and> j_type (?d i) AND cJSON_IsReference = 0" if "i \<in> set is" for i h
    using assms(2) that by (simp add: cJSON_CreateNumber_def to_int_def cJSON_IsReference_def)
  from fill_grows [of "is" "\<lambda>i. cJSON_CreateNumber (of_int i)" ?d, OF mk h1(3,2)] obtain h' ws where w: "fill_array (\<lambda>i. cJSON_CreateNumber (of_int i)) (brk h) 0 is h1 = Some h'"
      "vals ws = map (\<lambda>v. JVal (?d v) []) is" "grown h1 h' (brk h) ?x [] ws" by auto
  have "map value_of ws = map JNumber is" using w(2)
  proof (induction ws arbitrary: "is" rule: vals.induct)
    case (2 a d cs ts)
    then show ?case by (cases "is") (auto simp: no_data_def)
  qed simp
  then show ?thesis using w(1,3) h1(1) by (auto simp: cJSON_CreateIntArray_def create_list_def grown_def)
qed

section \<open>What the operations promise\<close>

text \<open>C28: The operations on children are the operations on the list of the children, in memory: adding
  appends, detaching takes one out that then stands alone, replacing puts the new tree in the
  place and frees every node of the old one; both links of every sibling are right afterwards,
  and nothing outside of the item and the trees is written.\<close>

theorem children_refined:
  assumes "has_children h a x ts" "seg h 0 [u] 0" "distinct (a # nodes ts @ nodes [u])"
  shows "(\<exists>h'. cJSON_AddItemToArray a (jroot u) h = Some h' \<and> has_children h' a x (ts @ [u]) \<and> off (set (a # nodes ts @ nodes [u])) h h') \<and>
    (\<forall>k < length ts.
      (\<exists>h'. cJSON_DetachItemFromArray a (int k) h = Some (jroot (ts ! k), h') \<and>
        has_children h' a x (take k ts @ drop (Suc k) ts) \<and> seg h' 0 [ts ! k] 0 \<and> off (set (a # nodes ts)) h h') \<and>
      (\<exists>h'. cJSON_ReplaceItemInArray a (int k) (jroot u) h = Some h' \<and> has_children h' a x (ts[k := u]) \<and>
        (\<forall>b \<in> set (nodes [ts ! k]). items h' b = None) \<and> off (set (a # nodes ts @ nodes [u])) h h')) \<and>
    cJSON_GetArraySize a h = Some (length ts) \<and>
    (\<forall>k. cJSON_GetArrayItem a k h = Some (if nat k < length ts then jroot (ts ! nat k) else 0))"
proof (intro conjI allI impI)
  fix k assume k: "k < length ts"
  then have split: "ts = take k ts @ ts ! k # drop (Suc k) ts" "nat (int k) = length (take k ts)" by (simp_all add: id_take_nth_drop)
  have h: "has_children h a x (take k ts @ ts ! k # drop (Suc k) ts)"
    and d: "distinct (a # nodes (take k ts @ ts ! k # drop (Suc k) ts) @ nodes [u])"
    using assms(1,3) by (simp_all only: split(1) [symmetric])
  show "\<exists>h'. cJSON_DetachItemFromArray a (int k) h = Some (jroot (ts ! k), h') \<and>
        has_children h' a x (take k ts @ drop (Suc k) ts) \<and> seg h' 0 [ts ! k] 0 \<and> off (set (a # nodes ts)) h h'"
    using detach_list [OF h split(2)] by (simp only: split(1) [symmetric])
  have "ts[k := u] = take k ts @ u # drop (Suc k) ts" using k by (simp add: upd_conv_take_nth_drop)
  then show "\<exists>h'. cJSON_ReplaceItemInArray a (int k) (jroot u) h = Some h' \<and> has_children h' a x (ts[k := u]) \<and>
        (\<forall>b \<in> set (nodes [ts ! k]). items h' b = None) \<and> off (set (a # nodes ts @ nodes [u])) h h'"
    using replace_list [OF h split(2) assms(2) d] by (simp only: split(1) [symmetric])
next
  show "\<exists>h'. cJSON_AddItemToArray a (jroot u) h = Some h' \<and> has_children h' a x (ts @ [u]) \<and> off (set (a # nodes ts @ nodes [u])) h h'"
    by (rule add_list [OF assms])
  show "cJSON_GetArraySize a h = Some (length ts)"
    using assms(1) size_walk [of h 0 ts 0] by (simp add: has_children_def cJSON_GetArraySize_def)
  show "cJSON_GetArrayItem a k h = Some (if nat k < length ts then jroot (ts ! nat k) else 0)" for k
    using assms(1) nth_walk [of h 0 ts k] by (simp add: has_children_def cJSON_GetArrayItem_def)
qed

text \<open>C10: On the items of an object the operations are those on its value that the gateway is modelled
  with: a lookup finds the node of the first member with the key, ignoring case, and adding
  appends a member under the new key.\<close>

theorem object_value_refined:
  assumes "has_children h a x ts" "named ts" "seg h 0 [u] 0" "distinct (a # nodes ts @ nodes [u])"
  shows "(\<exists>t. cJSON_GetObjectItem a s h = Some (case t of None \<Rightarrow> 0 | Some t \<Rightarrow> jroot t) \<and> (\<forall>v. t = Some v \<longrightarrow> v \<in> set ts) \<and>
      GetObjectItem (JObject (members ts)) s = map_option value_of t) \<and>
    (\<exists>h' u'. cJSON_AddItemToObject a s (jroot u) h = Some h' \<and> has_children h' a x (ts @ [u']) \<and> named (ts @ [u']) \<and> jroot u' = jroot u \<and>
      JObject (members (ts @ [u'])) = AddItemToObject s (value_of u) (JObject (members ts)))"
proof (rule conjI)
  have "cJSON_GetObjectItem a s h = Some (root_at ts (key_index s ts))"
    using assms(1) find_walk [of h 0 ts 0 s] by (simp add: has_children_def cJSON_GetObjectItem_def)
  moreover have "root_at ts k = (case tree_at ts k of None \<Rightarrow> 0 | Some t \<Rightarrow> jroot t)" for k
    by (simp add: root_at_def tree_at_def)
  moreover have "tree_at ts k = Some v \<Longrightarrow> v \<in> set ts" for k v by (auto simp: tree_at_def split: if_splits)
  ultimately show "\<exists>t. cJSON_GetObjectItem a s h = Some (case t of None \<Rightarrow> 0 | Some t \<Rightarrow> jroot t) \<and> (\<forall>v. t = Some v \<longrightarrow> v \<in> set ts) \<and>
      GetObjectItem (JObject (members ts)) s = map_option value_of t"
    using find_members [OF assms(2), of s] by (intro exI [of _ "tree_at ts (key_index s ts)"]) simp
next
  obtain h1 u' where k: "jupd (jroot u) (set_key s) h = Some h1" "jroot u' = jroot u" "seg h1 0 [u'] 0" "nodes [u'] = nodes [u]"
      "has_children h1 a x ts" "j_key (data_of u') = Some s" "value_of u' = value_of u"
    using set_key_tree [OF assms(3,4,1)] by blast
  obtain h2 where "cJSON_AddItemToArray a (jroot u') h1 = Some h2" "has_children h2 a x (ts @ [u'])"
    using add_list [OF k(5,3)] assms(4) k(4) by auto
  then show "\<exists>h' u'. cJSON_AddItemToObject a s (jroot u) h = Some h' \<and> has_children h' a x (ts @ [u']) \<and> named (ts @ [u']) \<and> jroot u' = jroot u \<and>
      JObject (members (ts @ [u'])) = AddItemToObject s (value_of u) (JObject (members ts))"
    using k assms(2) seg_root [OF assms(3), of u]
    by (intro exI [of _ h2] exI [of _ u']) (simp add: cJSON_AddItemToObject_def named_def members_def)
qed

text \<open>C29: Deleting a value frees each of its nodes once and nothing else; deleting a reference to it frees
  only the reference.\<close>

theorem deletion_frees_tree:
  assumes "seg h 0 [t] 0" "distinct (nodes [t])" "room h"
  shows "cJSON_Delete (jroot t) h = Some (freed (set (nodes [t])) h) \<and>
    (\<exists>h1 h2. create_reference (jroot t) h = Some (brk h, h1) \<and> cJSON_Delete (brk h) h1 = Some h2 \<and> items h2 = items h)"
proof
  show "cJSON_Delete (jroot t) h = Some (freed (set (nodes [t])) h)" using delete_seg [OF assms(1,2)] by simp
  show "\<exists>h1 h2. create_reference (jroot t) h = Some (brk h, h1) \<and> cJSON_Delete (brk h) h1 = Some h2 \<and> items h2 = items h"
    using reference_freed [OF assms(1,3)] .
qed

text \<open>A duplicate ends, for a depth of calls of twice the number of nodes, and is an equal tree of
  new nodes; the original is not touched, and deleting it leaves the duplicate whole.\<close>

theorem duplicate_is_apart:
  assumes "seg h 0 [t] 0" "distinct (nodes [t])" "room h" "2 * length (nodes [t]) \<le> fuel"
  shows "\<exists>h' h2 t'. cJSON_Duplicate fuel (jroot t) True h = Some (jroot t', h') \<and> vals [t'] = vals [t] \<and> seg h' 0 [t'] 0 \<and>
    distinct (nodes [t']) \<and> set (nodes [t]) \<inter> set (nodes [t']) = {} \<and> (\<forall>b < brk h. items h' b = items h b) \<and>
    cJSON_Delete (jroot t) h' = Some h2 \<and> seg h2 0 [t'] 0"
proof -
  obtain a d cs where t: "t = JNode a d cs" by (cases t)
  obtain f where f: "fuel = Suc f" "2 * length (nodes cs) < f" using assms(4) t by (cases fuel) auto
  have "\<exists>h' vs. dup_children f (head_or cs 0) 0 n h = Some h' \<and> vals vs = vals cs \<and> grown h h' n x [] vs"
    if "seg h 0 cs 0" "room h" "has_children h n x []" "n \<notin> set (nodes cs)" for h n x
    using dup_copies [OF f(2) that(1,2,3)] that(4) by simp
  from dup_node [OF assms(1) [unfolded t] assms(3) this] obtain h' us where d: "cJSON_Duplicate fuel a True h = Some (brk h, h')"
      "vals us = vals cs" "seg h' 0 [JNode (brk h) d us] 0" "distinct (nodes [JNode (brk h) d us])"
      "set (nodes [JNode (brk h) d us]) \<subseteq> {brk h..<brk h'}" "\<forall>b < brk h. items h' b = items h b"
    using f(1) by blast
  have below: "b < brk h" if "b \<in> set (nodes [t])" for b using seg_below [OF assms(1,3) that] .
  have o: "seg h' 0 [t] 0" using d(6) below by (intro seg_cong [OF assms(1)]) auto
  have apart: "set (nodes [t]) \<inter> set (nodes [JNode (brk h) d us]) = {}" using below d(5) by fastforce
  then have "seg (freed (set (nodes [t])) h') 0 [JNode (brk h) d us] 0" by (rule seg_freed [OF d(3)])
  then show ?thesis using d t apart delete_seg [OF o assms(2)]
    by (intro exI [of _ h'] exI [of _ "freed (set (nodes [t])) h'"] exI [of _ "JNode (brk h) d us"]) simp
qed

section \<open>Examples\<close>

text \<open>An object at 1 with a number at 2 and an array at 3, and a string at 4 that stands alone.\<close>

definition ex_x :: jitem where
  "ex_x = \<lparr>j_next = 0, j_prev = 0, j_child = 2, j_data = no_data\<lparr>j_type := 6\<rparr>\<rparr>"

definition ex_ts :: "jtree list" where
  "ex_ts = [JNode 2 (no_data\<lparr>j_type := 3, j_int := 7, j_dbl := 7, j_key := Some (bytes ''vol'')\<rparr>) [],
    JNode 3 (no_data\<lparr>j_type := 5, j_key := Some (bytes ''ids'')\<rparr>) []]"

definition ex_u :: jtree where "ex_u = JNode 4 (no_data\<lparr>j_type := 4, j_str := Some (bytes ''on'')\<rparr>) []"

definition ex_heap :: jheap where
  "ex_heap = \<lparr>items = [1 \<mapsto> ex_x, 2 \<mapsto> \<lparr>j_next = 3, j_prev = 0, j_child = 0, j_data = data_of (ex_ts ! 0)\<rparr>,
      3 \<mapsto> \<lparr>j_next = 0, j_prev = 2, j_child = 0, j_data = data_of (ex_ts ! 1)\<rparr>,
      4 \<mapsto> \<lparr>j_next = 0, j_prev = 0, j_child = 0, j_data = data_of ex_u\<rparr>], brk = 5\<rparr>"

definition ex_tree :: jtree where "ex_tree = JNode 1 (no_data\<lparr>j_type := 6\<rparr>) ex_ts"

lemmas ex_defs = ex_heap_def ex_x_def ex_ts_def ex_u_def ex_tree_def no_data_def cJSON_IsReference_def

lemma ex_object_ok: "has_children ex_heap 1 ex_x ex_ts" "seg ex_heap 0 [ex_u] 0" "distinct (1 # nodes ex_ts @ nodes [ex_u])" "named ex_ts"
  by (simp_all add: has_children_def ex_defs jget_def named_def)

lemma ex_tree_ok: "seg ex_heap 0 [ex_tree] 0" "distinct (nodes [ex_tree])" "room ex_heap"
  by (simp_all add: ex_defs jget_def room_def)

lemma children_refined_witness:
  "\<exists>h'. cJSON_ReplaceItemInArray 1 0 4 ex_heap = Some h' \<and> has_children h' 1 ex_x [ex_u, ex_ts ! 1] \<and> items h' 2 = None"
  using children_refined [OF ex_object_ok(1,2,3)] by (auto simp: ex_ts_def ex_u_def)

lemma object_value_refined_witness:
  "(\<exists>h'. cJSON_AddItemToObject 1 (bytes ''play'') 4 ex_heap = Some h') \<and> (\<exists>t. cJSON_GetObjectItem 1 (bytes ''VOL'') ex_heap = Some t)"
  using object_value_refined [OF ex_object_ok(1,4,2,3)] by (auto simp: ex_u_def)

lemma deletion_frees_tree_witness: "cJSON_Delete 1 ex_heap = Some (freed {1, 2, 3} ex_heap)"
  using deletion_frees_tree [OF ex_tree_ok] by (simp add: ex_tree_def ex_ts_def insert_commute)

lemma duplicate_is_apart_witness: "\<exists>a h'. cJSON_Duplicate 6 1 True ex_heap = Some (a, h') \<and> items h' 2 = items ex_heap 2"
proof -
  have "2 * length (nodes [ex_tree]) \<le> 6" by (simp add: ex_defs)
  from duplicate_is_apart [OF ex_tree_ok this] show ?thesis by (auto simp: ex_tree_def ex_heap_def)
qed

end
