(* ===== verification/Unused.thy ===== *)
theory Unused
  imports Halo_Main
begin

text \<open>
  Functions that no C code of the gateway calls: \<open>format_ign_list\<close> of \<open>app/common.c\<close>, which only a
  script reaches, and, never called at all, the earlier pass of the manager (\<open>_manag_unit\<close> of
  \<open>app/main_loop.c\<close>), the getters of \<open>app/halo_product.c\<close>, \<open>play_music_without_list\<close> of
  \<open>app/halo_hal.c\<close>, \<open>delete_ids_add_id\<close> of \<open>app/hp_speech.c\<close> and \<open>_debug_dispatch\<close> of
  \<open>app/tcp_ser_cli.c\<close>.
\<close>

section \<open>The earlier pass of the manager\<close>

definition halo_start :: "'e gateway \<Rightarrow> int" where
  "halo_start g = (if halo_up g then 0 else -1)"

text \<open>The requirements are compared as numbers here, in one byte.\<close>

definition unit_config :: "st_proto \<Rightarrow> byte" where
  "unit_config p = ucast (config p AND 3)"

definition unit_deliver :: "'e tables \<Rightarrow> addr \<Rightarrow> addr \<Rightarrow> 'e gateway \<Rightarrow> 'e gateway option" where
  "unit_deliver tabs m a g =
     do { p \<leftarrow> pget a g;
          case disproto_cb (table_of tabs p) of
            None \<Rightarrow> Some g
          | Some f \<Rightarrow>
              if m = 0 then Some g
              else do { x \<leftarrow> mget m g;
                        if m_target x = pname p then map_option snd (f m a g) else Some g } }"

definition unit_timeout :: "'e tables \<Rightarrow> 64 word \<Rightarrow> addr \<Rightarrow> 'e gateway \<Rightarrow> 'e gateway option" where
  "unit_timeout tabs now a g =
     do { p \<leftarrow> pget a g;
          case timeout_cb (table_of tabs p) of
            None \<Rightarrow> Some g
          | Some f \<Rightarrow>
              if timeout p \<le> now - timecount p
              then do { g1 \<leftarrow> pupd a (\<lambda>p. p\<lparr>timecount := now\<rparr>) g;
                        (r, g2) \<leftarrow> f a g1;
                        if r \<noteq> 0 then map_option snd (close_proto tabs a g2) else Some g2 }
              else Some g }"

definition unit_body :: "'e tables \<Rightarrow> byte \<Rightarrow> bool \<Rightarrow> 64 word \<Rightarrow> addr \<Rightarrow> addr \<Rightarrow> 'e gateway \<Rightarrow> (unit option \<times> 'e gateway) option" where
  "unit_body tabs env changed now m a g =
     do { p \<leftarrow> pget a g;
          g1 \<leftarrow> (if unit_config p \<le> env \<and> active p = 0
                 then (case init_cb (table_of tabs p) of None \<Rightarrow> Some g | Some f \<Rightarrow> map_option snd (f a g))
                 else Some g);
          g2 \<leftarrow> (if changed \<and> unit_config p > env
                 then do { p1 \<leftarrow> pget a g1;
                           if active p1 = 1 then map_option snd (close_proto tabs a g1) else Some g1 }
                 else Some g1);
          g3 \<leftarrow> unit_deliver tabs m a g2;
          g4 \<leftarrow> unit_timeout tabs now a g3;
          Some (None, g4) }"

definition manag_unit :: "nat \<Rightarrow> 'e tables \<Rightarrow> byte \<Rightarrow> bool \<Rightarrow> 64 word \<Rightarrow> addr \<Rightarrow> 'e gateway \<Rightarrow> (int \<times> 'e gateway) option" where
  "manag_unit fuel tabs env changed now m g =
     do { (_, g1) \<leftarrow> list_for_each_safe fuel (\<lambda>g. il_next (protos g)) (unit_body tabs env changed now m) 0 g; Some (0, g1) }"

text \<open>Compared as numbers, the cloud alone counts as the network: the earlier pass starts a protocol that
  needs bit 1 when only bit 2 of the environment is set, and the manager does not.\<close>

lemma compared_as_numbers:
  "unit_config p \<le> 2 \<and> \<not> met 2 p" if "config p = 1"
  using that by (simp add: unit_config_def met_def needs_def LOOP_CFG_RETRY_def)

section \<open>The product\<close>

definition get_server_ip :: "'e platform \<Rightarrow> cbuf \<Rightarrow> 'e gateway \<Rightarrow> (int \<times> cbuf) option" where
  "get_server_ip pl ip g = map_option (Pair 0) (strcpy ip (server_ip pl (ext g)))"

definition get_dev_uuid :: "'e platform \<Rightarrow> cbuf \<Rightarrow> 'e gateway \<Rightarrow> (int \<times> cbuf) option" where
  "get_dev_uuid pl uuid g = config_read pl CFG_AI_UUID uuid 64 g"

definition get_ver :: "cbuf \<Rightarrow> cbuf option" where "get_ver str = strncpy str HALO_VER 20"
definition get_cid :: "cbuf \<Rightarrow> cbuf option" where "get_cid str = strncpy str HALO_CID 22"
definition get_sid :: "cbuf \<Rightarrow> cbuf option" where "get_sid str = strncpy str HALO_SID 22"
definition get_key :: "cbuf \<Rightarrow> cbuf option" where "get_key str = strncpy str HALO_KEY 34"

text \<open>The four bounds leave room for the terminator of the text.\<close>

lemma strncpy_whole:
  assumes "length b = n" "length s < n" "0 \<notin> set s"
  shows "(strncpy b s n \<bind> cstr) = Some s"
proof -
  obtain k where "n - length s = Suc k" using assms(2) by (cases "n - length s") auto
  then have "strncpy_bytes s n = s @ 0 # replicate k 0" "length (strncpy_bytes s n) = n"
    using assms(2) by (auto simp: strncpy_bytes_def)
  then show ?thesis using assms(1) cstr_append [OF assms(3), of "replicate k 0"] by (simp add: strncpy_def bput_def)
qed

lemma product_texts_terminated:
  "length b = 20 \<Longrightarrow> (get_ver b \<bind> cstr) = Some HALO_VER"
  "length b = 22 \<Longrightarrow> (get_cid b \<bind> cstr) = Some HALO_CID"
  "length b = 22 \<Longrightarrow> (get_sid b \<bind> cstr) = Some HALO_SID"
  "length b = 34 \<Longrightarrow> (get_key b \<bind> cstr) = Some HALO_KEY"
  unfolding get_ver_def get_cid_def get_sid_def get_key_def
  by (rule strncpy_whole, assumption; simp add: HALO_VER_def HALO_CID_def HALO_SID_def HALO_KEY_def bytes_def)+

section \<open>Playing without the list\<close>

text \<open>\<open>readdir\<close> is called on the path instead of the open directory, which has no defined meaning.
  \<open>none\<close> is the number of \<open>HOTPLUGIN_DEV_TYPE_NONE\<close>, and \<open>opens\<close> says whether the directory can be opened.\<close>

definition play_music_without_list :: "'e platform \<Rightarrow> int \<Rightarrow> (byte list \<Rightarrow> bool) \<Rightarrow> int \<Rightarrow> 'e gateway \<Rightarrow> (int \<times> 'e gateway) option" where
  "play_music_without_list pl none opens index g =
     (let disk = (case get_config pl CFG_MAIN_DISK (ext g) of None \<Rightarrow> 0 | Some d \<Rightarrow> d);
          root = play_path pl (if disk = none then disk_local pl else disk)
      in if root = [] then Some (-1, g)
         else if opens (root @ bytes ''/ign'') then None else Some (-1, g))"

text \<open>The directory of the list is joined with a backslash.\<close>

definition ign_path :: "'e platform \<Rightarrow> int \<Rightarrow> 'e gateway \<Rightarrow> byte list" where
  "ign_path pl none g =
     (let disk = (case get_config pl CFG_MAIN_DISK (ext g) of None \<Rightarrow> none | Some d \<Rightarrow> d);
          root = play_path pl (if disk = none then disk_local pl else disk)
      in if root = [] then [] else root @ [0x5c] @ bytes ''ign'')"

definition format_ign_list :: "'e platform \<Rightarrow> int \<Rightarrow> 'e gateway \<Rightarrow> int \<times> 'e gateway" where
  "format_ign_list pl none g =
     (let path = ign_path pl none g;
          cmd = bytes ''ls '' @ path @ bytes '' | awk '' @ [0x27] @ bytes ''{print '' @ path @ bytes ''/$0}'' @ [0x27] @ bytes '' > /tmp/ign_list''
      in (0, snd (call (system_cmd pl (take 127 cmd)) g)))"

lemma ign_path_backslash: "ign_path pl none g = bytes ''/mnt/udisk'' @ [0x5c] @ bytes ''ign''"
  if "get_config pl CFG_MAIN_DISK (ext g) = None"
  using that by (simp add: ign_path_def play_path_def bytes_def)

section \<open>Speech and connection\<close>

fun update_first :: "('a \<Rightarrow> bool) \<Rightarrow> ('a \<Rightarrow> 'a list) \<Rightarrow> 'a list \<Rightarrow> 'a list" where
  "update_first P f [] = []"
| "update_first P f (x # xs) = (if P x then f x @ xs else x # update_first P f xs)"

definition key_is_lower :: "byte list \<Rightarrow> byte list \<times> json \<Rightarrow> bool" where
  "key_is_lower k m = (map lower (fst m) = map lower k)"

text \<open>\<open>cJSON_DeleteItemFromObject\<close> and \<open>cJSON_AddNumberToObject\<close> on the first child of \<open>data\<close>. The children of an
  array have no key; a value without children prints none.\<close>

fun swap_id :: "int option \<Rightarrow> json \<Rightarrow> json" where
  "swap_id n (JObject ms) =
     JObject (update_first (key_is_lower (bytes ''ids'')) (\<lambda>_. []) ms @ (case n of None \<Rightarrow> [] | Some i \<Rightarrow> [(bytes ''id'', JNumber i)]))"
| "swap_id n (JArray vs) = JArray (vs @ (case n of None \<Rightarrow> [] | Some i \<Rightarrow> [JNumber i]))"
| "swap_id n j = j"

fun on_first_child :: "(json \<Rightarrow> json) \<Rightarrow> json \<Rightarrow> json option" where
  "on_first_child f (JArray (v # vs)) = Some (JArray (f v # vs))"
| "on_first_child f (JObject ((k, v) # ms)) = Some (JObject ((k, f v) # ms))"
| "on_first_child f j = None"

definition delete_ids_add_id :: "'e platform \<Rightarrow> byte list \<Rightarrow> byte list option \<Rightarrow> (byte list option) option" where
  "delete_ids_add_id pl input num =
     (case cjson_parse pl input of
        Some (JObject ms) \<Rightarrow>
          (case GetObjectItem (JObject ms) (bytes ''data'') of
             None \<Rightarrow> Some None
           | Some data \<Rightarrow>
               (case on_first_child id data of
                  None \<Rightarrow> Some None
                | Some _ \<Rightarrow> do {
                    n \<leftarrow> (case num of None \<Rightarrow> Some None | Some t \<Rightarrow> map_option Some (atoi t));
                    Some (Some (cjson_print pl (JObject
                      (update_first (key_is_lower (bytes ''data''))
                        (\<lambda>(k, d). [(k, the (on_first_child (swap_id n) d))]) ms)))) }))
      | _ \<Rightarrow> Some None)"

lemma delete_ids_request:
  assumes "cjson_parse pl input = Some (JObject [(bytes ''data'', JArray (JObject [(bytes ''ids'', v), (k, w)] # vs))])"
  shows "delete_ids_add_id pl input (Some (bytes ''7'')) =
    Some (Some (cjson_print pl (JObject [(bytes ''data'', JArray (JObject [(k, w), (bytes ''id'', JNumber 7)] # vs))])))"
  using assms by (simp add: delete_ids_add_id_def key_is_lower_def atoi_def bytes_def is_digit_def digit_val_def int32_def)

text \<open>More than 200 bytes answer with a greeting to the cloud link and empty the buffer.\<close>

definition debug_dispatch :: "st_proto \<Rightarrow> 'e gateway \<Rightarrow> (int \<times> st_proto \<times> 'e gateway) option" where
  "debug_dispatch pro g =
     (if blen (recv_buf pro) > 200
      then do {
        c \<leftarrow> strcpy (replicate 1024 0) (bytes ''hello!'');
        (_, g1) \<leftarrow> add_msg (bytes ''tcp_cli'') \<lparr>pm_type = 1, pm_content = c, pm_length = 7\<rparr> g;
        rb \<leftarrow> wipe (recv_buf pro);
        Some (0, pro\<lparr>recv_buf := rb\<lparr>blen := 0\<rparr>\<rparr>, g1) }
      else Some (0, pro, g))"

end
